(* ===== verification/Prelude.thy ===== *)
theory Prelude
  imports Complex_Main "HOL-Library.AList" "HOL-Library.Word" "HOL-Library.Multiset" "HOL-Library.Signed_Division"
begin

text \<open>
  What every component of the game server shares: hash maps as association lists, 64-bit clock
  arithmetic, C++ integer narrowing, the exceptions that leave a handler, number printing by
  \<open>operator<<\<close>, and the two interfaces (\<open>machine\<close>, \<open>token_table\<close>) that several components
  provide.
\<close>

section \<open>Collections of facts\<close>

named_theorems umap_simps \<open>rewriting lookups after updates of a hash map\<close>
named_theorems inv_intros \<open>preservation lemmas of the component invariants\<close>

section \<open>Hash maps\<close>

text \<open>
  A \<open>std::unordered_map\<close> (or \<open>std::map\<close>) is an association list with at most one entry per key.
  The order of the list stands for the unspecified iteration order of the hash map: nothing the
  server answers may depend on it, and the leaderboard and snapshot theorems prove that.
\<close>

type_synonym ('k, 'v) umap = "('k \<times> 'v) list"

definition um_find :: "('k, 'v) umap \<Rightarrow> 'k \<Rightarrow> 'v option" where
  "um_find m k = map_of m k"

definition um_put :: "'k \<Rightarrow> 'v \<Rightarrow> ('k, 'v) umap \<Rightarrow> ('k, 'v) umap" where
  "um_put k v m = AList.update k v m"

definition um_erase :: "'k \<Rightarrow> ('k, 'v) umap \<Rightarrow> ('k, 'v) umap" where
  "um_erase k m = AList.delete k m"

definition um_size :: "('k, 'v) umap \<Rightarrow> nat" where
  "um_size m = length m"

definition um_wf :: "('k, 'v) umap \<Rightarrow> bool" where
  "um_wf m \<longleftrightarrow> distinct (map fst m)"

lemma um_find_Nil [simp, umap_simps]: "um_find [] k = None"
  by (simp add: um_find_def)

lemma um_find_put [simp, umap_simps]:
  "um_find (um_put k v m) k' = (if k' = k then Some v else um_find m k')"
  by (simp add: um_find_def um_put_def update_conv')

lemma um_find_erase [simp, umap_simps]:
  "um_find (um_erase k m) k' = (if k' = k then None else um_find m k')"
  by (simp add: um_find_def um_erase_def delete_conv')

lemma um_wf_Nil [simp]: "um_wf []"
  by (simp add: um_wf_def)

lemma um_wf_put [simp, intro]: "um_wf m \<Longrightarrow> um_wf (um_put k v m)"
  by (simp add: um_wf_def um_put_def distinct_update)

lemma um_wf_erase [simp, intro]: "um_wf m \<Longrightarrow> um_wf (um_erase k m)"
  by (simp add: um_wf_def um_erase_def distinct_delete)

lemma um_find_iff_mem: "um_wf m \<Longrightarrow> um_find m k = Some v \<longleftrightarrow> (k, v) \<in> set m"
  by (simp add: um_wf_def um_find_def)

lemma um_find_SomeD: "um_find m k = Some v \<Longrightarrow> (k, v) \<in> set m"
  by (simp add: um_find_def map_of_SomeD)

lemma um_find_None_iff: "um_find m k = None \<longleftrightarrow> k \<notin> fst ` set m"
  by (simp add: um_find_def map_of_eq_None_iff)

lemma um_put_new: "um_find m k = None \<Longrightarrow> um_put k v m = m @ [(k, v)]"
proof (induction m)
  case (Cons p m)
  then show ?case by (cases p) (auto simp: um_find_def um_put_def split: if_splits)
qed (simp add: um_put_def)

lemma um_put_same: "um_find m k = Some v \<Longrightarrow> um_put k v m = m"
  by (induction m) (auto simp: um_find_def um_put_def split: if_splits)

lemma um_size_put_new: "um_find m k = None \<Longrightarrow> um_size (um_put k v m) = Suc (um_size m)"
  by (simp add: um_put_new um_size_def)

lemma um_size_put_old: "um_find m k = Some w \<Longrightarrow> um_size (um_put k v m) = um_size m"
proof (induction m)
  case (Cons p m)
  then show ?case
    by (cases p) (auto simp: um_find_def um_put_def um_size_def split: if_splits)
qed simp

lemma um_erase_None: "um_find m k = None \<Longrightarrow> um_erase k m = m"
  by (simp add: um_find_def um_erase_def map_of_eq_None_iff delete_idem)

lemma um_put_fst_set: "fst ` set (um_put k v m) = insert k (fst ` set m)"
  by (simp add: um_put_def dom_update)

lemma um_erase_set: "set (um_erase k m) = {p \<in> set m. fst p \<noteq> k}"
  by (auto simp: um_erase_def AList.delete_eq)

lemma um_put_set: "um_wf m \<Longrightarrow> set (um_put k v m) = insert (k, v) {p \<in> set m. fst p \<noteq> k}"
proof (induction m)
  case (Cons p m)
  show ?case
  proof (cases p)
    case (Pair a b)
    with Cons.prems have "um_wf m" and na: "a \<notin> fst ` set m" by (auto simp: um_wf_def)
    then have IH: "set (um_put k v m) = insert (k, v) {p \<in> set m. fst p \<noteq> k}" using Cons.IH by simp
    show ?thesis
    proof (cases "a = k")
      case True
      with Pair na show ?thesis by (auto simp: um_put_def)
    next
      case False
      with Pair IH show ?thesis by (auto simp: um_put_def)
    qed
  qed
qed (simp add: um_put_def)

lemma um_size_card: "um_wf m \<Longrightarrow> um_size m = card (fst ` set m)"
  by (metis um_wf_def um_size_def distinct_card length_map list.set_map)

lemma um_wf_filter [simp, intro]: "um_wf m \<Longrightarrow> um_wf (filter P m)"
  by (auto simp: um_wf_def distinct_map intro: inj_on_subset)

lemma um_find_filter:
  "um_wf m \<Longrightarrow> um_find (filter P m) k =
     (case um_find m k of None \<Rightarrow> None | Some v \<Rightarrow> if P (k, v) then Some v else None)"
proof (induction m)
  case (Cons p m)
  show ?case
  proof (cases p)
    case (Pair a b)
    with Cons.prems have wf: "um_wf m" and na: "um_find m a = None"
      by (auto simp: um_wf_def um_find_None_iff)
    from wf have IH: "um_find (filter P m) k =
        (case um_find m k of None \<Rightarrow> None | Some v \<Rightarrow> if P (k, v) then Some v else None)"
      by (rule Cons.IH)
    show ?thesis
    proof (cases "a = k")
      case True
      with Pair na IH show ?thesis by (simp add: um_find_def)
    next
      case False
      with Pair IH show ?thesis by (simp add: um_find_def)
    qed
  qed
qed simp

text \<open>Two well-formed maps with the same lookups hold the same entries: the iteration order is
  all that can differ.\<close>

lemma um_eq_mset:
  assumes "um_wf m" "um_wf m'" "\<And>k. um_find m k = um_find m' k"
  shows "mset m = mset m'"
proof -
  have "set m = set m'"
    using assms by (auto simp: um_find_iff_mem [symmetric])
  moreover have "distinct m" "distinct m'"
    using assms(1,2) by (auto simp: um_wf_def distinct_map)
  ultimately show ?thesis by (simp add: set_eq_iff_mset_eq_distinct)
qed

section \<open>Machine integers and clocks\<close>

text \<open>
  Conversions between C++ integer types keep the low bits (two's complement). Time points and
  durations are signed 64-bit counts of nanoseconds.
\<close>

definition to_int32 :: "int \<Rightarrow> int" where
  "to_int32 n = signed_take_bit 31 n"

definition to_int64 :: "int \<Rightarrow> int" where
  "to_int64 n = signed_take_bit 63 n"

type_synonym time_ns = int

definition ns_per_second :: int where
  "ns_per_second = 1000000000"

definition ns_per_ms :: int where
  "ns_per_ms = 1000000"

text \<open>\<open>time_point + std::chrono::seconds\<close>: the seconds are converted to nanoseconds and added, both
  in 64 bits. (Signed overflow is undefined in C++; the model wraps, as the compiled code does.)\<close>

definition add_seconds :: "time_ns \<Rightarrow> int \<Rightarrow> time_ns" where
  "add_seconds now s = to_int64 (now + to_int64 (s * ns_per_second))"

lemma to_int64_id: "- (2 ^ 63) \<le> n \<Longrightarrow> n < 2 ^ 63 \<Longrightarrow> to_int64 n = n"
  by (simp add: to_int64_def signed_take_bit_int_eq_self)

lemma to_int32_id: "- (2 ^ 31) \<le> n \<Longrightarrow> n < 2 ^ 31 \<Longrightarrow> to_int32 n = n"
  by (simp add: to_int32_def signed_take_bit_int_eq_self)

lemma add_seconds_exact:
  assumes "0 \<le> s" "0 \<le> now" "now + s * ns_per_second < 2 ^ 63"
  shows "add_seconds now s = now + s * ns_per_second"
proof -
  have "0 \<le> s * ns_per_second" using assms(1) by (simp add: ns_per_second_def)
  then show ?thesis using assms by (simp add: add_seconds_def to_int64_id)
qed

section \<open>Exceptions\<close>

datatype exn = OutOfRange | InvalidArgument | LengthError | RuntimeError string

text \<open>An error as the services report it: the code and the message strings.\<close>

type_synonym api_error = "string \<times> string"

section \<open>Printing numbers\<close>

text \<open>\<open>operator<<\<close> of an unsigned value in base \<open>b\<close> (10, or 16 after \<open>std::hex\<close>).\<close>

definition digit_char :: "nat \<Rightarrow> char" where
  "digit_char d = ''0123456789abcdef'' ! d"

function show_base :: "nat \<Rightarrow> nat \<Rightarrow> string" where
  "show_base b n =
     (if b < 2 \<or> n < b then [digit_char n] else show_base b (n div b) @ [digit_char (n mod b)])"
  by pat_completeness auto
termination
  by (relation "measure snd") (auto intro: div_less_dividend)

declare show_base.simps [simp del]

definition show_nat :: "nat \<Rightarrow> string" where
  "show_nat n = show_base 10 n"

definition digit_value :: "char \<Rightarrow> nat" where
  "digit_value c =
     (if CHR ''0'' = c then 0 else if CHR ''1'' = c then 1 else if CHR ''2'' = c then 2
      else if CHR ''3'' = c then 3 else if CHR ''4'' = c then 4 else if CHR ''5'' = c then 5
      else if CHR ''6'' = c then 6 else if CHR ''7'' = c then 7 else if CHR ''8'' = c then 8
      else if CHR ''9'' = c then 9 else if CHR ''a'' = c then 10 else if CHR ''b'' = c then 11
      else if CHR ''c'' = c then 12 else if CHR ''d'' = c then 13 else if CHR ''e'' = c then 14
      else if CHR ''f'' = c then 15 else 16)"

definition read_base :: "nat \<Rightarrow> string \<Rightarrow> nat" where
  "read_base b s = foldl (\<lambda>n c. n * b + digit_value c) 0 s"

lemma digit_value_char: "d < 16 \<Longrightarrow> digit_value (digit_char d) = d"
proof -
  assume "d < 16"
  then have "d = 0 \<or> d = 1 \<or> d = 2 \<or> d = 3 \<or> d = 4 \<or> d = 5 \<or> d = 6 \<or> d = 7
    \<or> d = 8 \<or> d = 9 \<or> d = 10 \<or> d = 11 \<or> d = 12 \<or> d = 13 \<or> d = 14 \<or> d = 15" by arith
  then show ?thesis by (elim disjE) (simp_all add: digit_char_def digit_value_def)
qed

lemma read_show_base: "2 \<le> b \<Longrightarrow> b \<le> 16 \<Longrightarrow> read_base b (show_base b n) = n"
proof (induction b n rule: show_base.induct)
  case (1 b n)
  show ?case
  proof (cases "n < b")
    case True
    with "1.prems" show ?thesis
      by (simp add: show_base.simps [of b n] read_base_def digit_value_char)
  next
    case False
    with "1.prems" have "read_base b (show_base b (n div b)) = n div b"
      using "1.IH" by simp
    moreover have "n mod b < 16"
      using "1.prems" mod_less_divisor [of b n] by linarith
    ultimately show ?thesis
      using False "1.prems"
      by (simp add: show_base.simps [of b n] read_base_def digit_value_char)
  qed
qed

lemma show_nat_inject [simp]: "show_nat m = show_nat n \<longleftrightarrow> m = n"
proof
  assume "show_nat m = show_nat n"
  then have "read_base 10 (show_base 10 m) = read_base 10 (show_base 10 n)"
    by (simp only: show_nat_def)
  then show "m = n" by (simp only: read_show_base)
qed simp

lemma show_base_nonempty [simp]: "show_base b n \<noteq> []"
  by (subst show_base.simps) simp

text \<open>What is true of the sixteen digits is true of every printed number.\<close>

lemma digit_char_all:
  assumes "d < 16" "list_all P ''0123456789abcdef''"
  shows "P (digit_char d)"
proof -
  have "digit_char d \<in> set ''0123456789abcdef''" using assms(1) unfolding digit_char_def by (intro nth_mem) simp
  then show ?thesis using assms(2) by (auto simp: list_all_iff)
qed

lemma show_base_all:
  "2 \<le> b \<Longrightarrow> b \<le> 16 \<Longrightarrow> list_all P ''0123456789abcdef'' \<Longrightarrow> list_all P (show_base b n)"
proof (induction b n rule: show_base.induct)
  case (1 b n)
  have "n mod b < 16" using "1.prems" mod_less_divisor [of b n] by linarith
  then show ?case
    using 1 by (cases "n < b") (simp_all add: show_base.simps [of b n] digit_char_all [OF _ "1.prems"(3)])
qed

lemma show_base_no_dash: "2 \<le> b \<Longrightarrow> b \<le> 16 \<Longrightarrow> CHR ''-'' \<notin> set (show_base b n)"
  using show_base_all [of b "\<lambda>c. c \<noteq> CHR ''-''" n] by (auto simp: list_all_iff)

text \<open>ASCII strings are UTF-8.\<close>

definition ascii :: "string \<Rightarrow> bool" where
  "ascii s \<longleftrightarrow> list_all (\<lambda>c. of_char c < (128 :: nat)) s"

lemma ascii_append [simp]: "ascii (s @ t) \<longleftrightarrow> ascii s \<and> ascii t"
  by (simp add: ascii_def)

lemma ascii_show_base: "2 \<le> b \<Longrightarrow> b \<le> 16 \<Longrightarrow> ascii (show_base b n)"
  unfolding ascii_def by (rule show_base_all) simp_all

section \<open>Interfaces\<close>

text \<open>A component as a machine: operations on its state that keep an invariant. Every run of
  operations then keeps it.\<close>

locale machine =
  fixes step :: "'op \<Rightarrow> 's \<Rightarrow> 's"
    and inv :: "'s \<Rightarrow> bool"
  assumes step_keeps: "inv s \<Longrightarrow> inv (step c s)"
begin

lemma run_keeps: "inv s \<Longrightarrow> inv (fold step cs s)"
proof (induction cs arbitrary: s)
  case (Cons c cs)
  from Cons.prems have "inv (step c s)" by (rule step_keeps)
  then show ?case using Cons.IH by simp
qed simp

lemma run_prefix_keeps: "inv s \<Longrightarrow> inv (fold step (take n cs) s)"
  by (rule run_keeps)

end

text \<open>Operations with an answer: a run collects the answers. A machine refines an abstract one when, step by
  step, the answers agree and the abstraction of the new state is what the abstract step makes of the
  abstraction of the old one.\<close>

fun run_answers :: "('op \<Rightarrow> 's \<Rightarrow> 'o \<times> 's) \<Rightarrow> 'op list \<Rightarrow> 's \<Rightarrow> 'o list \<times> 's" where
  "run_answers step [] s = ([], s)"
| "run_answers step (c # cs) s =
     (let (o1, s1) = step c s; (os, s2) = run_answers step cs s1 in (o1 # os, s2))"

locale refines =
  fixes step :: "'op \<Rightarrow> 's \<Rightarrow> 'o \<times> 's"
    and spec :: "'op \<Rightarrow> 'a \<Rightarrow> 'o \<times> 'a"
    and abstr :: "'s \<Rightarrow> 'a"
    and inv :: "'s \<Rightarrow> bool"
  assumes step_refines: "inv s \<Longrightarrow> spec c (abstr s) = (fst (step c s), abstr (snd (step c s)))"
    and step_keeps: "inv s \<Longrightarrow> inv (snd (step c s))"
begin

lemma run_refines:
  "inv s \<Longrightarrow> run_answers spec cs (abstr s) = (fst (run_answers step cs s), abstr (snd (run_answers step cs s)))"
proof (induction cs arbitrary: s)
  case (Cons c cs)
  then show ?case
    using Cons.IH [OF step_keeps [OF Cons.prems], of c] step_refines [OF Cons.prems, of c]
    by (simp add: split_beta Let_def)
qed simp

end

text \<open>A table of bearer tokens: what a holder of tokens may rely on. \<open>AuthService\<close> (login tokens)
  and \<open>ReconnectService\<close> (resume tokens) both provide it.\<close>

locale token_table =
  fixes lookup :: "'st \<Rightarrow> string \<Rightarrow> 'r option"
    and store :: "string \<Rightarrow> 'r \<Rightarrow> 'st \<Rightarrow> 'st"
    and revoke :: "string \<Rightarrow> 'st \<Rightarrow> 'st"
  assumes lookup_store: "lookup (store t r st) t' = (if t' = t then Some r else lookup st t')"
    and lookup_revoke: "lookup (revoke t st) t' = (if t' = t then None else lookup st t')"
begin

lemma rotate_new: "lookup (store new r (revoke old st)) new = Some r"
  by (simp add: lookup_store)

lemma rotate_old: "old \<noteq> new \<Longrightarrow> lookup (store new r (revoke old st)) old = None"
  by (simp add: lookup_store lookup_revoke)

lemma rotate_other:
  "t \<noteq> old \<Longrightarrow> t \<noteq> new \<Longrightarrow> lookup (store new r (revoke old st)) t = lookup st t"
  by (simp add: lookup_store lookup_revoke)

lemma revoke_store: "t \<noteq> t' \<Longrightarrow>
    lookup (revoke t (store t' r st)) x = lookup (store t' r (revoke t st)) x"
  by (simp add: lookup_store lookup_revoke)

end

end
