(* ===== verification/RateLimiter.thy ===== *)
theory RateLimiter
  imports Prelude
begin

text \<open>
  \<open>RateLimiter\<close> of \<open>auth.cpp\<close>: one fixed-window counter per key (the client's IP address). The
  model follows \<open>Allow\<close> statement by statement; the theorem bounds the accepted calls of a key in
  every interval as long as a window.
\<close>

record Bucket =
  bucket_count :: nat
  window_start :: time_ns

record RateLimiter =
  buckets :: "(string, Bucket) umap"
  max_attempts :: nat
  window :: time_ns

definition make_RateLimiter :: "nat \<Rightarrow> time_ns \<Rightarrow> RateLimiter" where
  "make_RateLimiter attempts w = \<lparr>buckets = [], max_attempts = attempts, window = w\<rparr>"

text \<open>\<open>buckets_[key]\<close> inserts an empty bucket; a window start of 0 means "never used".\<close>

definition bucket_of :: "RateLimiter \<Rightarrow> string \<Rightarrow> Bucket" where
  "bucket_of rl k =
     (case um_find (buckets rl) k of None \<Rightarrow> \<lparr>bucket_count = 0, window_start = 0\<rparr> | Some b \<Rightarrow> b)"

text \<open>The body of \<open>Allow\<close> on the bucket of the key.\<close>

definition bucket_allow :: "nat \<Rightarrow> time_ns \<Rightarrow> time_ns \<Rightarrow> Bucket \<Rightarrow> bool \<times> Bucket" where
  "bucket_allow attempts w now b =
     (let b1 = (if window_start b = 0 then b\<lparr>window_start := now\<rparr> else b);
          elapsed = now - window_start b1;
          b2 = (if elapsed > w then b1\<lparr>window_start := now, bucket_count := 0\<rparr> else b1)
      in if bucket_count b2 \<ge> attempts then (False, b2)
         else (True, b2\<lparr>bucket_count := bucket_count b2 + 1\<rparr>))"

definition Allow :: "string \<Rightarrow> time_ns \<Rightarrow> RateLimiter \<Rightarrow> bool \<times> RateLimiter" where
  "Allow k now rl =
     (let (ok, b) = bucket_allow (max_attempts rl) (window rl) now (bucket_of rl k)
      in (ok, rl\<lparr>buckets := um_put k b (buckets rl)\<rparr>))"

section \<open>Frame\<close>

lemma Allow_config [simp]:
  "max_attempts (snd (Allow k now rl)) = max_attempts rl"
  "window (snd (Allow k now rl)) = window rl"
  by (simp_all add: Allow_def split_beta)

lemma Allow_other_key: "k' \<noteq> k \<Longrightarrow> bucket_of (snd (Allow k now rl)) k' = bucket_of rl k'"
  by (simp add: Allow_def bucket_of_def split_beta)

lemma bucket_of_Allow:
  "bucket_of (snd (Allow k now rl)) k =
     snd (bucket_allow (max_attempts rl) (window rl) now (bucket_of rl k))"
  by (simp add: Allow_def split_beta bucket_of_def [of "rl\<lparr>buckets := _\<rparr>"])

lemma fst_Allow:
  "fst (Allow k now rl) = fst (bucket_allow (max_attempts rl) (window rl) now (bucket_of rl k))"
  by (simp add: Allow_def split_beta)

section \<open>Accepted calls\<close>

text \<open>The calls of one key that are accepted, as a function of the times of its calls; calls for
  other keys do not touch the bucket.\<close>

fun accepted :: "string \<Rightarrow> (string \<times> time_ns) list \<Rightarrow> RateLimiter \<Rightarrow> time_ns list" where
  "accepted k [] rl = []"
| "accepted k ((k', t) # calls) rl =
     (let (ok, rl') = Allow k' t rl
      in if k' = k \<and> ok then t # accepted k calls rl' else accepted k calls rl')"

fun bucket_accepted :: "nat \<Rightarrow> time_ns \<Rightarrow> time_ns list \<Rightarrow> Bucket \<Rightarrow> time_ns list" where
  "bucket_accepted m w [] b = []"
| "bucket_accepted m w (t # ts) b =
     (let (ok, b') = bucket_allow m w t b
      in if ok then t # bucket_accepted m w ts b' else bucket_accepted m w ts b')"

lemma accepted_bucket:
  "accepted k calls rl =
     bucket_accepted (max_attempts rl) (window rl) (map snd (filter (\<lambda>c. fst c = k) calls))
       (bucket_of rl k)"
proof (induction calls arbitrary: rl)
  case (Cons c calls)
  show ?case
  proof (cases c)
    case (Pair k' t)
    show ?thesis
    proof (cases "k' = k")
      case True
      with Pair show ?thesis
        by (simp add: split_beta Cons.IH bucket_of_Allow fst_Allow)
    next
      case False
      then have "bucket_of (snd (Allow k' t rl)) k = bucket_of rl k"
        by (intro Allow_other_key) simp
      with Pair False show ?thesis by (simp add: split_beta Cons.IH)
    qed
  qed
qed simp

definition calls_in :: "time_ns \<Rightarrow> time_ns \<Rightarrow> time_ns list \<Rightarrow> nat" where
  "calls_in a w ts = length (filter (\<lambda>t. a \<le> t \<and> t \<le> a + w) ts)"

lemma calls_in_simps [simp]:
  "calls_in a w [] = 0"
  "calls_in a w (t # ts) = (if a \<le> t \<and> t \<le> a + w then 1 else 0) + calls_in a w ts"
  by (simp_all add: calls_in_def)

lemma bucket_accepted_subset: "set (bucket_accepted m w ts b) \<subseteq> set ts"
  by (induction ts arbitrary: b) (auto simp: Let_def split_beta)

lemma calls_in_beyond:
  assumes "\<forall>t \<in> set ts. a + w < t"
  shows "calls_in a w (bucket_accepted m v ts b) = 0"
proof -
  have "\<forall>t \<in> set (bucket_accepted m v ts b). a + w < t"
    using bucket_accepted_subset [of m v ts b] assms by blast
  then show ?thesis by (force simp: calls_in_def filter_empty_conv)
qed

text \<open>The bound for a bucket in the middle of its life: what is left of its window, if that meets
  the interval, and one full window that may start inside the interval.\<close>

definition window_bound :: "nat \<Rightarrow> time_ns \<Rightarrow> time_ns \<Rightarrow> Bucket \<Rightarrow> nat" where
  "window_bound m w a b =
     (if a \<le> window_start b then m - bucket_count b
      else if a \<le> window_start b + w then (m - bucket_count b) + m else 2 * m)"

lemma bucket_accepted_bound:
  assumes "0 \<le> w" "sorted ts" "\<And>t. t \<in> set ts \<Longrightarrow> window_start b \<le> t"
    and "0 < window_start b" "bucket_count b \<le> m" "window_start b \<le> a + w"
  shows "calls_in a w (bucket_accepted m w ts b) \<le> window_bound m w a b"
  using assms(2-6)
proof (induction ts arbitrary: b)
  case (Cons t ts)
  let ?b' = "snd (bucket_allow m w t b)"
  from Cons.prems have st: "sorted ts" "\<And>u. u \<in> set ts \<Longrightarrow> t \<le> u" and bt: "window_start b \<le> t"
    by auto
  have ws': "window_start ?b' = (if t - window_start b > w then t else window_start b)"
    using Cons.prems(3) by (simp add: bucket_allow_def Let_def)
  have cnt': "bucket_count ?b' \<le> m"
    using Cons.prems(4) by (simp add: bucket_allow_def Let_def)
  have later: "\<And>u. u \<in> set ts \<Longrightarrow> window_start ?b' \<le> u"
    using st(2) bt by (force simp: ws')
  show ?case
  proof (cases "a + w < t")
    case True
    moreover have "\<forall>u \<in> set ts. t \<le> u" using st(2) by blast
    ultimately have "\<forall>u \<in> set (t # ts). a + w < u" by auto
    then show ?thesis by (subst calls_in_beyond) auto
  next
    case False
    have "window_start ?b' \<le> a + w" using False Cons.prems(5) by (simp add: ws')
    then have IH: "calls_in a w (bucket_accepted m w ts ?b') \<le> window_bound m w a ?b'"
      using Cons.IH [of ?b'] st(1) later cnt' Cons.prems(3) bt by (simp add: ws')
    show ?thesis
    proof (cases "t - window_start b > w")
      case rolled: True
      then show ?thesis
        using IH False Cons.prems assms(1)
        by (auto simp: bucket_allow_def window_bound_def Let_def split: if_splits)
    next
      case inside: False
      then show ?thesis
        using IH False Cons.prems assms(1)
        by (auto simp: bucket_allow_def window_bound_def Let_def split: if_splits)
    qed
  qed
qed simp

lemma bucket_accepted_fresh_bound:
  assumes "0 \<le> w" "sorted ts" "\<And>t. t \<in> set ts \<Longrightarrow> 0 < t"
  shows "calls_in a w (bucket_accepted m w ts \<lparr>bucket_count = 0, window_start = 0\<rparr>) \<le> 2 * m"
proof (cases ts)
  case (Cons t us)
  let ?b = "\<lparr>bucket_count = 0, window_start = t\<rparr>"
  have "bucket_allow m w t \<lparr>bucket_count = 0, window_start = 0\<rparr> = bucket_allow m w t ?b"
    using assms(1,3) Cons by (simp add: bucket_allow_def)
  then have eq: "bucket_accepted m w ts \<lparr>bucket_count = 0, window_start = 0\<rparr> = bucket_accepted m w ts ?b"
    using Cons by simp
  show ?thesis
  proof (cases "a + w < t")
    case True
    then have "\<forall>u \<in> set ts. a + w < u" using assms(2) Cons by auto
    then show ?thesis by (simp add: eq calls_in_beyond)
  next
    case False
    then have "calls_in a w (bucket_accepted m w ts ?b) \<le> window_bound m w a ?b"
      using assms Cons by (intro bucket_accepted_bound) auto
    then show ?thesis by (simp add: eq window_bound_def split: if_splits)
  qed
qed simp

section \<open>Properties\<close>

text \<open>C21: Whatever the calls of all keys, as long as the clock does not run backwards: in any closed
  interval of the length of the window, at most twice \<open>max_attempts\<close> login attempts of one key are
  let through (the fixed windows may meet in the interval).\<close>

theorem login_burst_bound:
  assumes "0 \<le> w" "sorted (map snd calls)" "\<forall>c \<in> set calls. 0 < snd c"
  shows "calls_in a w (accepted k calls (make_RateLimiter m w)) \<le> 2 * m"
proof -
  let ?ts = "map snd (filter (\<lambda>c. fst c = k) calls)"
  have "bucket_of (make_RateLimiter m w) k = \<lparr>bucket_count = 0, window_start = 0\<rparr>"
    by (simp add: bucket_of_def make_RateLimiter_def)
  moreover have "sorted ?ts" using assms(2) by (induction calls) auto
  moreover have "\<And>t. t \<in> set ?ts \<Longrightarrow> 0 < t" using assms(3) by auto
  ultimately show ?thesis
    using bucket_accepted_fresh_bound [OF assms(1), of ?ts a m]
    by (simp add: accepted_bucket) (simp add: make_RateLimiter_def)
qed

theorem login_burst_bound_witness:
  "calls_in 10 5 (accepted ''ip'' [(''ip'', 4), (''ip'', 10), (''x'', 11), (''ip'', 12), (''ip'', 16)]
     (make_RateLimiter 1 5)) \<le> 2 * 1"
  by (rule login_burst_bound) simp_all

end
