(* ===== verification/Hex.thy ===== *)
theory Hex
  imports Prelude
begin

text \<open>
  The hexadecimal coding of random bytes and password hashes in \<open>auth.cpp\<close> and
  \<open>reconnect.cpp\<close>: \<open>BytesToHex\<close> and \<open>HexToBytes\<close>. The lemmas show that a byte prints as exactly two
  lower-case digits, that decoding inverts encoding, and that the encoding is injective.
\<close>

type_synonym byte = "8 word"

section \<open>Encoding\<close>

text \<open>\<open>oss << std::hex << std::setw(2) << std::setfill('0') << n\<close>: the digits in base 16, padded on
  the left with zeros to two columns.\<close>

definition hex_setw2 :: "nat \<Rightarrow> string" where
  "hex_setw2 n = (let s = show_base 16 n in replicate (2 - length s) CHR ''0'' @ s)"

fun BytesToHex :: "byte list \<Rightarrow> string" where
  "BytesToHex [] = []"
| "BytesToHex (b # data) = hex_setw2 (unat b) @ BytesToHex data"

section \<open>Decoding\<close>

definition is_hex_digit :: "char \<Rightarrow> bool" where
  "is_hex_digit c \<longleftrightarrow>
     c \<in> set ''0123456789abcdefABCDEF''"

definition hex_digit_value :: "char \<Rightarrow> nat" where
  "hex_digit_value c =
     (if CHR ''A'' = c then 10 else if CHR ''B'' = c then 11 else if CHR ''C'' = c then 12
      else if CHR ''D'' = c then 13 else if CHR ''E'' = c then 14 else if CHR ''F'' = c then 15
      else digit_value c)"

definition is_stream_space :: "char \<Rightarrow> bool" where
  "is_stream_space c \<longleftrightarrow> c \<in> {CHR '' '', CHR 0x09, CHR 0x0A, CHR 0x0B, CHR 0x0C, CHR 0x0D}"

text \<open>
  \<open>iss >> std::hex >> byte\<close> on a stream of two characters, into an \<open>unsigned int\<close>: white space is
  skipped, a sign is allowed (a minus negates modulo \<open>2^32\<close>), reading stops at the first character
  that is not a digit, and a prefix \<open>0x\<close> with no digit after it fails. \<open>None\<close> is \<open>iss.fail()\<close>.
\<close>

definition stream_hex2 :: "char \<Rightarrow> char \<Rightarrow> nat option" where
  "stream_hex2 c d =
     (if is_stream_space c then (if is_hex_digit d then Some (hex_digit_value d) else None)
      else if CHR ''+'' = c then (if is_hex_digit d then Some (hex_digit_value d) else None)
      else if CHR ''-'' = c
        then (if is_hex_digit d then Some ((2 ^ 32 - hex_digit_value d) mod 2 ^ 32) else None)
      else if CHR ''0'' = c \<and> (CHR ''x'' = d \<or> CHR ''X'' = d) then None
      else if \<not> is_hex_digit c then None
      else if is_hex_digit d then Some (16 * hex_digit_value c + hex_digit_value d)
      else Some (hex_digit_value c))"

fun hex_pairs :: "string \<Rightarrow> byte list option" where
  "hex_pairs [] = Some []"
| "hex_pairs [c] = None"
| "hex_pairs (c # d # s) =
     (case stream_hex2 c d of None \<Rightarrow> None
      | Some n \<Rightarrow> map_option ((#) (word_of_nat n)) (hex_pairs s))"

definition HexToBytes :: "string \<Rightarrow> byte list option" where
  "HexToBytes hex = (if length hex mod 2 \<noteq> 0 then None else hex_pairs hex)"

section \<open>Round trip\<close>

lemma hex_setw2_byte:
  assumes "n < 256"
  shows "hex_setw2 n = [digit_char (n div 16), digit_char (n mod 16)]"
proof (cases "n < 16")
  case True
  then show ?thesis by (simp add: hex_setw2_def show_base.simps [of 16 n] digit_char_def)
next
  case False
  from assms have "n div 16 < 16" by linarith
  with False show ?thesis
    by (simp add: hex_setw2_def show_base.simps [of 16 n] show_base.simps [of 16 "n div 16"])
qed

lemma nibble_cases:
  assumes "d < 16"
  obtains "d = 0" | "d = 1" | "d = 2" | "d = 3" | "d = 4" | "d = 5" | "d = 6" | "d = 7"
    | "d = 8" | "d = 9" | "d = 10" | "d = 11" | "d = 12" | "d = 13" | "d = 14" | "d = (15::nat)"
proof -
  from assms have "d = 0 \<or> d = 1 \<or> d = 2 \<or> d = 3 \<or> d = 4 \<or> d = 5 \<or> d = 6 \<or> d = 7
    \<or> d = 8 \<or> d = 9 \<or> d = 10 \<or> d = 11 \<or> d = 12 \<or> d = 13 \<or> d = 14 \<or> d = 15" by arith
  with that show thesis by blast
qed

lemma digit_char_hex: "d < 16 \<Longrightarrow> is_hex_digit (digit_char d)"
  by (elim nibble_cases) (simp_all add: digit_char_def is_hex_digit_def)

lemma digit_char_value: "d < 16 \<Longrightarrow> hex_digit_value (digit_char d) = d"
  by (elim nibble_cases) (simp_all add: digit_char_def hex_digit_value_def digit_value_def)

lemma digit_char_plain:
  "d < 16 \<Longrightarrow> \<not> is_stream_space (digit_char d) \<and> CHR ''+'' \<noteq> digit_char d
     \<and> CHR ''-'' \<noteq> digit_char d \<and> CHR ''x'' \<noteq> digit_char d \<and> CHR ''X'' \<noteq> digit_char d"
  by (elim nibble_cases) (simp_all add: digit_char_def is_stream_space_def)

lemma stream_hex2_digits:
  assumes "a < 16" "b < 16"
  shows "stream_hex2 (digit_char a) (digit_char b) = Some (16 * a + b)"
  using digit_char_plain [OF assms(1)] digit_char_plain [OF assms(2)]
    digit_char_hex [OF assms(1)] digit_char_hex [OF assms(2)]
    digit_char_value [OF assms(1)] digit_char_value [OF assms(2)]
  by (simp add: stream_hex2_def)

lemma byte_lt: "unat (b :: byte) < 256"
proof -
  have "unat b < 2 ^ LENGTH(8)" by (rule unsigned_less)
  then show ?thesis by simp
qed

lemma BytesToHex_Cons_digits:
  "BytesToHex (b # bs) =
     digit_char (unat b div 16) # digit_char (unat b mod 16) # BytesToHex bs"
  by (simp add: hex_setw2_byte byte_lt)

lemma length_BytesToHex [simp]: "length (BytesToHex bs) = 2 * length bs"
  by (induction bs) (simp_all add: hex_setw2_byte byte_lt)

lemma hex_pairs_BytesToHex: "hex_pairs (BytesToHex bs) = Some bs"
proof (induction bs)
  case (Cons b bs)
  have "unat b div 16 < 16" using byte_lt [of b] by linarith
  then have "stream_hex2 (digit_char (unat b div 16)) (digit_char (unat b mod 16)) = Some (unat b)"
    by (simp add: stream_hex2_digits)
  then show ?case using Cons
    by (simp only: BytesToHex_Cons_digits hex_pairs.simps) simp
qed simp

lemma HexToBytes_BytesToHex [simp]: "HexToBytes (BytesToHex bs) = Some bs"
  by (simp add: HexToBytes_def hex_pairs_BytesToHex)

lemma BytesToHex_inject [simp]: "BytesToHex bs = BytesToHex bs' \<longleftrightarrow> bs = bs'"
proof
  assume "BytesToHex bs = BytesToHex bs'"
  then have "HexToBytes (BytesToHex bs) = HexToBytes (BytesToHex bs')" by (rule arg_cong)
  then show "bs = bs'" by (simp only: HexToBytes_BytesToHex option.inject)
qed simp

end
