(* ===== verification/Messages.thy ===== *)
theory Messages
  imports Prelude
begin

text \<open>
  The Korean error messages of the server, byte for byte: a literal of the source is UTF-8, and the
  length of a message in bytes counts against the send queue of a connection. Each is written as
  its Unicode code points.
\<close>

definition utf8_char :: "nat \<Rightarrow> string" where
  "utf8_char c =
     (if c < 0x80 then [char_of c]
      else if c < 0x800 then [char_of (0xC0 + c div 64), char_of (0x80 + c mod 64)]
      else [char_of (0xE0 + c div 4096), char_of (0x80 + c div 64 mod 64), char_of (0x80 + c mod 64)])"

definition utf8 :: "nat list \<Rightarrow> string" where
  "utf8 cs = concat (map utf8_char cs)"

section \<open>\<^verbatim>\<open>auth.cpp\<close>\<close>

definition msg_credentials_required :: string where \<comment> \<open>username and password are required\<close>
  "msg_credentials_required = utf8 [
     0x75, 0x73, 0x65, 0x72, 0x6E, 0x61, 0x6D, 0x65, 0xACFC, 0x20, 0x70, 0x61, 0x73,
     0x73, 0x77, 0x6F, 0x72, 0x64, 0xAC00, 0x20, 0xD544, 0xC694, 0xD569, 0xB2C8,
     0xB2E4]"

definition msg_duplicate_user :: string where \<comment> \<open>the user name already exists\<close>
  "msg_duplicate_user = utf8 [
     0xC774, 0xBBF8, 0x20, 0xC874, 0xC7AC, 0xD558, 0xB294, 0x20, 0xC0AC, 0xC6A9,
     0xC790, 0xBA85, 0xC785, 0xB2C8, 0xB2E4]"

definition msg_rate_limited :: string where \<comment> \<open>the login attempt limit was exceeded\<close>
  "msg_rate_limited = utf8 [
     0xB85C, 0xADF8, 0xC778, 0x20, 0xC2DC, 0xB3C4, 0x20, 0xC81C, 0xD55C, 0xC744, 0x20,
     0xCD08, 0xACFC, 0xD588, 0xC2B5, 0xB2C8, 0xB2E4]"

definition msg_bad_credentials :: string where \<comment> \<open>the credentials are not correct\<close>
  "msg_bad_credentials = utf8 [
     0xC790, 0xACA9, 0x20, 0xC99D, 0xBA85, 0xC774, 0x20, 0xC62C, 0xBC14, 0xB974,
     0xC9C0, 0x20, 0xC54A, 0xC2B5, 0xB2C8, 0xB2E4]"

section \<open>\<^verbatim>\<open>match_queue.cpp\<close>\<close>

definition msg_queue_duplicate :: string where \<comment> \<open>already in the queue or in a session\<close>
  "msg_queue_duplicate = utf8 [
     0xC774, 0xBBF8, 0x20, 0xD050, 0xC5D0, 0x20, 0xC788, 0xAC70, 0xB098, 0x20, 0xC138,
     0xC158, 0xC5D0, 0x20, 0xCC38, 0xC5EC, 0x20, 0xC911, 0xC785, 0xB2C8, 0xB2E4]"

definition msg_queue_not_found :: string where \<comment> \<open>not in the queue\<close>
  "msg_queue_not_found = utf8 [
     0xB300, 0xAE30, 0xC5F4, 0xC5D0, 0x20, 0xC874, 0xC7AC, 0xD558, 0xC9C0, 0x20,
     0xC54A, 0xC2B5, 0xB2C8, 0xB2E4]"

definition msg_queue_timeout :: string where \<comment> \<open>the match timed out\<close>
  "msg_queue_timeout = utf8 [
     0xB9E4, 0xCE6D, 0x20, 0xD0C0, 0xC784, 0xC544, 0xC6C3, 0xC774, 0x20, 0xBC1C,
     0xC0DD, 0xD588, 0xC2B5, 0xB2C8, 0xB2E4]"

section \<open>\<^verbatim>\<open>session_manager.cpp\<close>\<close>

definition msg_session_not_found :: string where \<comment> \<open>the session was not found\<close>
  "msg_session_not_found = utf8 [
     0xC138, 0xC158, 0xC744, 0x20, 0xCC3E, 0xC744, 0x20, 0xC218, 0x20, 0xC5C6, 0xC2B5,
     0xB2C8, 0xB2E4]"

definition msg_session_closed :: string where \<comment> \<open>the session has already ended\<close>
  "msg_session_closed = utf8 [
     0xC138, 0xC158, 0xC774, 0x20, 0xC774, 0xBBF8, 0x20, 0xC885, 0xB8CC, 0xB418,
     0xC5C8, 0xC2B5, 0xB2C8, 0xB2E4]"

definition msg_not_participant :: string where \<comment> \<open>not a participant of the session\<close>
  "msg_not_participant = utf8 [
     0xC138, 0xC158, 0x20, 0xCC38, 0xAC00, 0xC790, 0xAC00, 0x20, 0xC544, 0xB2D9,
     0xB2C8, 0xB2E4]"

section \<open>\<^verbatim>\<open>websocket_session.cpp\<close>\<close>

definition msg_bad_format :: string where \<comment> \<open>malformed message\<close>
  "msg_bad_format = utf8 [
     0xC798, 0xBABB, 0xB41C, 0x20, 0xBA54, 0xC2DC, 0xC9C0, 0x20, 0xD615, 0xC2DD]"

definition msg_payload_missing :: string where \<comment> \<open>the payload is missing\<close>
  "msg_payload_missing = utf8 [
     0x70, 0x61, 0x79, 0x6C, 0x6F, 0x61, 0x64, 0xAC00, 0x20, 0xB204, 0xB77D, 0xB418,
     0xC5C8, 0xC2B5, 0xB2C8, 0xB2E4]"

definition msg_message_required :: string where \<comment> \<open>the message field is required\<close>
  "msg_message_required = utf8 [
     0x6D, 0x65, 0x73, 0x73, 0x61, 0x67, 0x65, 0x20, 0xD544, 0xB4DC, 0xAC00, 0x20,
     0xD544, 0xC694, 0xD569, 0xB2C8, 0xB2E4]"

definition msg_resume_token_required :: string where \<comment> \<open>resumeToken is required\<close>
  "msg_resume_token_required = utf8 [
     0x72, 0x65, 0x73, 0x75, 0x6D, 0x65, 0x54, 0x6F, 0x6B, 0x65, 0x6E, 0xC774, 0x20,
     0xD544, 0xC694, 0xD569, 0xB2C8, 0xB2E4]"

definition msg_unknown_event :: string where \<comment> \<open>unknown event\<close>
  "msg_unknown_event = utf8 [
     0xC54C, 0x20, 0xC218, 0x20, 0xC5C6, 0xB294, 0x20, 0xC774, 0xBCA4, 0xD2B8]"

definition msg_unknown_type :: string where \<comment> \<open>unknown message type\<close>
  "msg_unknown_type = utf8 [
     0xC54C, 0x20, 0xC218, 0x20, 0xC5C6, 0xB294, 0x20, 0xBA54, 0xC2DC, 0xC9C0, 0x20,
     0xC720, 0xD615]"

definition msg_json_parse :: string where \<comment> \<open>JSON parse error\<close>
  "msg_json_parse = utf8 [
     0x4A, 0x53, 0x4F, 0x4E, 0x20, 0xD30C, 0xC2F1, 0x20, 0xC624, 0xB958]"

definition msg_resume_token_invalid :: string where \<comment> \<open>the previous resumeToken is not valid\<close>
  "msg_resume_token_invalid = utf8 [
     0xC774, 0xC804, 0x20, 0x72, 0x65, 0x73, 0x75, 0x6D, 0x65, 0x54, 0x6F, 0x6B, 0x65,
     0x6E, 0xC774, 0x20, 0xC720, 0xD6A8, 0xD558, 0xC9C0, 0x20, 0xC54A, 0xC2B5, 0xB2C8,
     0xB2E4]"

definition msg_fields_missing :: string where \<comment> \<open>required fields are missing\<close>
  "msg_fields_missing = utf8 [
     0xD544, 0xC218, 0x20, 0xD544, 0xB4DC, 0xAC00, 0x20, 0xC5C6, 0xC2B5, 0xB2C8,
     0xB2E4]"

definition msg_fields_malformed :: string where \<comment> \<open>a field has the wrong type\<close>
  "msg_fields_malformed = utf8 [
     0xD544, 0xB4DC, 0x20, 0xD615, 0xC2DD, 0xC774, 0x20, 0xC62C, 0xBC14, 0xB974,
     0xC9C0, 0x20, 0xC54A, 0xC2B5, 0xB2C8, 0xB2E4]"

section \<open>\<^verbatim>\<open>http_session.cpp\<close>\<close>

definition msg_ops_token :: string where \<comment> \<open>the operator token is not correct\<close>
  "msg_ops_token = utf8 [
     0xC6B4, 0xC601, 0x20, 0xD1A0, 0xD070, 0xC774, 0x20, 0xC62C, 0xBC14, 0xB974,
     0xC9C0, 0x20, 0xC54A, 0xC2B5, 0xB2C8, 0xB2E4]"

definition msg_json_body :: string where \<comment> \<open>the JSON body is not correct\<close>
  "msg_json_body = utf8 [
     0x4A, 0x53, 0x4F, 0x4E, 0x20, 0xBCF8, 0xBB38, 0xC774, 0x20, 0xC62C, 0xBC14,
     0xB974, 0xC9C0, 0x20, 0xC54A, 0xC2B5, 0xB2C8, 0xB2E4]"

definition msg_auth_required :: string where \<comment> \<open>authentication is required\<close>
  "msg_auth_required = utf8 [
     0xC778, 0xC99D, 0xC774, 0x20, 0xD544, 0xC694, 0xD569, 0xB2C8, 0xB2E4]"

definition msg_mode_timeout :: string where \<comment> \<open>mode or timeoutSeconds is not correct\<close>
  "msg_mode_timeout = utf8 [
     0x6D, 0x6F, 0x64, 0x65, 0x20, 0xB610, 0xB294, 0x20, 0x74, 0x69, 0x6D, 0x65, 0x6F,
     0x75, 0x74, 0x53, 0x65, 0x63, 0x6F, 0x6E, 0x64, 0x73, 0xAC00, 0x20, 0xC62C,
     0xBC14, 0xB974, 0xC9C0, 0x20, 0xC54A, 0xC2B5, 0xB2C8, 0xB2E4]"

definition msg_leaderboard_range :: string where \<comment> \<open>page or size is out of range\<close>
  "msg_leaderboard_range = utf8 [
     0x70, 0x61, 0x67, 0x65, 0x20, 0xB610, 0xB294, 0x20, 0x73, 0x69, 0x7A, 0x65, 0x20,
     0xAC12, 0xC774, 0x20, 0xD5C8, 0xC6A9, 0x20, 0xBC94, 0xC704, 0xB97C, 0x20, 0xBC97,
     0xC5B4, 0xB0AC, 0xC2B5, 0xB2C8, 0xB2E4]"

definition msg_not_found :: string where \<comment> \<open>unsupported path\<close>
  "msg_not_found = utf8 [
     0xC9C0, 0xC6D0, 0xB418, 0xC9C0, 0x20, 0xC54A, 0xB294, 0x20, 0xACBD, 0xB85C,
     0xC785, 0xB2C8, 0xB2E4]"

definition msg_ws_auth_required :: string where \<comment> \<open>a WebSocket upgrade requires authentication\<close>
  "msg_ws_auth_required = utf8 [
     0x57, 0x53, 0x20, 0xC5C5, 0xADF8, 0xB808, 0xC774, 0xB4DC, 0xC5D0, 0xB294, 0x20,
     0xC778, 0xC99D, 0xC774, 0x20, 0xD544, 0xC694, 0xD569, 0xB2C8, 0xB2E4]"

end
