(* ===== verification/Auth.thy ===== *)
theory Auth
  imports RateLimiter Hex Messages
begin

text \<open>
  \<open>AuthService\<close> of \<open>auth.cpp\<close>: users, passwords, login tokens. OpenSSL is outside the repository:
  \<open>PKCS5_PBKDF2_HMAC\<close> is the parameter \<open>pbkdf\<close> (password, salt, iterations, output length), and the
  bytes that \<open>RAND_bytes\<close> draws are an argument of the operation that draws them. The clock reading
  of an operation is the argument \<open>now\<close>. The lemmas: every operation keeps \<open>auth_inv\<close>, users are
  never changed or removed, and a token that was revoked stays unknown until it is drawn again.
\<close>

record AuthUser =
  au_user_id :: int
  au_username :: string

record AuthSession =
  as_token :: string
  as_user :: AuthUser
  as_expires_at :: time_ns

record AuthConfig =
  token_ttl :: int
  login_window :: int
  login_max_attempts :: nat

record UserRecord =
  ur_id :: int
  ur_username :: string
  ur_salt_hex :: string
  ur_hash_hex :: string

record AuthService =
  auth_config :: AuthConfig
  rate_limiter :: RateLimiter
  next_user_id :: int
  users :: "(string, UserRecord) umap"
  auth_sessions :: "(string, AuthSession) umap"

type_synonym pbkdf2 = "string \<Rightarrow> byte list \<Rightarrow> nat \<Rightarrow> nat \<Rightarrow> byte list"

definition make_AuthService :: "AuthConfig \<Rightarrow> AuthService" where
  "make_AuthService config =
     \<lparr>auth_config = config,
      rate_limiter = make_RateLimiter (login_max_attempts config)
        (to_int64 (login_window config * ns_per_second)),
      next_user_id = 1, users = [], auth_sessions = []\<rparr>"

section \<open>Passwords and random tokens\<close>

text \<open>The buffer argument holds what \<open>RAND_bytes\<close> wrote into it.\<close>

definition RandomHex :: "byte list \<Rightarrow> string" where
  "RandomHex buffer = BytesToHex buffer"

definition GenerateSalt :: "byte list \<Rightarrow> string" where
  "GenerateSalt rnd = RandomHex (take 16 rnd)"

definition GenerateToken :: "byte list \<Rightarrow> string" where
  "GenerateToken rnd = RandomHex (take 32 rnd)"

definition HashPassword :: "pbkdf2 \<Rightarrow> string \<Rightarrow> string \<Rightarrow> string" where
  "HashPassword pbkdf password salt_hex =
     (case HexToBytes salt_hex of None \<Rightarrow> []
      | Some salt \<Rightarrow> BytesToHex (pbkdf password salt 100000 32))"

text \<open>\<open>CRYPTO_memcmp\<close> of two buffers of one length is 0 exactly when they are equal.\<close>

definition VerifyPassword :: "pbkdf2 \<Rightarrow> string \<Rightarrow> UserRecord \<Rightarrow> bool" where
  "VerifyPassword pbkdf password user =
     (let computed = HashPassword pbkdf password (ur_salt_hex user)
      in if length computed \<noteq> length (ur_hash_hex user) then False
         else computed = ur_hash_hex user)"

section \<open>Operations\<close>

text \<open>\<open>next_user_id_\<close> is an \<open>int\<close>, and C++ gives its increment no meaning beyond \<open>2^31 - 1\<close>; here it goes on, and
  what needs the ids to fit into an \<open>int\<close> says so.\<close>

definition RegisterUser ::
  "pbkdf2 \<Rightarrow> byte list \<Rightarrow> string \<Rightarrow> string \<Rightarrow> AuthService \<Rightarrow> (api_error + AuthUser) \<times> AuthService" where
  "RegisterUser pbkdf rnd username password st =
     (if username = [] \<or> password = [] then (Inl (''bad_request'', msg_credentials_required), st)
      else case um_find (users st) username of
        Some _ \<Rightarrow> (Inl (''duplicate_user'', msg_duplicate_user), st)
      | None \<Rightarrow>
          (let salt = GenerateSalt rnd;
               rec = \<lparr>ur_id = next_user_id st, ur_username = username, ur_salt_hex = salt,
                      ur_hash_hex = HashPassword pbkdf password salt\<rparr>
           in (Inr \<lparr>au_user_id = ur_id rec, au_username = ur_username rec\<rparr>,
               st\<lparr>next_user_id := next_user_id st + 1, users := um_put username rec (users st)\<rparr>)))"

definition CleanupExpired :: "time_ns \<Rightarrow> AuthService \<Rightarrow> AuthService" where
  "CleanupExpired now st =
     st\<lparr>auth_sessions := filter (\<lambda>(t, s). \<not> now > as_expires_at s) (auth_sessions st)\<rparr>"

definition find_session :: "AuthService \<Rightarrow> string \<Rightarrow> AuthSession option" where
  "find_session st t = um_find (auth_sessions st) t"

definition store_session :: "string \<Rightarrow> AuthSession \<Rightarrow> AuthService \<Rightarrow> AuthService" where
  "store_session t s st = st\<lparr>auth_sessions := um_put t s (auth_sessions st)\<rparr>"

definition erase_session :: "string \<Rightarrow> AuthService \<Rightarrow> AuthService" where
  "erase_session t st = st\<lparr>auth_sessions := um_erase t (auth_sessions st)\<rparr>"

definition Login ::
  "pbkdf2 \<Rightarrow> byte list \<Rightarrow> time_ns \<Rightarrow> string \<Rightarrow> string \<Rightarrow> string \<Rightarrow> AuthService
     \<Rightarrow> (api_error + AuthSession) \<times> AuthService" where
  "Login pbkdf rnd now username password ip st =
     (let (ok, rl) = Allow ip now (rate_limiter st); st1 = st\<lparr>rate_limiter := rl\<rparr>
      in if \<not> ok then (Inl (''rate_limited'', msg_rate_limited), st1)
         else case um_find (users st1) username of
           None \<Rightarrow> (Inl (''unauthorized'', msg_bad_credentials), st1)
         | Some rec \<Rightarrow>
             if \<not> VerifyPassword pbkdf password rec
             then (Inl (''unauthorized'', msg_bad_credentials), st1)
             else
               (let st2 = CleanupExpired now st1;
                    session = \<lparr>as_token = GenerateToken rnd,
                      as_user = \<lparr>au_user_id = ur_id rec, au_username = ur_username rec\<rparr>,
                      as_expires_at = add_seconds now (token_ttl (auth_config st2))\<rparr>
                in (Inr session, store_session (as_token session) session st2)))"

definition Logout :: "string \<Rightarrow> AuthService \<Rightarrow> bool \<times> AuthService" where
  "Logout token st = (find_session st token \<noteq> None, erase_session token st)"

definition ValidateToken :: "time_ns \<Rightarrow> string \<Rightarrow> AuthService \<Rightarrow> AuthSession option \<times> AuthService" where
  "ValidateToken now token st =
     (case find_session st token of None \<Rightarrow> (None, st)
      | Some s \<Rightarrow> if now > as_expires_at s then (None, erase_session token st) else (Some s, st))"

section \<open>The token table\<close>

interpretation login_tokens: token_table find_session store_session erase_session
  by unfold_locales (simp_all add: find_session_def store_session_def erase_session_def)

lemma session_frame [simp]:
  "users (store_session t s st) = users st" "next_user_id (store_session t s st) = next_user_id st"
  "users (erase_session t st) = users st" "next_user_id (erase_session t st) = next_user_id st"
  "users (CleanupExpired now st) = users st"
  "next_user_id (CleanupExpired now st) = next_user_id st"
  "auth_config (CleanupExpired now st) = auth_config st"
  "auth_sessions (store_session t s st) = um_put t s (auth_sessions st)"
  "auth_sessions (erase_session t st) = um_erase t (auth_sessions st)"
  by (simp_all add: store_session_def erase_session_def CleanupExpired_def)

lemma find_session_cleanup:
  "um_wf (auth_sessions st) \<Longrightarrow> find_session (CleanupExpired now st) t =
     (case find_session st t of None \<Rightarrow> None
      | Some s \<Rightarrow> if now > as_expires_at s then None else Some s)"
  by (auto simp: find_session_def CleanupExpired_def um_find_filter split: option.splits)

section \<open>Invariant\<close>

definition users_ok :: "int \<Rightarrow> (string, UserRecord) umap \<Rightarrow> bool" where
  "users_ok n us \<longleftrightarrow> um_wf us \<and>
     (\<forall>u r. um_find us u = Some r \<longrightarrow> ur_username r = u \<and> 1 \<le> ur_id r \<and> ur_id r < n) \<and>
     (\<forall>u v r s. um_find us u = Some r \<longrightarrow> um_find us v = Some s \<longrightarrow> ur_id r = ur_id s \<longrightarrow> u = v)"

definition sessions_ok :: "(string, UserRecord) umap \<Rightarrow> (string, AuthSession) umap \<Rightarrow> bool" where
  "sessions_ok us ss \<longleftrightarrow> um_wf ss \<and>
     (\<forall>t s. um_find ss t = Some s \<longrightarrow> as_token s = t \<and>
        (\<exists>r. um_find us (au_username (as_user s)) = Some r \<and> ur_id r = au_user_id (as_user s)))"

definition auth_inv :: "AuthService \<Rightarrow> bool" where
  "auth_inv st \<longleftrightarrow> 1 \<le> next_user_id st \<and> users_ok (next_user_id st) (users st) \<and>
     sessions_ok (users st) (auth_sessions st)"

lemma auth_inv_init: "auth_inv (make_AuthService config)"
  by (simp add: auth_inv_def users_ok_def sessions_ok_def make_AuthService_def)

lemma sessions_ok_erase [inv_intros]: "sessions_ok us ss \<Longrightarrow> sessions_ok us (um_erase t ss)"
  by (auto simp: sessions_ok_def)

lemma sessions_ok_filter [inv_intros]: "sessions_ok us ss \<Longrightarrow> sessions_ok us (filter P ss)"
  by (auto simp: sessions_ok_def um_find_filter split: option.splits if_splits)

lemma sessions_ok_put [inv_intros]:
  "sessions_ok us ss \<Longrightarrow> as_token s = t \<Longrightarrow> um_find us (au_username (as_user s)) = Some r \<Longrightarrow>
     ur_id r = au_user_id (as_user s) \<Longrightarrow> sessions_ok us (um_put t s ss)"
  by (auto simp: sessions_ok_def)

lemma sessions_ok_new_user [inv_intros]:
  "sessions_ok us ss \<Longrightarrow> um_find us u = None \<Longrightarrow> sessions_ok (um_put u r us) ss"
  by (fastforce simp: sessions_ok_def)

lemma users_ok_new [inv_intros]:
  "users_ok n us \<Longrightarrow> 1 \<le> n \<Longrightarrow> um_find us u = None \<Longrightarrow> ur_username r = u \<Longrightarrow> ur_id r = n \<Longrightarrow>
     users_ok (n + 1) (um_put u r us)"
  by (fastforce simp: users_ok_def)

lemma RegisterUser_inv [inv_intros]: "auth_inv st \<Longrightarrow> auth_inv (snd (RegisterUser pb rnd u p st))"
  by (auto simp: RegisterUser_def auth_inv_def Let_def intro!: inv_intros split: option.splits)

lemma Login_inv [inv_intros]: "auth_inv st \<Longrightarrow> auth_inv (snd (Login pb rnd now u p ip st))"
  by (auto simp: Login_def auth_inv_def Let_def split_beta CleanupExpired_def store_session_def users_ok_def
      intro!: inv_intros split: option.splits)

lemma Logout_inv [inv_intros]: "auth_inv st \<Longrightarrow> auth_inv (snd (Logout t st))"
  by (auto simp: Logout_def auth_inv_def intro!: inv_intros)

lemma ValidateToken_inv [inv_intros]: "auth_inv st \<Longrightarrow> auth_inv (snd (ValidateToken now t st))"
  by (auto simp: ValidateToken_def auth_inv_def intro!: inv_intros split: option.splits)

section \<open>The service as a machine\<close>

datatype auth_op =
    Op_Register "byte list" string string
  | Op_Login "byte list" time_ns string string string
  | Op_Logout string
  | Op_Validate time_ns string

fun auth_step :: "pbkdf2 \<Rightarrow> auth_op \<Rightarrow> AuthService \<Rightarrow> AuthService" where
  "auth_step pb (Op_Register rnd u p) st = snd (RegisterUser pb rnd u p st)"
| "auth_step pb (Op_Login rnd now u p ip) st = snd (Login pb rnd now u p ip st)"
| "auth_step pb (Op_Logout t) st = snd (Logout t st)"
| "auth_step pb (Op_Validate now t) st = snd (ValidateToken now t st)"

lemma auth_step_inv: "auth_inv st \<Longrightarrow> auth_inv (auth_step pb c st)"
  by (cases c) (auto intro: inv_intros)

interpretation auth_machine: machine "auth_step pb" auth_inv for pb
  by unfold_locales (rule auth_step_inv)

lemma auth_step_keeps_user:
  "um_find (users st) u = Some r \<Longrightarrow> um_find (users (auth_step pb c st)) u = Some r"
  by (cases c)
    (auto simp: RegisterUser_def Login_def Logout_def ValidateToken_def Let_def split_beta
      split: option.splits)

interpretation user_kept: machine "auth_step pb" "\<lambda>st. um_find (users st) u = Some r" for pb u r
  by unfold_locales (rule auth_step_keeps_user)

text \<open>The tokens an operation may draw.\<close>

fun drawn :: "auth_op \<Rightarrow> string set" where
  "drawn (Op_Login rnd now u p ip) = {GenerateToken rnd}"
| "drawn c = {}"

lemma auth_step_token_absent:
  assumes "um_wf (auth_sessions st)" "find_session st t = None" "t \<notin> drawn c"
  shows "find_session (auth_step pb c st) t = None"
  using assms
  by (cases c)
    (auto simp: RegisterUser_def Login_def Logout_def ValidateToken_def Let_def split_beta
      login_tokens.lookup_store login_tokens.lookup_revoke find_session_cleanup
      find_session_def CleanupExpired_def um_find_filter store_session_def erase_session_def
      split: option.splits)

lemma token_absent_run:
  "auth_inv st \<Longrightarrow> find_session st t = None \<Longrightarrow> t \<notin> \<Union> (drawn ` set cs) \<Longrightarrow>
     find_session (fold (auth_step pb) cs st) t = None"
proof (induction cs arbitrary: st)
  case (Cons c cs)
  have "auth_inv (auth_step pb c st)" using Cons.prems(1) by (rule auth_step_inv)
  moreover have "find_session (auth_step pb c st) t = None"
    using Cons.prems by (intro auth_step_token_absent) (auto simp: auth_inv_def sessions_ok_def)
  ultimately show ?case using Cons by simp
qed simp

section \<open>Logging in\<close>

lemma RegisterUser_success:
  assumes "u \<noteq> []" "p \<noteq> []" "um_find (users st) u = None"
  shows "RegisterUser pb rnd u p st =
    (Inr \<lparr>au_user_id = next_user_id st, au_username = u\<rparr>,
     st\<lparr>next_user_id := next_user_id st + 1,
        users := um_put u \<lparr>ur_id = next_user_id st, ur_username = u, ur_salt_hex = GenerateSalt rnd,
          ur_hash_hex = HashPassword pb p (GenerateSalt rnd)\<rparr> (users st)\<rparr>)"
  using assms by (simp add: RegisterUser_def Let_def)

lemma VerifyPassword_iff:
  "VerifyPassword pb p' \<lparr>ur_id = i, ur_username = u, ur_salt_hex = BytesToHex salt,
     ur_hash_hex = HashPassword pb p (BytesToHex salt)\<rparr> \<longleftrightarrow>
   pb p' salt 100000 32 = pb p salt 100000 32"
  by (auto simp: VerifyPassword_def HashPassword_def Let_def)

lemma Login_known:
  assumes "um_find (users st) u = Some rec" "fst (Allow ip now (rate_limiter st))"
  shows "(\<exists>s. fst (Login pb rnd now u p ip st) = Inr s) \<longleftrightarrow> VerifyPassword pb p rec"
  using assms by (auto simp: Login_def Let_def split_beta)

lemma Login_result:
  assumes "um_find (users st) u = Some rec" "fst (Allow ip now (rate_limiter st))"
    "VerifyPassword pb p rec"
  shows "fst (Login pb rnd now u p ip st) = Inr \<lparr>as_token = GenerateToken rnd,
      as_user = \<lparr>au_user_id = ur_id rec, au_username = ur_username rec\<rparr>,
      as_expires_at = add_seconds now (token_ttl (auth_config st))\<rparr>"
  using assms by (simp add: Login_def Let_def split_beta)

lemma Login_stores:
  assumes "fst (Login pb rnd now u p ip st) = Inr s"
  shows "find_session (snd (Login pb rnd now u p ip st)) (as_token s) = Some s"
  using assms
  by (auto simp: Login_def Let_def split_beta login_tokens.lookup_store split: option.splits if_splits)

section \<open>Properties\<close>

text \<open>C20: A user who was registered can log in after any further operations of the service (if the
  rate limiter lets the attempt through) exactly with a password whose PBKDF2 value under the stored
  salt is the one of the registration; nobody can change or remove the credentials.\<close>

theorem registered_credentials_stay:
  assumes "fst (RegisterUser pb rnd u p st) = Inr user"
    and "st' = fold (auth_step pb) cs (snd (RegisterUser pb rnd u p st))"
    and "fst (Allow ip now (rate_limiter st'))"
  shows "(\<exists>s. fst (Login pb rnd' now u p' ip st') = Inr s) \<longleftrightarrow>
    pb p' (take 16 rnd) 100000 32 = pb p (take 16 rnd) 100000 32"
proof -
  let ?rec = "\<lparr>ur_id = next_user_id st, ur_username = u, ur_salt_hex = BytesToHex (take 16 rnd),
    ur_hash_hex = HashPassword pb p (BytesToHex (take 16 rnd))\<rparr>"
  have "u \<noteq> []" "p \<noteq> []" "um_find (users st) u = None"
    using assms(1) by (auto simp: RegisterUser_def split: if_splits option.splits)
  then have "um_find (users (snd (RegisterUser pb rnd u p st))) u = Some ?rec"
    by (simp add: RegisterUser_success GenerateSalt_def RandomHex_def)
  then have "um_find (users st') u = Some ?rec" unfolding assms(2) by (rule user_kept.run_keeps)
  then show ?thesis using Login_known [OF _ assms(3)] VerifyPassword_iff by simp
qed

theorem registered_credentials_stay_witness:
  "(\<exists>s. fst (Login (\<lambda>p salt i n. [of_nat (length p)]) [] 7 ''ann'' ''pw'' ''ip''
     (fold (auth_step (\<lambda>p salt i n. [of_nat (length p)])) [Op_Logout ''t'']
       (snd (RegisterUser (\<lambda>p salt i n. [of_nat (length p)]) [1] ''ann'' ''xy''
         (make_AuthService \<lparr>token_ttl = 60, login_window = 60, login_max_attempts = 5\<rparr>))))) = Inr s) \<longleftrightarrow>
   [of_nat (length ''pw'')] = ([of_nat (length ''xy'')] :: byte list)"
  by (rule registered_credentials_stay [where ip = "''ip''" and now = 7 and cs = "[Op_Logout ''t'']"
        and st = "make_AuthService \<lparr>token_ttl = 60, login_window = 60, login_max_attempts = 5\<rparr>" and rnd = "[1]"
        and user = "\<lparr>au_user_id = 1, au_username = ''ann''\<rparr>"])
    (simp_all add: RegisterUser_success make_AuthService_def Logout_def erase_session_def Allow_def
      bucket_allow_def bucket_of_def make_RateLimiter_def to_int64_id ns_per_second_def Let_def)

text \<open>A failed login does not tell whether the user exists: an unknown name and a wrong password
  give the same answer and leave the same state.\<close>

lemma login_failure_uniform:
  assumes "um_find (users st) u = None"
    and "um_find (users st) v = Some rec" "\<not> VerifyPassword pb q rec"
  shows "Login pb rnd now u p ip st = Login pb rnd' now v q ip st"
  using assms by (simp add: Login_def Let_def split_beta)

definition sample_pbkdf :: pbkdf2 where
  "sample_pbkdf password salt iterations bytes = [of_nat (length password)]"

definition sample_user :: UserRecord where
  "sample_user = \<lparr>ur_id = 1, ur_username = ''ann'', ur_salt_hex = BytesToHex [1],
     ur_hash_hex = HashPassword sample_pbkdf ''pw'' (BytesToHex [1])\<rparr>"

definition sample_service :: AuthService where
  "sample_service = (make_AuthService \<lparr>token_ttl = 60, login_window = 60, login_max_attempts = 5\<rparr>)
     \<lparr>users := [(''ann'', sample_user)], next_user_id := 2\<rparr>"

lemma sample_password: "VerifyPassword sample_pbkdf p sample_user \<longleftrightarrow> (of_nat (length p) :: byte) = 2"
  unfolding sample_user_def VerifyPassword_iff by (simp add: sample_pbkdf_def)

text \<open>C25: After a logout the token is invalid, whatever operations follow, unless the generator of a
  later login draws the very same token.\<close>

theorem logout_is_final:
  assumes "auth_inv st" "t \<notin> \<Union> (drawn ` set cs)"
  shows "fst (ValidateToken now t (fold (auth_step pb) cs (snd (Logout t st)))) = None"
proof -
  have "find_session (snd (Logout t st)) t = None"
    by (simp add: Logout_def login_tokens.lookup_revoke)
  then have "find_session (fold (auth_step pb) cs (snd (Logout t st))) t = None"
    using assms by (intro token_absent_run Logout_inv)
  then show ?thesis by (simp add: ValidateToken_def)
qed

theorem logout_is_final_witness:
  "fst (ValidateToken 9 ''t'' (fold (auth_step (\<lambda>p salt i n. [])) [Op_Register [1] ''ann'' ''pw'', Op_Validate 3 ''t'']
     (snd (Logout ''t'' (make_AuthService \<lparr>token_ttl = 60, login_window = 60, login_max_attempts = 5\<rparr>))))) = None"
  by (rule logout_is_final) (simp_all add: auth_inv_init)

text \<open>C26: The token of a successful login is accepted up to and including the end of its lifetime,
  \<open>token_ttl\<close> seconds after the login, and for the user who logged in.\<close>

theorem token_lifetime:
  assumes "fst (Login pb rnd now u p ip st) = Inr s"
    and "0 \<le> now" "0 \<le> token_ttl (auth_config st)"
    and "now + token_ttl (auth_config st) * ns_per_second < 2 ^ 63"
    and "auth_inv st"
  shows "au_username (as_user s) = u \<and>
    fst (ValidateToken later (as_token s) (snd (Login pb rnd now u p ip st))) =
      (if later \<le> now + token_ttl (auth_config st) * ns_per_second then Some s else None)"
proof -
  have "au_username (as_user s) = u"
    "as_expires_at s = add_seconds now (token_ttl (auth_config st))"
    using assms(1,5)
    by (auto simp: Login_def Let_def split_beta auth_inv_def users_ok_def split: option.splits if_splits)
  with Login_stores [OF assms(1)] add_seconds_exact [OF assms(3,2,4)] show ?thesis
    by (simp add: ValidateToken_def)
qed

lemma sample_service_inv: "auth_inv sample_service"
  by (simp add: auth_inv_def users_ok_def sessions_ok_def sample_service_def make_AuthService_def um_wf_def
      um_find_def sample_user_def)

theorem token_lifetime_witness:
  "au_username \<lparr>au_user_id = 1, au_username = ''ann''\<rparr> = ''ann'' \<and>
   fst (ValidateToken 60000000006 (GenerateToken [171])
     (snd (Login sample_pbkdf [171] 5 ''ann'' ''pw'' ''ip'' sample_service))) = None"
proof -
  let ?s = "\<lparr>as_token = GenerateToken [171], as_user = \<lparr>au_user_id = 1, au_username = ''ann''\<rparr>,
    as_expires_at = 60000000005\<rparr>"
  have ttl: "token_ttl (auth_config sample_service) = 60" by (simp add: sample_service_def make_AuthService_def)
  have "fst (Allow ''ip'' 5 (rate_limiter sample_service))"
    by (simp add: sample_service_def make_AuthService_def Allow_def bucket_allow_def bucket_of_def
        make_RateLimiter_def to_int64_id ns_per_second_def)
  then have "fst (Login sample_pbkdf [171] 5 ''ann'' ''pw'' ''ip'' sample_service) = Inr ?s"
    by (subst Login_result [where rec = sample_user])
      (simp_all add: sample_password ttl add_seconds_exact ns_per_second_def,
       simp_all add: sample_service_def um_find_def sample_user_def)
  then show ?thesis
    using token_lifetime [of sample_pbkdf "[171]" 5 "''ann''" "''pw''" "''ip''" sample_service ?s 60000000006]
      sample_service_inv ttl by (simp add: ns_per_second_def)
qed

text \<open>In every state the service can reach, user ids are unique and below the next id, names are the
  keys of their records, and every login token belongs to a registered user.\<close>

lemma accounts_consistent:
  "let st = fold (auth_step pb) cs (make_AuthService config)
   in users_ok (next_user_id st) (users st) \<and> sessions_ok (users st) (auth_sessions st)"
  using auth_machine.run_keeps [OF auth_inv_init [of config], of pb cs] by (simp add: auth_inv_def Let_def)

end
