(* ===== verification/Rating.thy ===== *)
theory Rating
  imports Prelude
begin

text \<open>
  \<open>RatingService\<close> of \<open>rating.cpp\<close>: Elo updates and the leaderboard. The doubles of the Elo formula are
  real numbers here (the rounding error of binary floating point is left out); \<open>std::round\<close> rounds
  halves away from zero. Page and size are \<open>size_t\<close>: 64-bit words, whose products wrap around.
\<close>

record RatingEntry =
  re_username :: string
  re_rating :: int
  re_wins :: int
  re_losses :: int

record RatingSummary =
  sum_user_id :: int
  sum_username :: string
  sum_rating :: int
  sum_wins :: int
  sum_losses :: int

definition summary_matches :: "RatingSummary \<Rightarrow> int" where
  "summary_matches r = sum_wins r + sum_losses r"

record LeaderboardPage =
  lb_total :: "64 word"
  lb_entries :: "RatingSummary list"

record RatingService =
  rating_entries :: "(int, RatingEntry) umap"

definition make_RatingService :: RatingService where
  "make_RatingService = \<lparr>rating_entries = []\<rparr>"

definition k_factor :: int where
  "k_factor = 32"

definition initial_rating :: int where
  "initial_rating = 1000"

section \<open>The Elo formula\<close>

definition std_round :: "real \<Rightarrow> int" where
  "std_round x = (if 0 \<le> x then \<lfloor>x + 1 / 2\<rfloor> else - \<lfloor>- x + 1 / 2\<rfloor>)"

definition ExpectedScore :: "int \<Rightarrow> int \<Rightarrow> real" where
  "ExpectedScore rating_a rating_b =
     (let exponent = real_of_int (rating_b - rating_a) / 400 in 1 / (1 + 10 powr exponent))"

definition ApplyElo :: "int \<Rightarrow> real \<Rightarrow> real \<Rightarrow> int" where
  "ApplyElo rating expected score =
     (let delta = real_of_int k_factor * (score - expected)
      in std_round (real_of_int rating + delta))"

section \<open>Operations\<close>

definition EnsureUser :: "int \<Rightarrow> string \<Rightarrow> RatingService \<Rightarrow> RatingService" where
  "EnsureUser u name rs =
     (case um_find (rating_entries rs) u of
        None \<Rightarrow> rs\<lparr>rating_entries := um_put u
          \<lparr>re_username = name, re_rating = initial_rating, re_wins = 0, re_losses = 0\<rparr>
          (rating_entries rs)\<rparr>
      | Some e \<Rightarrow>
          if name \<noteq> [] then rs\<lparr>rating_entries := um_put u (e\<lparr>re_username := name\<rparr>) (rating_entries rs)\<rparr>
          else rs)"

text \<open>The references \<open>winner\<close> and \<open>loser\<close> point into the map: every read and write goes through it,
  so they alias when the two ids are equal.\<close>

definition entry_at :: "(int, RatingEntry) umap \<Rightarrow> int \<Rightarrow> RatingEntry" where
  "entry_at m u = (case um_find m u of
     None \<Rightarrow> \<lparr>re_username = [], re_rating = initial_rating, re_wins = 0, re_losses = 0\<rparr> | Some e \<Rightarrow> e)"

definition ensure_entry :: "int \<Rightarrow> (int, RatingEntry) umap \<Rightarrow> (int, RatingEntry) umap" where
  "ensure_entry u m = (case um_find m u of None \<Rightarrow> um_put u (entry_at m u) m | Some e \<Rightarrow> m)"

definition write_entry ::
  "int \<Rightarrow> (RatingEntry \<Rightarrow> RatingEntry) \<Rightarrow> (int, RatingEntry) umap \<Rightarrow> (int, RatingEntry) umap" where
  "write_entry u f m = um_put u (f (entry_at m u)) m"

definition ApplyMatchResult :: "int \<Rightarrow> int \<Rightarrow> RatingService \<Rightarrow> RatingSummary \<times> RatingService" where
  "ApplyMatchResult winner_id loser_id rs =
     (let m0 = ensure_entry loser_id (ensure_entry winner_id (rating_entries rs));
          expected_winner = ExpectedScore (re_rating (entry_at m0 winner_id)) (re_rating (entry_at m0 loser_id));
          expected_loser = ExpectedScore (re_rating (entry_at m0 loser_id)) (re_rating (entry_at m0 winner_id));
          m1 = write_entry winner_id (\<lambda>e. e\<lparr>re_rating := ApplyElo (re_rating e) expected_winner 1\<rparr>) m0;
          m2 = write_entry loser_id (\<lambda>e. e\<lparr>re_rating := ApplyElo (re_rating e) expected_loser 0\<rparr>) m1;
          m3 = write_entry winner_id (\<lambda>e. e\<lparr>re_wins := re_wins e + 1\<rparr>) m2;
          m4 = write_entry loser_id (\<lambda>e. e\<lparr>re_losses := re_losses e + 1\<rparr>) m3;
          w = entry_at m4 winner_id
      in (\<lparr>sum_user_id = winner_id, sum_username = re_username w, sum_rating = re_rating w,
           sum_wins = re_wins w, sum_losses = re_losses w\<rparr>,
          rs\<lparr>rating_entries := m4\<rparr>))"

definition summary_of :: "int \<Rightarrow> RatingEntry \<Rightarrow> RatingSummary" where
  "summary_of u e = \<lparr>sum_user_id = u, sum_username = re_username e, sum_rating = re_rating e,
     sum_wins = re_wins e, sum_losses = re_losses e\<rparr>"

definition GetSummary :: "int \<Rightarrow> RatingService \<Rightarrow> RatingSummary option" where
  "GetSummary u rs = map_option (summary_of u) (um_find (rating_entries rs) u)"

text \<open>The comparison of \<open>std::sort\<close>: higher ratings first, then smaller ids; and the linear order of its keys.\<close>

definition entry_before :: "int \<times> RatingEntry \<Rightarrow> int \<times> RatingEntry \<Rightarrow> bool" where
  "entry_before a b \<longleftrightarrow>
     (if re_rating (snd a) = re_rating (snd b) then fst a < fst b else re_rating (snd a) > re_rating (snd b))"

datatype rank_key = RankKey (rk_rating: int) (rk_user: int)

instantiation rank_key :: linorder
begin

definition less_eq_rank_key :: "rank_key \<Rightarrow> rank_key \<Rightarrow> bool" where
  "less_eq_rank_key a b \<longleftrightarrow>
     (if rk_rating a = rk_rating b then rk_user a \<le> rk_user b else rk_rating a > rk_rating b)"

definition less_rank_key :: "rank_key \<Rightarrow> rank_key \<Rightarrow> bool" where
  "less_rank_key a b \<longleftrightarrow>
     (if rk_rating a = rk_rating b then rk_user a < rk_user b else rk_rating a > rk_rating b)"

instance
proof
  fix a b c :: rank_key
  show "(a < b) = (a \<le> b \<and> \<not> b \<le> a)" by (auto simp: less_eq_rank_key_def less_rank_key_def)
  show "a \<le> a" by (simp add: less_eq_rank_key_def)
  show "a \<le> b \<Longrightarrow> b \<le> c \<Longrightarrow> a \<le> c" by (auto simp: less_eq_rank_key_def split: if_splits)
  show "a \<le> b \<Longrightarrow> b \<le> a \<Longrightarrow> a = b"
    by (auto simp: less_eq_rank_key_def rank_key.expand split: if_splits)
  show "a \<le> b \<or> b \<le> a" by (auto simp: less_eq_rank_key_def)
qed

end

definition rank_key :: "int \<times> RatingEntry \<Rightarrow> rank_key" where
  "rank_key p = RankKey (re_rating (snd p)) (fst p)"

lemma entry_before_key: "entry_before a b \<longleftrightarrow> rank_key a < rank_key b"
  by (simp add: entry_before_def rank_key_def less_rank_key_def)

lemma entries_ranked: "sorted_wrt (\<lambda>a b. \<not> entry_before b a) (sort_key rank_key es)"
proof -
  have "sorted_wrt (\<lambda>a b. rank_key a \<le> rank_key b) (sort_key rank_key es)"
    using sorted_sort_key [of rank_key es] by (simp only: sorted_map)
  then show ?thesis by (simp only: entry_before_key not_less)
qed

definition ranking :: "RatingService \<Rightarrow> RatingSummary list" where
  "ranking rs = map (\<lambda>(u, e). summary_of u e) (sort_key rank_key (rating_entries rs))"

text \<open>\<open>reserve(end - start)\<close> throws when the subtraction wraps around.\<close>

definition GetLeaderboard :: "64 word \<Rightarrow> 64 word \<Rightarrow> RatingService \<Rightarrow> exn + LeaderboardPage" where
  "GetLeaderboard page sz rs =
     (let items = ranking rs; total = (word_of_nat (length items) :: 64 word);
          start = (page - 1) * sz; end = min (start + sz) total
      in if start < total
         then (if end < start then Inl LengthError
               else Inr \<lparr>lb_total = total,
                 lb_entries = take (unat end - unat start) (drop (unat start) items)\<rparr>)
         else Inr \<lparr>lb_total = total, lb_entries = []\<rparr>)"

section \<open>Facts about the formula\<close>

lemma std_round_close: "\<bar>real_of_int (std_round x) - x\<bar> \<le> 1 / 2"
proof (cases "0 \<le> x")
  case True
  have "of_int \<lfloor>x + 1 / 2\<rfloor> \<le> x + 1 / 2" "x + 1 / 2 < of_int \<lfloor>x + 1 / 2\<rfloor> + 1" by linarith+
  with True show ?thesis unfolding std_round_def by (simp only: if_True abs_le_iff) linarith
next
  case False
  have "of_int \<lfloor>- x + 1 / 2\<rfloor> \<le> - x + 1 / 2" "- x + 1 / 2 < of_int \<lfloor>- x + 1 / 2\<rfloor> + 1" by linarith+
  with False show ?thesis unfolding std_round_def by (simp only: if_False abs_le_iff of_int_minus) linarith
qed

lemma std_round_of_int [simp]: "std_round (real_of_int n) = n"
proof -
  have "\<lfloor>real_of_int n + 1 / 2\<rfloor> = n" "\<lfloor>- real_of_int n + 1 / 2\<rfloor> = - n" by linarith+
  then show ?thesis by (simp add: std_round_def)
qed

lemma std_round_mono: "x \<le> y \<Longrightarrow> std_round x \<le> std_round y"
proof (cases "0 \<le> x")
  case True
  assume "x \<le> y"
  with True show ?thesis by (simp add: std_round_def floor_mono)
next
  case False
  assume "x \<le> y"
  show ?thesis
  proof (cases "0 \<le> y")
    case True
    have "0 \<le> \<lfloor>y + 1 / 2\<rfloor>" "0 \<le> \<lfloor>- x + 1 / 2\<rfloor>" using True False by linarith+
    then show ?thesis using True False unfolding std_round_def by (simp only: if_True if_False)
  next
    case False
    with \<open>\<not> 0 \<le> x\<close> \<open>x \<le> y\<close> show ?thesis by (simp add: std_round_def floor_mono)
  qed
qed

lemma ExpectedScore_bounds: "0 < ExpectedScore a b" "ExpectedScore a b < 1"
proof -
  have "0 < 10 powr (real_of_int (b - a) / 400)" by simp
  then show "0 < ExpectedScore a b" "ExpectedScore a b < 1"
    by (simp_all add: ExpectedScore_def Let_def add_pos_pos)
qed

lemma ExpectedScore_sum: "ExpectedScore a b + ExpectedScore b a = 1"
proof -
  define p where "p = 10 powr (real_of_int (b - a) / 400)"
  have pos: "0 < p" by (simp add: p_def)
  have "10 powr (real_of_int (a - b) / 400) = 10 powr (- (real_of_int (b - a) / 400))"
    by (simp add: minus_divide_left)
  then have inv: "10 powr (real_of_int (a - b) / 400) = 1 / p"
    by (simp only: powr_minus_divide p_def)
  have "1 / (1 + p) + 1 / (1 + 1 / p) = 1"
    using pos by (simp add: divide_simps) (simp add: algebra_simps)
  then show ?thesis by (simp only: ExpectedScore_def Let_def inv p_def)
qed

lemma ExpectedScore_equal: "ExpectedScore r r = 1 / 2"
  by (simp add: ExpectedScore_def)

lemma ExpectedScore_mono: "b \<le> b' \<Longrightarrow> ExpectedScore a b' \<le> ExpectedScore a b"
proof -
  assume "b \<le> b'"
  then have "10 powr (real_of_int (b - a) / 400) \<le> 10 powr (real_of_int (b' - a) / 400)"
    by (intro powr_mono) (auto intro: divide_right_mono)
  then show ?thesis by (simp add: ExpectedScore_def Let_def frac_le add_pos_pos)
qed

lemma ApplyElo_win: "r \<le> ApplyElo r (ExpectedScore a b) 1 \<and> ApplyElo r (ExpectedScore a b) 1 \<le> r + 32"
proof -
  let ?x = "real_of_int r + 32 * (1 - ExpectedScore a b)"
  have "real_of_int r \<le> ?x" "?x \<le> real_of_int (r + 32)"
    using ExpectedScore_bounds [of a b] by simp_all
  then have "std_round (real_of_int r) \<le> std_round ?x" "std_round ?x \<le> std_round (real_of_int (r + 32))"
    by (blast intro: std_round_mono)+
  then show ?thesis by (simp only: std_round_of_int ApplyElo_def Let_def k_factor_def of_int_numeral)
qed

lemma ApplyElo_loss: "r - 32 \<le> ApplyElo r (ExpectedScore a b) 0 \<and> ApplyElo r (ExpectedScore a b) 0 \<le> r"
proof -
  let ?x = "real_of_int r + 32 * (0 - ExpectedScore a b)"
  have "real_of_int (r - 32) \<le> ?x" "?x \<le> real_of_int r"
    using ExpectedScore_bounds [of a b] by simp_all
  then have "std_round (real_of_int (r - 32)) \<le> std_round ?x" "std_round ?x \<le> std_round (real_of_int r)"
    by (blast intro: std_round_mono)+
  then show ?thesis by (simp only: std_round_of_int ApplyElo_def Let_def k_factor_def of_int_numeral)
qed

text \<open>What one player gains the other loses, up to the rounding of the two results.\<close>

lemma ApplyElo_exchange:
  "\<bar>(ApplyElo r (ExpectedScore r r') 1 + ApplyElo r' (ExpectedScore r' r) 0) - (r + r')\<bar> \<le> 1"
proof -
  let ?x = "real_of_int r + 32 * (1 - ExpectedScore r r')"
  let ?y = "real_of_int r' + 32 * (0 - ExpectedScore r' r)"
  have "?x + ?y = real_of_int r + real_of_int r' + 32 * (1 - (ExpectedScore r r' + ExpectedScore r' r))"
    by (simp add: algebra_simps)
  then have sum: "?x + ?y = real_of_int (r + r')" by (simp add: ExpectedScore_sum)
  have "\<bar>real_of_int (std_round ?x + std_round ?y) - real_of_int (r + r')\<bar> \<le> 1"
    using std_round_close [of ?x] std_round_close [of ?y] sum by linarith
  then have "\<bar>real_of_int ((std_round ?x + std_round ?y) - (r + r'))\<bar> \<le> real_of_int 1" by simp
  then have "\<bar>(std_round ?x + std_round ?y) - (r + r')\<bar> \<le> 1"
    by (simp only: of_int_abs [symmetric] of_int_le_iff)
  then show ?thesis by (simp only: ApplyElo_def Let_def k_factor_def of_int_numeral)
qed

section \<open>The book of ratings\<close>

lemma entry_at_put [simp]: "entry_at (um_put u e m) v = (if v = u then e else entry_at m v)"
  by (simp add: entry_at_def)

lemma entry_at_ensure [simp]: "entry_at (ensure_entry u m) v = entry_at m v"
  by (auto simp: ensure_entry_def entry_at_def split: option.splits)

lemma entry_at_write [simp]:
  "entry_at (write_entry u f m) v = (if v = u then f (entry_at m u) else entry_at m v)"
  by (simp add: write_entry_def)

lemma entry_at_EnsureUser:
  "entry_at (rating_entries (EnsureUser u name rs)) v =
     (if v = u \<and> (um_find (rating_entries rs) u = None \<or> name \<noteq> [])
      then (entry_at (rating_entries rs) u)\<lparr>re_username := name\<rparr>
      else entry_at (rating_entries rs) v)"
  by (auto simp: EnsureUser_def entry_at_def split: option.splits)

lemma ensure_entry_dom: "um_find (ensure_entry u m) v = None \<longleftrightarrow> v \<noteq> u \<and> um_find m v = None"
  by (auto simp: ensure_entry_def split: option.splits)

lemma write_entry_dom: "um_find (write_entry u f m) v = None \<longleftrightarrow> v \<noteq> u \<and> um_find m v = None"
  by (simp add: write_entry_def)

lemma ratings_wf [inv_intros]:
  "um_wf m \<Longrightarrow> um_wf (ensure_entry u m)" "um_wf m \<Longrightarrow> um_wf (write_entry u f m)"
  by (auto simp: ensure_entry_def write_entry_def split: option.splits)

lemma EnsureUser_wf [inv_intros]:
  "um_wf (rating_entries rs) \<Longrightarrow> um_wf (rating_entries (EnsureUser u name rs))"
  by (auto simp: EnsureUser_def split: option.splits)

lemma ApplyMatchResult_wf [inv_intros]:
  "um_wf (rating_entries rs) \<Longrightarrow> um_wf (rating_entries (snd (ApplyMatchResult w l rs)))"
  by (simp add: ApplyMatchResult_def Let_def ratings_wf)

lemma ApplyMatchResult_entries:
  fixes rs :: RatingService
  assumes "w \<noteq> l"
  defines "m \<equiv> rating_entries rs"
  shows "entry_at (rating_entries (snd (ApplyMatchResult w l rs))) u =
    (if u = w then (entry_at m w)
        \<lparr>re_rating := ApplyElo (re_rating (entry_at m w))
            (ExpectedScore (re_rating (entry_at m w)) (re_rating (entry_at m l))) 1,
         re_wins := re_wins (entry_at m w) + 1\<rparr>
     else if u = l then (entry_at m l)
        \<lparr>re_rating := ApplyElo (re_rating (entry_at m l))
            (ExpectedScore (re_rating (entry_at m l)) (re_rating (entry_at m w))) 0,
         re_losses := re_losses (entry_at m l) + 1\<rparr>
     else entry_at m u)"
  using assms by (simp add: ApplyMatchResult_def Let_def)

lemma ApplyMatchResult_dom:
  "um_find (rating_entries (snd (ApplyMatchResult w l rs))) u = None \<longleftrightarrow>
     u \<noteq> w \<and> u \<noteq> l \<and> um_find (rating_entries rs) u = None"
  by (auto simp: ApplyMatchResult_def Let_def ensure_entry_dom write_entry_dom)

text \<open>Totals over all players, through the entries: independent of the order of the map.\<close>

definition total_of :: "(RatingEntry \<Rightarrow> int) \<Rightarrow> (int, RatingEntry) umap \<Rightarrow> int" where
  "total_of f m = (\<Sum>(u, e)\<leftarrow>m. f e)"

lemma total_of_put:
  "um_wf m \<Longrightarrow> f \<lparr>re_username = [], re_rating = initial_rating, re_wins = 0, re_losses = 0\<rparr> = 0 \<Longrightarrow>
     total_of f (um_put u e m) = total_of f m - f (entry_at m u) + f e"
proof (induction m)
  case (Cons p m)
  show ?case
  proof (cases p)
    case (Pair a b)
    with Cons.prems have wf: "um_wf m" by (simp add: um_wf_def)
    show ?thesis
    proof (cases "a = u")
      case True
      with Pair show ?thesis by (simp add: um_put_def total_of_def entry_at_def um_find_def)
    next
      case False
      have "total_of f (um_put u e m) = total_of f m - f (entry_at m u) + f e"
        using Cons.IH wf Cons.prems(2) by simp
      with False Pair show ?thesis by (simp add: um_put_def total_of_def entry_at_def um_find_def)
    qed
  qed
qed (simp add: um_put_def total_of_def entry_at_def)

lemma total_of_ensure:
  "um_wf m \<Longrightarrow> f \<lparr>re_username = [], re_rating = initial_rating, re_wins = 0, re_losses = 0\<rparr> = 0 \<Longrightarrow>
     total_of f (ensure_entry u m) = total_of f m"
  by (auto simp: ensure_entry_def total_of_put split: option.splits)

lemma total_of_write:
  "um_wf m \<Longrightarrow> f \<lparr>re_username = [], re_rating = initial_rating, re_wins = 0, re_losses = 0\<rparr> = 0 \<Longrightarrow>
     total_of f (write_entry u g m) = total_of f m - f (entry_at m u) + f (g (entry_at m u))"
  by (simp add: write_entry_def total_of_put)

lemma totals_EnsureUser:
  assumes "um_wf (rating_entries rs)"
  shows "total_of re_wins (rating_entries (EnsureUser u name rs)) = total_of re_wins (rating_entries rs)"
    "total_of re_losses (rating_entries (EnsureUser u name rs)) = total_of re_losses (rating_entries rs)"
  using assms by (auto simp: EnsureUser_def total_of_put entry_at_def split: option.splits)

lemma totals_ApplyMatchResult:
  assumes "um_wf (rating_entries rs)"
  shows "total_of re_wins (rating_entries (snd (ApplyMatchResult w l rs))) = total_of re_wins (rating_entries rs) + 1"
    "total_of re_losses (rating_entries (snd (ApplyMatchResult w l rs))) = total_of re_losses (rating_entries rs) + 1"
  using assms
  by (simp_all add: ApplyMatchResult_def Let_def total_of_write total_of_ensure ratings_wf)

section \<open>The leaderboard\<close>

lemma rank_key_inj: "um_wf m \<Longrightarrow> inj_on rank_key (set m)"
  by (auto simp: um_wf_def inj_on_def rank_key_def distinct_map)

text \<open>The ranking does not depend on the iteration order of the hash map.\<close>

lemma ranking_order_irrelevant:
  assumes "um_wf (rating_entries rs)" "mset (rating_entries rs) = mset (rating_entries rs')"
  shows "ranking rs = ranking rs'"
proof -
  let ?m = "rating_entries rs" and ?m' = "rating_entries rs'"
  have "sort_key rank_key ?m = sort_key rank_key ?m'"
  proof (rule properties_for_sort_key)
    show "mset (sort_key rank_key ?m') = mset ?m" using assms(2) by simp
  next
    fix p assume "p \<in> set (sort_key rank_key ?m')"
    then have p: "p \<in> set ?m" using mset_eq_setD [OF assms(2)] by simp
    have eq: "filter (\<lambda>x. rank_key p = rank_key x) xs = filter (\<lambda>x. p = x) xs" if "set xs = set ?m" for xs
      using that p rank_key_inj [OF assms(1)] by (intro filter_cong) (auto dest: inj_onD)
    have same: "set (sort_key rank_key ?m') = set ?m" using mset_eq_setD [OF assms(2)] by simp
    have "mset (filter (\<lambda>x. p = x) (sort_key rank_key ?m')) = mset (filter (\<lambda>x. p = x) ?m)"
      using assms(2) by simp
    then have "filter (\<lambda>x. p = x) (sort_key rank_key ?m') = filter (\<lambda>x. p = x) ?m"
      by (metis filter_eq_replicate_mset mset_filter mset_replicate replicate_length_filter size_mset)
    then show "filter (\<lambda>x. rank_key p = rank_key x) (sort_key rank_key ?m')
        = filter (\<lambda>x. rank_key p = rank_key x) ?m"
      by (simp only: eq [OF same] eq [OF refl])
  qed simp
  then show ?thesis by (simp add: ranking_def)
qed

lemma length_ranking [simp]: "length (ranking rs) = um_size (rating_entries rs)"
  by (simp add: ranking_def um_size_def)

definition ranks_before :: "RatingSummary \<Rightarrow> RatingSummary \<Rightarrow> bool" where
  "ranks_before a b \<longleftrightarrow>
     sum_rating a > sum_rating b \<or> sum_rating a = sum_rating b \<and> sum_user_id a < sum_user_id b"

lemma ranking_sorted:
  assumes "um_wf (rating_entries rs)"
  shows "sorted_wrt ranks_before (ranking rs)"
proof -
  let ?xs = "sort_key rank_key (rating_entries rs)"
  have "distinct (map rank_key ?xs)"
    using assms rank_key_inj [OF assms] by (simp add: distinct_map um_wf_def)
  then have "sorted_wrt (<) (map rank_key ?xs)" by (simp add: strict_sorted_iff)
  then have "sorted_wrt (\<lambda>p q. rank_key p < rank_key q) ?xs" by (simp add: sorted_wrt_map)
  then show ?thesis
    unfolding ranking_def sorted_wrt_map
    by (rule sorted_wrt_mono_rel [rotated])
      (auto simp: rank_key_def less_rank_key_def ranks_before_def summary_of_def split: if_splits)
qed

text \<open>Without wrap-around a page is the slice of the ranking that its number names.\<close>

lemma GetLeaderboard_slice:
  assumes "1 \<le> unat page" "(unat page - 1) * unat sz + unat sz < 2 ^ 64"
    and "um_size (rating_entries rs) < 2 ^ 64"
  shows "GetLeaderboard page sz rs = Inr \<lparr>lb_total = word_of_nat (um_size (rating_entries rs)),
      lb_entries = take (unat sz) (drop ((unat page - 1) * unat sz) (ranking rs))\<rparr>"
proof -
  let ?n = "um_size (rating_entries rs)" and ?start = "(page - 1) * sz"
  have p1: "unat (page - 1) = unat page - 1"
    using assms(1) by (simp add: unat_minus_one unat_gt_0 Suc_le_eq)
  have start: "unat ?start = (unat page - 1) * unat sz"
    using assms(2) by (simp add: unat_word_ariths p1)
  have stop: "unat (?start + sz) = (unat page - 1) * unat sz + unat sz"
    using assms(2) by (simp only: unat_word_ariths(1) start) simp
  have total: "unat (word_of_nat ?n :: 64 word) = ?n"
    using assms(3) by (simp add: unat_of_nat)
  have "unat (min (?start + sz) (word_of_nat ?n)) = min (unat (?start + sz)) ?n"
    by (simp add: min_def word_le_nat_alt total)
  then show ?thesis
    using total
    by (auto simp: GetLeaderboard_def Let_def word_less_nat_alt start stop min_def
        split: if_splits)
qed

text \<open>A win between equally rated players is worth 16 points to the one and costs the other 16.\<close>

lemma even_match_sixteen:
  "ApplyElo r (ExpectedScore r r) 1 = r + 16 \<and> ApplyElo r (ExpectedScore r r) 0 = r - 16"
  using std_round_of_int [of "r + 16"] std_round_of_int [of "r - 16"]
  by (simp add: ApplyElo_def ExpectedScore_equal k_factor_def Let_def)

section \<open>Properties\<close>

text \<open>C35: A rated match moves at most 32 points: the winner never loses and the loser never gains, what
  one gains is what the other loses up to one point of rounding, and nobody else's rating changes.\<close>

theorem match_exchanges_points:
  fixes rs :: RatingService
  assumes "w \<noteq> l"
  defines "before \<equiv> (\<lambda>u. re_rating (entry_at (rating_entries rs) u))"
    and "after \<equiv> (\<lambda>u. re_rating (entry_at (rating_entries (snd (ApplyMatchResult w l rs))) u))"
  shows "before w \<le> after w \<and> after w \<le> before w + 32 \<and> before l - 32 \<le> after l \<and> after l \<le> before l \<and>
    \<bar>(after w + after l) - (before w + before l)\<bar> \<le> 1 \<and> (u = w \<or> u = l \<or> after u = before u)"
  using ApplyElo_win [of "before w" "before w" "before l"] ApplyElo_loss [of "before l" "before l" "before w"]
    ApplyElo_exchange [of "before w" "before l"] assms(1)
  by (simp add: after_def before_def ApplyMatchResult_entries)

theorem match_exchanges_points_witness:
  "\<bar>(re_rating (entry_at (rating_entries (snd (ApplyMatchResult 1 2 \<lparr>rating_entries = []\<rparr>))) 1)
      + re_rating (entry_at (rating_entries (snd (ApplyMatchResult 1 2 \<lparr>rating_entries = []\<rparr>))) 2))
    - (1000 + 1000)\<bar> \<le> 1"
  using match_exchanges_points [of 1 2 "\<lparr>rating_entries = []\<rparr>" 3] by (simp add: entry_at_def initial_rating_def)

text \<open>C36: The leaderboard is strictly ordered (higher rating first, then smaller id) and does not depend
  on the iteration order of the hash map it is read from.\<close>

theorem leaderboard_deterministic:
  assumes "um_wf (rating_entries rs)" "mset (rating_entries rs) = mset (rating_entries rs')"
  shows "sorted_wrt ranks_before (ranking rs) \<and> GetLeaderboard page sz rs = GetLeaderboard page sz rs'"
  using ranking_sorted [OF assms(1)] ranking_order_irrelevant [OF assms] by (simp add: GetLeaderboard_def)

theorem leaderboard_deterministic_witness:
  "sorted_wrt ranks_before (ranking \<lparr>rating_entries = [(1, \<lparr>re_username = ''a'', re_rating = 984, re_wins = 0, re_losses = 1\<rparr>),
      (2, \<lparr>re_username = ''b'', re_rating = 1016, re_wins = 1, re_losses = 0\<rparr>)]\<rparr>) \<and>
   GetLeaderboard 1 10 \<lparr>rating_entries = [(1, \<lparr>re_username = ''a'', re_rating = 984, re_wins = 0, re_losses = 1\<rparr>),
      (2, \<lparr>re_username = ''b'', re_rating = 1016, re_wins = 1, re_losses = 0\<rparr>)]\<rparr>
   = GetLeaderboard 1 10 \<lparr>rating_entries = [(2, \<lparr>re_username = ''b'', re_rating = 1016, re_wins = 1, re_losses = 0\<rparr>),
      (1, \<lparr>re_username = ''a'', re_rating = 984, re_wins = 0, re_losses = 1\<rparr>)]\<rparr>"
  by (rule leaderboard_deterministic) (simp_all add: um_wf_def add_mset_commute)

lemma GetLeaderboard_returns:
  assumes "um_size (rating_entries rs) < 2 ^ 63" "unat sz \<le> 50"
  shows "GetLeaderboard page sz rs \<noteq> Inl e"
proof -
  let ?total = "word_of_nat (um_size (rating_entries rs)) :: 64 word" and ?start = "(page - 1) * sz"
  have total: "unat ?total < 2 ^ 63"
    using assms(1) by (simp add: unat_of_nat)
  have "\<not> min (?start + sz) ?total < ?start" if "?start < ?total"
  proof -
    have "unat ?start < 2 ^ 63" using that total by (simp add: word_less_nat_alt)
    then have "unat (?start + sz) = unat ?start + unat sz"
      using assms(2) by (simp only: unat_word_ariths(1)) simp
    then have "?start \<le> ?start + sz" by (simp add: word_le_nat_alt)
    with that show ?thesis by (auto simp: min_def not_less)
  qed
  then show ?thesis by (simp add: GetLeaderboard_def Let_def)
qed

lemma page_slice:
  assumes "um_size (rating_entries rs) < 2 ^ 32" "sz \<le> 50" "p < 2 ^ 32"
  shows "GetLeaderboard (word_of_nat (Suc p)) (word_of_nat sz) rs = Inr
    \<lparr>lb_total = word_of_nat (um_size (rating_entries rs)), lb_entries = take sz (drop (p * sz) (ranking rs))\<rparr>"
proof -
  have u: "unat (word_of_nat (Suc p) :: 64 word) = Suc p" "unat (word_of_nat sz :: 64 word) = sz"
    using assms(2,3) by (simp_all only: unat_of_nat) simp_all
  have "p * sz \<le> 2 ^ 32 * 50" using assms(2,3) by (intro mult_mono) simp_all
  then have "p * sz + sz < 2 ^ 64" using assms(2) by simp
  then show ?thesis
    using GetLeaderboard_slice [of "word_of_nat (Suc p)" "word_of_nat sz" rs] assms(1) by (simp only: u) simp
qed

text \<open>C37: The pages of one size partition the ranking: the first \<open>k\<close> pages are its first \<open>k * sz\<close> entries,
  in order and without gap or repetition, each asked for without an exception; and no page number at all, of the
  \<open>2^64\<close> that there are, makes the request throw. (For fewer than \<open>2^32\<close> players and pages; a size is at most 50.)\<close>

theorem leaderboard_pages_partition:
  assumes "um_size (rating_entries rs) < 2 ^ 32" "sz \<le> 50" "k < 2 ^ 32"
  shows "(\<exists>pages. map (\<lambda>p. GetLeaderboard (word_of_nat (Suc p)) (word_of_nat sz) rs) [0..<k] = map Inr pages \<and>
      concat (map lb_entries pages) = take (k * sz) (ranking rs)) \<and>
    GetLeaderboard any_page (word_of_nat sz) rs \<noteq> Inl e"
proof
  let ?page = "\<lambda>p. \<lparr>lb_total = word_of_nat (um_size (rating_entries rs)), lb_entries = take sz (drop (p * sz) (ranking rs))\<rparr>"
  have "concat (map lb_entries (map ?page [0..<n])) = take (n * sz) (ranking rs)" for n
  proof (induction n)
    case (Suc n)
    have "take (Suc n * sz) (ranking rs) = take (n * sz) (ranking rs) @ take sz (drop (n * sz) (ranking rs))"
      using take_add [of "n * sz" sz "ranking rs"] by (simp add: add.commute)
    with Suc show ?case by simp
  qed simp
  moreover have "map (\<lambda>p. GetLeaderboard (word_of_nat (Suc p)) (word_of_nat sz) rs) [0..<k] = map Inr (map ?page [0..<k])"
    using page_slice [OF assms(1,2)] assms(3) by simp
  ultimately show "\<exists>pages. map (\<lambda>p. GetLeaderboard (word_of_nat (Suc p)) (word_of_nat sz) rs) [0..<k] = map Inr pages \<and>
      concat (map lb_entries pages) = take (k * sz) (ranking rs)" by blast
  have "unat (word_of_nat sz :: 64 word) \<le> 50" using assms(2) by (simp add: unat_of_nat)
  then show "GetLeaderboard any_page (word_of_nat sz) rs \<noteq> Inl e" using assms(1) by (intro GetLeaderboard_returns) simp_all
qed

text \<open>Two players on pages of one, and a third page that is beyond the end.\<close>

theorem leaderboard_pages_partition_witness:
  "let rs = \<lparr>rating_entries = [(1, \<lparr>re_username = ''a'', re_rating = 984, re_wins = 0, re_losses = 1\<rparr>),
      (2, \<lparr>re_username = ''b'', re_rating = 1016, re_wins = 1, re_losses = 0\<rparr>)]\<rparr>
   in \<exists>pages. map (\<lambda>p. GetLeaderboard (word_of_nat (Suc p)) (word_of_nat 1) rs) [0..<3] = map Inr pages \<and>
     concat (map lb_entries pages) = take (3 * 1) (ranking rs)"
  unfolding Let_def
  by (rule conjunct1 [OF leaderboard_pages_partition [where any_page = 0 and e = LengthError]]) (simp_all add: um_size_def)

text \<open>The offset of a page is computed in 64 bits and wraps around: page \<open>2^63 + 1\<close> of size 2 is
  page 1, though it lies far beyond the last entry.\<close>

lemma leaderboard_offset_wraps:
  "GetLeaderboard 9223372036854775809 2 rs = GetLeaderboard 1 2 rs"
proof -
  have "(9223372036854775809 - 1) * 2 = (1 - 1 :: 64 word) * 2" by code_simp
  then show ?thesis by (simp only: GetLeaderboard_def Let_def)
qed

end
