(* ===== verification/Json.thy ===== *)
theory Json
  imports Prelude
begin

text \<open>
  JSON values as the server builds and inspects them. The type mirrors the value kinds that
  \<open>nlohmann::json\<close> documents (integers that are negative or come from a signed C++ type are
  \<open>JInteger\<close>, the others \<open>JUnsigned\<close>); an object is a finite map, so the order of its keys does not
  matter. The library's parser and printer are not part of the repository: they are the parameters
  \<open>parse\<close> and \<open>dump\<close> of the definitions that use them.
\<close>

datatype json =
    JNull
  | JBool bool
  | JInteger int
  | JUnsigned nat
  | JFloat real
  | JString string
  | JArray "json list"
  | JObject "string \<Rightarrow> json option"

text \<open>An initializer list of key/value pairs.\<close>

definition json_obj :: "(string \<times> json) list \<Rightarrow> json" where
  "json_obj kvs = JObject (map_of kvs)"

text \<open>\<open>j.find(key)\<close>: \<open>None\<close> is \<open>j.end()\<close>, also when \<open>j\<close> is not an object.\<close>

fun json_find :: "json \<Rightarrow> string \<Rightarrow> json option" where
  "json_find (JObject m) k = m k"
| "json_find j k = None"

definition json_contains :: "json \<Rightarrow> string \<Rightarrow> bool" where
  "json_contains j k \<longleftrightarrow> json_find j k \<noteq> None"

text \<open>\<open>j[key] = v\<close> on an object; on null it creates the object.\<close>

fun json_set :: "string \<Rightarrow> json \<Rightarrow> json \<Rightarrow> json" where
  "json_set k v (JObject m) = JObject (m(k \<mapsto> v))"
| "json_set k v JNull = JObject [k \<mapsto> v]"
| "json_set k v j = j"

fun is_string :: "json \<Rightarrow> bool" where
  "is_string (JString s) = True"
| "is_string j = False"

fun is_object :: "json \<Rightarrow> bool" where
  "is_object (JObject m) = True"
| "is_object j = False"

fun is_number_unsigned :: "json \<Rightarrow> bool" where
  "is_number_unsigned (JUnsigned n) = True"
| "is_number_unsigned j = False"

fun is_number_integer :: "json \<Rightarrow> bool" where
  "is_number_integer (JUnsigned n) = True"
| "is_number_integer (JInteger n) = True"
| "is_number_integer j = False"

text \<open>\<open>get\<close> on a value whose kind was checked before. \<open>get<int>\<close> keeps the low 32 bits.\<close>

fun get_string :: "json \<Rightarrow> string" where
  "get_string (JString s) = s"
| "get_string j = []"

fun get_uint64 :: "json \<Rightarrow> nat" where
  "get_uint64 (JUnsigned n) = n"
| "get_uint64 j = 0"

fun get_int :: "json \<Rightarrow> int" where
  "get_int (JInteger n) = to_int32 n"
| "get_int (JUnsigned n) = to_int32 (int n)"
| "get_int j = 0"

text \<open>A member that was checked to be there.\<close>

definition json_at :: "json \<Rightarrow> string \<Rightarrow> json" where
  "json_at j k = (case json_find j k of None \<Rightarrow> JNull | Some v \<Rightarrow> v)"

lemma json_find_obj [simp]: "json_find (json_obj kvs) k = map_of kvs k"
  by (simp add: json_obj_def)

lemma json_at_obj [simp]:
  "json_at (json_obj kvs) k = (case map_of kvs k of None \<Rightarrow> JNull | Some v \<Rightarrow> v)"
  by (simp add: json_at_def)

lemma is_object_obj [simp]: "is_object (json_obj kvs)"
  by (simp add: json_obj_def)

lemma json_contains_obj [simp]: "json_contains (json_obj kvs) k \<longleftrightarrow> k \<in> fst ` set kvs"
  by (auto simp: json_contains_def map_of_eq_None_iff)

end
