(* ===== verification/Results.thy ===== *)
theory Results
  imports Rating Json
begin

text \<open>
  \<open>ResultRepository\<close> and \<open>ResultService\<close>: a result is stored once per session id, and only a result
  that was stored reaches the ratings. \<open>ledger_inv\<close> says what that adds up to: the wins and the
  losses of all players each sum to the number of stored results.
\<close>

record SessionParticipant =
  sp_user_id :: int
  sp_username :: string

record MatchResultRecord =
  mr_session_id :: string
  mr_user1_id :: int
  mr_user2_id :: int
  mr_winner_user_id :: int
  mr_tick_count :: int
  mr_ended_at :: time_ns
  mr_snapshot :: json

record ResultRepository =
  records :: "(string, MatchResultRecord) umap"

record ResultService =
  repository :: ResultRepository
  rating_service :: RatingService

definition make_ResultService :: ResultService where
  "make_ResultService = \<lparr>repository = \<lparr>records = []\<rparr>, rating_service = make_RatingService\<rparr>"

definition SaveIfAbsent :: "MatchResultRecord \<Rightarrow> ResultRepository \<Rightarrow> bool \<times> ResultRepository" where
  "SaveIfAbsent r repo =
     (if um_find (records repo) (mr_session_id r) \<noteq> None then (False, repo)
      else (True, repo\<lparr>records := um_put (mr_session_id r) r (records repo)\<rparr>))"

definition ResultExists :: "string \<Rightarrow> ResultRepository \<Rightarrow> bool" where
  "ResultExists sid repo \<longleftrightarrow> um_find (records repo) sid \<noteq> None"

definition ResultCount :: "ResultRepository \<Rightarrow> nat" where
  "ResultCount repo = um_size (records repo)"

definition FindResult :: "string \<Rightarrow> ResultRepository \<Rightarrow> MatchResultRecord option" where
  "FindResult sid repo = um_find (records repo) sid"

definition FinalizeResult ::
  "MatchResultRecord \<Rightarrow> SessionParticipant list \<Rightarrow> ResultService \<Rightarrow> bool \<times> ResultService" where
  "FinalizeResult r participants svc =
     (let (saved, repo) = SaveIfAbsent r (repository svc); svc0 = svc\<lparr>repository := repo\<rparr>
      in if \<not> saved then (False, svc0)
         else
           (let rs1 = fold (\<lambda>p. EnsureUser (sp_user_id p) (sp_username p)) participants (rating_service svc0);
                rs2 = EnsureUser (mr_user2_id r) [] (EnsureUser (mr_user1_id r) [] rs1);
                loser = (if mr_winner_user_id r = mr_user1_id r then mr_user2_id r else mr_user1_id r);
                rs3 = snd (ApplyMatchResult (mr_winner_user_id r) loser rs2)
            in (True, svc0\<lparr>rating_service := rs3\<rparr>)))"

section \<open>Storing once\<close>

lemma SaveIfAbsent_find:
  "FindResult sid (snd (SaveIfAbsent r repo)) =
     (if sid = mr_session_id r \<and> FindResult sid repo = None then Some r else FindResult sid repo)"
  by (auto simp: SaveIfAbsent_def FindResult_def)

lemma SaveIfAbsent_fst: "fst (SaveIfAbsent r repo) \<longleftrightarrow> FindResult (mr_session_id r) repo = None"
  by (simp add: SaveIfAbsent_def FindResult_def)

lemma FinalizeResult_fst: "fst (FinalizeResult r ps svc) \<longleftrightarrow> FindResult (mr_session_id r) (repository svc) = None"
  by (simp add: FinalizeResult_def Let_def split_beta SaveIfAbsent_fst)

lemma FinalizeResult_known:
  "FindResult (mr_session_id r) (repository svc) \<noteq> None \<Longrightarrow> FinalizeResult r ps svc = (False, svc)"
  by (auto simp: FinalizeResult_def SaveIfAbsent_def FindResult_def)

lemma repository_FinalizeResult:
  "repository (snd (FinalizeResult r ps svc)) = snd (SaveIfAbsent r (repository svc))"
  by (simp add: FinalizeResult_def Let_def split_beta)

lemma FinalizeResult_find:
  "FindResult sid (repository (snd (FinalizeResult r ps svc))) =
     (if sid = mr_session_id r \<and> FindResult sid (repository svc) = None then Some r
      else FindResult sid (repository svc))"
  by (simp add: repository_FinalizeResult SaveIfAbsent_find)

section \<open>The ledger\<close>

definition ledger_inv :: "ResultService \<Rightarrow> bool" where
  "ledger_inv svc \<longleftrightarrow> um_wf (records (repository svc)) \<and> um_wf (rating_entries (rating_service svc)) \<and>
     (\<forall>sid r. FindResult sid (repository svc) = Some r \<longrightarrow> mr_session_id r = sid) \<and>
     total_of re_wins (rating_entries (rating_service svc)) = int (ResultCount (repository svc)) \<and>
     total_of re_losses (rating_entries (rating_service svc)) = int (ResultCount (repository svc))"

lemma ledger_inv_init: "ledger_inv make_ResultService"
  by (simp add: ledger_inv_def make_ResultService_def make_RatingService_def total_of_def ResultCount_def
      um_size_def FindResult_def)

lemma fold_EnsureUser:
  "um_wf (rating_entries rs) \<Longrightarrow>
     (let rs' = fold (\<lambda>p. EnsureUser (sp_user_id p) (sp_username p)) ps rs
      in um_wf (rating_entries rs')
         \<and> total_of re_wins (rating_entries rs') = total_of re_wins (rating_entries rs)
         \<and> total_of re_losses (rating_entries rs') = total_of re_losses (rating_entries rs))"
proof (induction ps arbitrary: rs)
  case (Cons p ps)
  have "um_wf (rating_entries (EnsureUser (sp_user_id p) (sp_username p) rs))"
    using Cons.prems by (rule EnsureUser_wf)
  then show ?case using Cons.IH Cons.prems by (simp add: Let_def totals_EnsureUser)
qed (simp add: Let_def)

lemma ledger_EnsureUser [inv_intros]:
  "ledger_inv svc \<Longrightarrow> ledger_inv (svc\<lparr>rating_service := EnsureUser u name (rating_service svc)\<rparr>)"
  by (simp add: ledger_inv_def EnsureUser_wf totals_EnsureUser)

lemma FinalizeResult_ledger [inv_intros]:
  assumes "ledger_inv svc"
  shows "ledger_inv (snd (FinalizeResult r ps svc))"
proof (cases "FindResult (mr_session_id r) (repository svc)")
  case (Some old)
  with assms show ?thesis by (simp add: FinalizeResult_known)
next
  case None
  let ?rs1 = "fold (\<lambda>p. EnsureUser (sp_user_id p) (sp_username p)) ps (rating_service svc)"
  let ?rs2 = "EnsureUser (mr_user2_id r) [] (EnsureUser (mr_user1_id r) [] ?rs1)"
  have wf: "um_wf (rating_entries (rating_service svc))" using assms by (simp add: ledger_inv_def)
  note ensured = fold_EnsureUser [OF wf, of ps, unfolded Let_def]
  have size: "ResultCount (snd (SaveIfAbsent r (repository svc))) = Suc (ResultCount (repository svc))"
    using None by (simp add: SaveIfAbsent_def ResultCount_def FindResult_def um_size_put_new)
  have wf1: "um_wf (rating_entries (EnsureUser (mr_user1_id r) [] ?rs1))"
    and wf2: "um_wf (rating_entries ?rs2)"
    using ensured by (simp_all add: EnsureUser_wf)
  have rat: "rating_service (snd (FinalizeResult r ps svc)) = snd (ApplyMatchResult (mr_winner_user_id r)
      (if mr_winner_user_id r = mr_user1_id r then mr_user2_id r else mr_user1_id r) ?rs2)"
    using None by (simp add: FinalizeResult_def Let_def split_beta SaveIfAbsent_fst)
  have "um_wf (records (snd (SaveIfAbsent r (repository svc))))"
    using assms by (auto simp: ledger_inv_def SaveIfAbsent_def)
  then show ?thesis
    using assms ensured
    by (auto simp: ledger_inv_def repository_FinalizeResult size rat SaveIfAbsent_find
        ApplyMatchResult_wf totals_ApplyMatchResult totals_EnsureUser wf1 wf2 split: if_splits)
qed

section \<open>Ratings after a result\<close>

lemma rating_fold_EnsureUser:
  "re_rating (entry_at (rating_entries (fold (\<lambda>p. EnsureUser (sp_user_id p) (sp_username p)) ps rs)) u)
     = re_rating (entry_at (rating_entries rs) u)"
  "re_wins (entry_at (rating_entries (fold (\<lambda>p. EnsureUser (sp_user_id p) (sp_username p)) ps rs)) u)
     = re_wins (entry_at (rating_entries rs) u)"
  "re_losses (entry_at (rating_entries (fold (\<lambda>p. EnsureUser (sp_user_id p) (sp_username p)) ps rs)) u)
     = re_losses (entry_at (rating_entries rs) u)"
  by (induction ps arbitrary: rs) (simp_all add: entry_at_EnsureUser)

text \<open>The effect of a stored result on every player's numbers.\<close>

lemma FinalizeResult_ratings:
  fixes ps :: "SessionParticipant list" and svc :: ResultService
  assumes "FindResult (mr_session_id r) (repository svc) = None"
    and "mr_user1_id r \<noteq> mr_user2_id r"
    and "w = mr_winner_user_id r" "w = mr_user1_id r \<or> w = mr_user2_id r"
    and "l = (if w = mr_user1_id r then mr_user2_id r else mr_user1_id r)"
  defines "old \<equiv> entry_at (rating_entries (rating_service svc))"
    and "new \<equiv> entry_at (rating_entries (rating_service (snd (FinalizeResult r ps svc))))"
  shows "re_rating (new w) = ApplyElo (re_rating (old w)) (ExpectedScore (re_rating (old w)) (re_rating (old l))) 1"
    "re_rating (new l) = ApplyElo (re_rating (old l)) (ExpectedScore (re_rating (old l)) (re_rating (old w))) 0"
    "re_wins (new w) = re_wins (old w) + 1" "re_losses (new w) = re_losses (old w)"
    "re_losses (new l) = re_losses (old l) + 1" "re_wins (new l) = re_wins (old l)"
    "u \<noteq> w \<Longrightarrow> u \<noteq> l \<Longrightarrow> re_rating (new u) = re_rating (old u)"
  using assms(1-5)
  by (auto simp: old_def new_def FinalizeResult_def Let_def split_beta SaveIfAbsent_fst
      ApplyMatchResult_entries entry_at_EnsureUser rating_fold_EnsureUser)

section \<open>Properties\<close>

abbreviation report_all :: "(MatchResultRecord \<times> SessionParticipant list) list \<Rightarrow> ResultService \<Rightarrow> ResultService" where
  "report_all rps svc \<equiv> fold (\<lambda>(r, ps) svc. snd (FinalizeResult r ps svc)) rps svc"

lemma report_all_ledger: "ledger_inv svc \<Longrightarrow> ledger_inv (report_all rps svc)"
  by (induction rps arbitrary: svc) (auto simp: FinalizeResult_ledger)

lemma report_all_known:
  "FindResult sid (repository (report_all rps svc)) \<noteq> None \<longleftrightarrow>
     sid \<in> mr_session_id ` fst ` set rps \<or> FindResult sid (repository svc) \<noteq> None"
  by (induction rps arbitrary: svc) (auto simp: FinalizeResult_find simp del: not_None_eq split: if_splits)

lemma ResultCount_card:
  "um_wf (records repo) \<Longrightarrow> ResultCount repo = card {sid. FindResult sid repo \<noteq> None}"
proof -
  assume wf: "um_wf (records repo)"
  have "{sid. FindResult sid repo \<noteq> None} = set (map fst (records repo))"
    by (auto simp: FindResult_def um_find_None_iff simp del: not_None_eq)
  then have "card {sid. FindResult sid repo \<noteq> None} = card (set (map fst (records repo)))" by simp
  also have "\<dots> = length (map fst (records repo))"
    using wf unfolding um_wf_def by (rule distinct_card)
  finally show ?thesis by (simp add: ResultCount_def um_size_def)
qed

text \<open>C15: Whatever results are reported, in whatever order and however often: the number of stored
  results, the sum of all wins and the sum of all losses are each the number of different session ids
  reported. A match counts once.\<close>

theorem match_counts_once:
  "let svc = report_all rps make_ResultService; n = int (card (mr_session_id ` fst ` set rps))
   in int (ResultCount (repository svc)) = n \<and>
      total_of re_wins (rating_entries (rating_service svc)) = n \<and>
      total_of re_losses (rating_entries (rating_service svc)) = n"
proof -
  let ?svc = "report_all rps make_ResultService"
  have inv: "ledger_inv ?svc" by (rule report_all_ledger [OF ledger_inv_init])
  have "FindResult sid (repository make_ResultService) = None" for sid
    by (simp add: make_ResultService_def FindResult_def)
  then have "{sid. FindResult sid (repository ?svc) \<noteq> None} = mr_session_id ` fst ` set rps"
    by (simp only: report_all_known) simp
  with inv ResultCount_card [of "repository ?svc"] show ?thesis by (simp add: ledger_inv_def Let_def)
qed

text \<open>A result that is stored applies one Elo update: the winner and the other player get the new
  ratings of the formula and one win or one loss; a third player's rating stays.\<close>

lemma stored_result_rates_players:
  assumes "FindResult (mr_session_id r) (repository svc) = None"
    and "mr_user1_id r \<noteq> mr_user2_id r" "mr_winner_user_id r \<in> {mr_user1_id r, mr_user2_id r}"
    and "l = (if mr_winner_user_id r = mr_user1_id r then mr_user2_id r else mr_user1_id r)"
    and "old = rating_entries (rating_service svc)"
    and "new = rating_entries (rating_service (snd (FinalizeResult r ps svc)))"
  shows "let w = mr_winner_user_id r; rw = re_rating (entry_at old w); rl = re_rating (entry_at old l)
    in re_rating (entry_at new w) = ApplyElo rw (ExpectedScore rw rl) 1 \<and>
       re_rating (entry_at new l) = ApplyElo rl (ExpectedScore rl rw) 0 \<and>
       re_wins (entry_at new w) = re_wins (entry_at old w) + 1 \<and>
       re_losses (entry_at new l) = re_losses (entry_at old l) + 1 \<and>
       (u = w \<or> u = l \<or> re_rating (entry_at new u) = re_rating (entry_at old u))"
proof -
  have "mr_winner_user_id r = mr_user1_id r \<or> mr_winner_user_id r = mr_user2_id r" using assms(3) by simp
  note eff = FinalizeResult_ratings [OF assms(1,2) refl this assms(4), where ps = ps]
  show ?thesis using eff(1,2,3,5) eff(7) [where u = u] by (auto simp: assms(5,6) Let_def)
qed

lemma stored_result_rates_players_sample:
  "let w = 1; rw = 1000; rl = 1000; new = rating_entries (rating_service (snd (FinalizeResult
       \<lparr>mr_session_id = ''session-1'', mr_user1_id = 1, mr_user2_id = 2, mr_winner_user_id = 1, mr_tick_count = 5,
        mr_ended_at = 0, mr_snapshot = JNull\<rparr> [] make_ResultService)))
   in re_rating (entry_at new w) = ApplyElo rw (ExpectedScore rw rl) 1 \<and>
      re_rating (entry_at new 2) = ApplyElo rl (ExpectedScore rl rw) 0"
  using stored_result_rates_players [where r = "\<lparr>mr_session_id = ''session-1'', mr_user1_id = 1, mr_user2_id = 2,
      mr_winner_user_id = 1, mr_tick_count = 5, mr_ended_at = 0, mr_snapshot = JNull\<rparr>"
      and svc = make_ResultService and l = 2 and ps = "[]" and u = 3]
  by (simp add: FindResult_def make_ResultService_def make_RatingService_def entry_at_def initial_rating_def Let_def)

end
