(* ===== verification/MatchQueue.thy ===== *)
theory MatchQueue
  imports Auth Results
begin

text \<open>
  \<open>MatchQueueService\<close> of \<open>match_queue.cpp\<close>: joining, cancelling, timeouts and pairing. The list nodes
  that \<open>user_index_\<close> points to have addresses (\<open>next_node\<close> is the next unused one). What the queue
  calls acts on a state \<open>'s\<close> of its own: \<open>in_session\<close> (\<open>SessionManager::IsUserInSession\<close>), \<open>create\<close>
  (\<open>SessionManager::CreateSession\<close>) and \<open>send_error\<close> (\<open>RealtimeCoordinator::SendErrorToUser\<close>); the
  locale \<open>session_directory\<close> states what the queue relies on.
\<close>

record QueueEntry =
  qe_user :: AuthUser
  expires_at :: time_ns
  joined_at :: time_ns

record MatchQueueService =
  default_timeout :: int
  queue :: "(nat \<times> QueueEntry) list"
  user_index :: "(int, nat) umap"
  next_node :: nat
  timer_active :: bool
  timer_waiting :: bool

definition make_MatchQueueService :: "int \<Rightarrow> MatchQueueService" where
  "make_MatchQueueService timeout = \<lparr>default_timeout = timeout, queue = [], user_index = [],
     next_node = 0, timer_active = False, timer_waiting = False\<rparr>"

section \<open>Operations\<close>

definition EnsureTimer :: "MatchQueueService \<Rightarrow> MatchQueueService" where
  "EnsureTimer q = (if timer_active q then q else q\<lparr>timer_active := True, timer_waiting := True\<rparr>)"

definition Join ::
  "(int \<Rightarrow> bool) \<Rightarrow> time_ns \<Rightarrow> AuthUser \<Rightarrow> int \<Rightarrow> MatchQueueService \<Rightarrow> api_error option \<times> MatchQueueService"
where
  "Join in_session now user timeout q =
     (if um_find (user_index q) (au_user_id user) \<noteq> None \<or> in_session (au_user_id user)
      then (Some (''queue_duplicate'', msg_queue_duplicate), q)
      else
        (let t = (if timeout \<le> 0 then default_timeout q else timeout);
             entry = \<lparr>qe_user = user, expires_at = add_seconds now t, joined_at = now\<rparr>;
             q1 = q\<lparr>queue := queue q @ [(next_node q, entry)],
                    user_index := um_put (au_user_id user) (next_node q) (user_index q),
                    next_node := next_node q + 1\<rparr>
         in (None, EnsureTimer q1)))"

definition erase_node :: "nat \<Rightarrow> (nat \<times> QueueEntry) list \<Rightarrow> (nat \<times> QueueEntry) list" where
  "erase_node node es = filter (\<lambda>(m, e). m \<noteq> node) es"

definition Cancel :: "int \<Rightarrow> MatchQueueService \<Rightarrow> api_error option \<times> MatchQueueService" where
  "Cancel user_id q =
     (case um_find (user_index q) user_id of
        None \<Rightarrow> (Some (''queue_not_found'', msg_queue_not_found), q)
      | Some node \<Rightarrow>
          (None, q\<lparr>queue := erase_node node (queue q), user_index := um_erase user_id (user_index q)\<rparr>))"

definition QueueLength :: "MatchQueueService \<Rightarrow> nat" where
  "QueueLength q = length (queue q)"

abbreviation entry_user :: "QueueEntry \<Rightarrow> int" where
  "entry_user e \<equiv> au_user_id (qe_user e)"

definition participant_of :: "QueueEntry \<Rightarrow> SessionParticipant" where
  "participant_of e = \<lparr>sp_user_id = entry_user e, sp_username = au_username (qe_user e)\<rparr>"

function PairIfPossible ::
  "(SessionParticipant list \<Rightarrow> 's \<Rightarrow> 's) \<Rightarrow> MatchQueueService \<Rightarrow> 's \<Rightarrow> MatchQueueService \<times> 's" where
  "PairIfPossible create q s =
     (case queue q of
        (n1, first) # (n2, second) # rest \<Rightarrow>
          PairIfPossible create
            (q\<lparr>queue := rest,
               user_index := um_erase (entry_user second) (um_erase (entry_user first) (user_index q))\<rparr>)
            (create [participant_of first, participant_of second] s)
      | _ \<Rightarrow> (q, s))"
  by pat_completeness auto
termination
  by (relation "measure (\<lambda>(create, q, s). length (queue q))") auto

declare PairIfPossible.simps [simp del]

text \<open>The loop of \<open>HandleTimeouts\<close> from an iterator on: the nodes that are left to visit.\<close>

fun timeouts_from ::
  "(int \<Rightarrow> string \<Rightarrow> string \<Rightarrow> 's \<Rightarrow> 's) \<Rightarrow> time_ns \<Rightarrow> (nat \<times> QueueEntry) list \<Rightarrow> MatchQueueService \<Rightarrow> 's
     \<Rightarrow> MatchQueueService \<times> 's" where
  "timeouts_from send_error now [] q s = (q, s)"
| "timeouts_from send_error now ((node, e) # rest) q s =
     (if expires_at e > now then timeouts_from send_error now rest q s
      else timeouts_from send_error now rest
             (q\<lparr>queue := erase_node node (queue q),
                user_index := um_erase (entry_user e) (user_index q)\<rparr>)
             (send_error (entry_user e) ''queue_timeout'' msg_queue_timeout s))"

definition HandleTimeouts ::
  "(int \<Rightarrow> string \<Rightarrow> string \<Rightarrow> 's \<Rightarrow> 's) \<Rightarrow> time_ns \<Rightarrow> MatchQueueService \<Rightarrow> 's \<Rightarrow> MatchQueueService \<times> 's" where
  "HandleTimeouts send_error now q s = timeouts_from send_error now (queue q) q s"

text \<open>The timer handler; \<open>failed\<close> is its error code.\<close>

definition OnTick ::
  "(SessionParticipant list \<Rightarrow> 's \<Rightarrow> 's) \<Rightarrow> (int \<Rightarrow> string \<Rightarrow> string \<Rightarrow> 's \<Rightarrow> 's) \<Rightarrow> bool \<Rightarrow> time_ns
     \<Rightarrow> MatchQueueService \<Rightarrow> 's \<Rightarrow> MatchQueueService \<times> 's" where
  "OnTick create send_error failed now q s =
     (let q0 = q\<lparr>timer_waiting := False\<rparr>
      in if failed then (q0, s)
         else
           (let (q1, s1) = HandleTimeouts send_error now q0 s;
                (q2, s2) = PairIfPossible create q1 s1
            in (q2\<lparr>timer_waiting := True\<rparr>, s2)))"

section \<open>Invariant\<close>

text \<open>The index points to exactly the nodes of the queue, and no user is in the queue twice.\<close>

definition queue_users :: "MatchQueueService \<Rightarrow> int list" where
  "queue_users q = map (\<lambda>(n, e). entry_user e) (queue q)"

definition mq_inv :: "MatchQueueService \<Rightarrow> bool" where
  "mq_inv q \<longleftrightarrow>
     distinct (map fst (queue q)) \<and> (\<forall>n \<in> set (map fst (queue q)). n < next_node q) \<and>
     distinct (queue_users q) \<and> um_wf (user_index q) \<and>
     (\<forall>u n. um_find (user_index q) u = Some n \<longleftrightarrow> (\<exists>e. (n, e) \<in> set (queue q) \<and> entry_user e = u)) \<and>
     (timer_active q \<or> queue q = [])"

lemma mq_inv_init: "mq_inv (make_MatchQueueService t)"
  by (simp add: mq_inv_def make_MatchQueueService_def queue_users_def)

lemma mq_inv_index: "mq_inv q \<Longrightarrow> um_find (user_index q) u \<noteq> None \<longleftrightarrow> u \<in> set (queue_users q)"
proof -
  assume "mq_inv q"
  then have "um_find (user_index q) u = Some n \<longleftrightarrow> (\<exists>e. (n, e) \<in> set (queue q) \<and> entry_user e = u)" for n
    by (simp add: mq_inv_def)
  then show ?thesis by (auto simp: queue_users_def)
qed

lemma EnsureTimer_proj [simp]:
  "queue (EnsureTimer q) = queue q" "user_index (EnsureTimer q) = user_index q"
  "next_node (EnsureTimer q) = next_node q" "timer_active (EnsureTimer q)"
  "default_timeout (EnsureTimer q) = default_timeout q"
  by (simp_all add: EnsureTimer_def)

lemma Join_result:
  "Join in_session now user timeout q =
     (if um_find (user_index q) (au_user_id user) \<noteq> None \<or> in_session (au_user_id user)
      then (Some (''queue_duplicate'', msg_queue_duplicate), q)
      else (None, snd (Join in_session now user timeout q)))"
  by (simp add: Join_def Let_def)

lemma Join_queue:
  assumes "fst (Join in_session now user timeout q) = None"
  shows "queue (snd (Join in_session now user timeout q)) = queue q @
    [(next_node q, \<lparr>qe_user = user,
       expires_at = add_seconds now (if timeout \<le> 0 then default_timeout q else timeout), joined_at = now\<rparr>)]"
  using assms by (simp add: Join_def Let_def split: if_splits)

lemma Join_inv [inv_intros]:
  assumes "mq_inv q"
  shows "mq_inv (snd (Join in_session now user timeout q))"
proof (cases "um_find (user_index q) (au_user_id user) \<noteq> None \<or> in_session (au_user_id user)")
  case True
  with assms show ?thesis by (simp add: Join_def)
next
  case False
  then have none: "um_find (user_index q) (au_user_id user) = None" by simp
  with mq_inv_index [OF assms, of "au_user_id user"] have new: "au_user_id user \<notin> set (queue_users q)" by simp
  then have other: "\<forall>n e. (n, e) \<in> set (queue q) \<longrightarrow> entry_user e \<noteq> au_user_id user"
    by (force simp: queue_users_def)
  have fresh: "(next_node q, e) \<notin> set (queue q)" for e using assms by (force simp: mq_inv_def)
  show ?thesis
    using assms none new fresh False other
    by (auto simp: Join_def Let_def mq_inv_def queue_users_def less_SucI)
qed

lemma queue_user_unique:
  assumes "mq_inv q" "(n, e) \<in> set (queue q)" "(n', e') \<in> set (queue q)"
  shows "entry_user e = entry_user e' \<longleftrightarrow> n = n'" "n = n' \<Longrightarrow> e = e'"
proof -
  have ids: "distinct (map fst (queue q))" using assms(1) by (simp add: mq_inv_def)
  show ee: "n = n' \<Longrightarrow> e = e'" using ids assms(2,3) by (metis eq_key_imp_eq_value)
  have "um_find (user_index q) (entry_user e) = Some n" "um_find (user_index q) (entry_user e') = Some n'"
    using assms by (auto simp: mq_inv_def)
  then show "entry_user e = entry_user e' \<longleftrightarrow> n = n'" using ee by auto
qed

lemma queue_user_node:
  assumes "mq_inv q" "(n, e) \<in> set (queue q)"
  shows "\<forall>n' e'. (n', e') \<in> set (queue q) \<longrightarrow> (entry_user e' = entry_user e \<longleftrightarrow> n' = n) \<and> (n' = n \<longrightarrow> e' = e)"
  using queue_user_unique [OF assms] by metis

text \<open>Removing one node with its index entry.\<close>

lemma erase_inv:
  assumes inv: "mq_inv q" and mem: "(n, e) \<in> set (queue q)"
  shows "mq_inv (q\<lparr>queue := erase_node n (queue q), user_index := um_erase (entry_user e) (user_index q)\<rparr>)"
proof -
  have "distinct (queue_users (q\<lparr>queue := erase_node n (queue q), user_index := X\<rparr>))" for X
    using inv by (simp add: mq_inv_def queue_users_def erase_node_def distinct_map inj_on_def)
  moreover have "distinct (map fst (erase_node n (queue q)))"
    using inv by (simp add: mq_inv_def erase_node_def distinct_map inj_on_def)
  moreover have "um_find (um_erase (entry_user e) (user_index q)) u = Some m \<longleftrightarrow>
      (\<exists>e'. (m, e') \<in> set (erase_node n (queue q)) \<and> entry_user e' = u)" for u m
    using inv queue_user_node [OF inv mem] by (auto simp: mq_inv_def erase_node_def)
  moreover have "\<forall>m \<in> set (map fst (erase_node n (queue q))). m < next_node q"
    using inv by (auto simp: mq_inv_def erase_node_def)
  moreover have "timer_active q" using inv mem by (auto simp: mq_inv_def)
  ultimately show ?thesis using inv by (simp add: mq_inv_def)
qed

lemma Cancel_inv [inv_intros]:
  assumes inv: "mq_inv q"
  shows "mq_inv (snd (Cancel u q))"
proof (cases "um_find (user_index q) u")
  case None
  with inv show ?thesis by (simp add: Cancel_def)
next
  case (Some n)
  then obtain e where "(n, e) \<in> set (queue q)" "entry_user e = u" using inv by (auto simp: mq_inv_def)
  with erase_inv [OF inv this(1)] Some show ?thesis by (simp add: Cancel_def)
qed

lemma Cancel_users:
  assumes inv: "mq_inv q"
  shows "queue_users (snd (Cancel u q)) = filter (\<lambda>v. v \<noteq> u) (queue_users q)"
proof (cases "um_find (user_index q) u")
  case None
  with mq_inv_index [OF inv, of u] have "u \<notin> set (queue_users q)" by simp
  with None show ?thesis by (auto simp: Cancel_def intro!: filter_True [symmetric])
next
  case (Some n)
  then obtain e where e: "(n, e) \<in> set (queue q)" "entry_user e = u" using inv by (auto simp: mq_inv_def)
  have "filter (\<lambda>(m, e). m \<noteq> n) (queue q) = filter (\<lambda>(m, e). entry_user e \<noteq> u) (queue q)"
    using queue_user_node [OF inv e(1)] e(2) by (intro filter_cong refl) auto
  with Some show ?thesis
    by (simp add: Cancel_def queue_users_def erase_node_def filter_map comp_def case_prod_unfold)
qed

section \<open>Timeouts\<close>

abbreviation expired :: "time_ns \<Rightarrow> QueueEntry \<Rightarrow> bool" where
  "expired now e \<equiv> \<not> expires_at e > now"

abbreviation timeout_error ::
  "(int \<Rightarrow> string \<Rightarrow> string \<Rightarrow> 's \<Rightarrow> 's) \<Rightarrow> nat \<times> QueueEntry \<Rightarrow> 's \<Rightarrow> 's" where
  "timeout_error send_error ne \<equiv> send_error (entry_user (snd ne)) ''queue_timeout'' msg_queue_timeout"

lemma erase_node_middle:
  "distinct (map fst (kept @ (n, e) # rest)) \<Longrightarrow> erase_node n (kept @ (n, e) # rest) = kept @ rest"
proof -
  assume "distinct (map fst (kept @ (n, e) # rest))"
  then have "\<forall>x \<in> set kept. fst x \<noteq> n" "\<forall>x \<in> set rest. fst x \<noteq> n" by (auto simp: image_iff)
  then have "filter (\<lambda>(m, e). m \<noteq> n) kept = kept" "filter (\<lambda>(m, e). m \<noteq> n) rest = rest"
    by (auto intro!: filter_True)
  then show ?thesis by (simp add: erase_node_def)
qed

lemma timeouts_from_spec:
  assumes "mq_inv q" "queue q = kept @ es"
  shows "let (q', s') = timeouts_from send_error now es q s
    in mq_inv q' \<and> queue q' = kept @ filter (\<lambda>ne. \<not> expired now (snd ne)) es
      \<and> s' = fold (timeout_error send_error) (filter (\<lambda>ne. expired now (snd ne)) es) s
      \<and> default_timeout q' = default_timeout q"
  using assms
proof (induction es arbitrary: kept q s)
  case (Cons ne es)
  obtain n e where ne: "ne = (n, e)" by (cases ne)
  show ?case
  proof (cases "expired now e")
    case False
    with Cons.prems ne Cons.IH [of q "kept @ [ne]" s] show ?thesis by (simp add: split_beta Let_def)
  next
    case True
    let ?q = "q\<lparr>queue := erase_node n (queue q), user_index := um_erase (entry_user e) (user_index q)\<rparr>"
    have "distinct (map fst (queue q))" using Cons.prems(1) by (simp add: mq_inv_def)
    then have "erase_node n (queue q) = kept @ es"
      using Cons.prems(2) ne by (simp add: erase_node_middle)
    moreover have "mq_inv ?q" using Cons.prems ne by (intro erase_inv) simp_all
    ultimately show ?thesis
      using True ne Cons.IH [of ?q kept "timeout_error send_error ne s"] by (simp add: split_beta Let_def)
  qed
qed simp

lemma HandleTimeouts_spec:
  assumes "mq_inv q"
  shows "mq_inv (fst (HandleTimeouts send_error now q s))"
    "queue (fst (HandleTimeouts send_error now q s)) = filter (\<lambda>ne. \<not> expired now (snd ne)) (queue q)"
    "snd (HandleTimeouts send_error now q s) =
       fold (timeout_error send_error) (filter (\<lambda>ne. expired now (snd ne)) (queue q)) s"
  using timeouts_from_spec [OF assms, of "[]" "queue q" send_error now s]
  by (simp_all add: HandleTimeouts_def split_beta Let_def)

section \<open>Pairing\<close>

text \<open>First come, first served: the queue is cut into consecutive pairs.\<close>

fun pairs :: "(nat \<times> QueueEntry) list \<Rightarrow> SessionParticipant list list" where
  "pairs (a # b # rest) = [participant_of (snd a), participant_of (snd b)] # pairs rest"
| "pairs es = []"

fun unpaired :: "(nat \<times> QueueEntry) list \<Rightarrow> (nat \<times> QueueEntry) list" where
  "unpaired (a # b # rest) = unpaired rest"
| "unpaired es = es"

lemma unpaired_length: "length (unpaired es) \<le> 1"
  by (induction es rule: unpaired.induct) simp_all

lemma unpaired_set: "set (unpaired es) \<subseteq> set es"
  by (induction es rule: unpaired.induct) auto

lemma two_erased:
  assumes inv: "mq_inv q" and queue: "queue q = (n1, first) # (n2, second) # rest"
  shows "mq_inv (q\<lparr>queue := rest,
    user_index := um_erase (entry_user second) (um_erase (entry_user first) (user_index q))\<rparr>)"
proof -
  let ?q = "q\<lparr>queue := erase_node n1 (queue q), user_index := um_erase (entry_user first) (user_index q)\<rparr>"
  have ids: "distinct (map fst (queue q))" using inv by (simp add: mq_inv_def)
  have q1: "queue ?q = (n2, second) # rest"
    using erase_node_middle [of "[]" n1 first "(n2, second) # rest"] ids queue by simp
  have "mq_inv ?q" using inv by (rule erase_inv) (simp add: queue)
  then have "mq_inv (?q\<lparr>queue := erase_node n2 (queue ?q), user_index := um_erase (entry_user second) (user_index ?q)\<rparr>)"
    by (rule erase_inv) (simp add: q1)
  moreover have "erase_node n2 (queue ?q) = rest"
    using erase_node_middle [of "[]" n2 second rest] ids queue q1 by simp
  ultimately show ?thesis by simp
qed

lemma PairIfPossible_spec:
  assumes "mq_inv q"
  shows "mq_inv (fst (PairIfPossible create q s)) \<and>
    queue (fst (PairIfPossible create q s)) = unpaired (queue q) \<and>
    snd (PairIfPossible create q s) = fold create (pairs (queue q)) s"
  using assms
proof (induction "queue q" arbitrary: q s rule: pairs.induct)
  case (1 a b rest)
  obtain n1 first n2 second where ab: "a = (n1, first)" "b = (n2, second)" by (cases a, cases b)
  then have q: "queue q = (n1, first) # (n2, second) # rest" using "1.hyps"(2) by simp
  let ?q = "q\<lparr>queue := rest,
    user_index := um_erase (entry_user second) (um_erase (entry_user first) (user_index q))\<rparr>"
  let ?s = "create [participant_of first, participant_of second] s"
  have step: "PairIfPossible create q s = PairIfPossible create ?q ?s"
    by (subst PairIfPossible.simps) (simp add: q)
  have "mq_inv ?q" using two_erased [OF "1.prems" q] .
  from "1.hyps"(1) [of ?q ?s, OF _ this] show ?case unfolding step by (simp add: q)
next
  case "2_1"
  then have "queue q = []" by simp
  then have "PairIfPossible create q s = (q, s)" by (subst PairIfPossible.simps) simp
  with "2_1" show ?case by simp
next
  case "2_2"
  then obtain v where q: "queue q = [v]" by (metis (no_types))
  then have "PairIfPossible create q s = (q, s)" by (subst PairIfPossible.simps) simp
  with q "2_2.prems" show ?case by simp
qed

lemma OnTick_spec:
  fixes q :: MatchQueueService and s :: 's and now :: time_ns
  assumes "mq_inv q"
  defines "waiting \<equiv> filter (\<lambda>ne. \<not> expired now (snd ne)) (queue q)"
  shows "mq_inv (fst (OnTick create send_error False now q s))"
    "queue (fst (OnTick create send_error False now q s)) = unpaired waiting"
    "snd (OnTick create send_error False now q s) =
       fold create (pairs waiting)
         (fold (timeout_error send_error) (filter (\<lambda>ne. expired now (snd ne)) (queue q)) s)"
    "timer_waiting (fst (OnTick create send_error False now q s))"
proof -
  let ?q0 = "q\<lparr>timer_waiting := False\<rparr>"
  let ?h = "HandleTimeouts send_error now ?q0 s"
  have inv0: "mq_inv ?q0" using assms(1) by (simp add: mq_inv_def queue_users_def)
  note h = HandleTimeouts_spec [OF inv0, of send_error now s]
  note p = PairIfPossible_spec [OF h(1), of create "snd ?h"]
  have inv_wait: "mq_inv (q1\<lparr>timer_waiting := b\<rparr>) = mq_inv q1" for q1 b
    by (simp add: mq_inv_def queue_users_def)
  show "mq_inv (fst (OnTick create send_error False now q s))"
    using p by (simp add: OnTick_def Let_def split_beta inv_wait)
  show "queue (fst (OnTick create send_error False now q s)) = unpaired waiting"
    using p h by (simp add: OnTick_def Let_def split_beta waiting_def)
  show "snd (OnTick create send_error False now q s) = fold create (pairs waiting)
         (fold (timeout_error send_error) (filter (\<lambda>ne. expired now (snd ne)) (queue q)) s)"
    using p h by (simp add: OnTick_def Let_def split_beta waiting_def)
  show "timer_waiting (fst (OnTick create send_error False now q s))"
    by (simp add: OnTick_def Let_def split_beta)
qed

lemma OnTick_inv [inv_intros]: "mq_inv q \<Longrightarrow> mq_inv (fst (OnTick create send_error failed now q s))"
  using OnTick_spec(1) [of q create send_error now s]
  by (cases failed) (simp_all add: OnTick_def mq_inv_def queue_users_def)

section \<open>Interface to the sessions\<close>

text \<open>What the queue relies on: creating a session puts exactly its participants in a session,
  sending an error puts nobody in or out of one, and both keep the provider's invariant \<open>good\<close>.
  \<open>free\<close> is what the queue promises of the participants it passes.\<close>

definition free :: "('s \<Rightarrow> int \<Rightarrow> bool) \<Rightarrow> SessionParticipant list \<Rightarrow> 's \<Rightarrow> bool" where
  "free in_session ps s \<longleftrightarrow> length ps = 2 \<and> distinct (map sp_user_id ps) \<and>
     (\<forall>u \<in> set (map sp_user_id ps). \<not> in_session s u)"

abbreviation entries_users :: "(nat \<times> QueueEntry) list \<Rightarrow> int list" where
  "entries_users es \<equiv> map (\<lambda>(n, e). entry_user e) es"

text \<open>Nobody waits in the queue while in a session.\<close>

definition apart :: "('s \<Rightarrow> int \<Rightarrow> bool) \<Rightarrow> MatchQueueService \<Rightarrow> 's \<Rightarrow> bool" where
  "apart in_session q s \<longleftrightarrow> (\<forall>u \<in> set (queue_users q). \<not> in_session s u)"

locale session_directory =
  fixes in_session :: "'s \<Rightarrow> int \<Rightarrow> bool"
    and create :: "SessionParticipant list \<Rightarrow> 's \<Rightarrow> 's"
    and send_error :: "int \<Rightarrow> string \<Rightarrow> string \<Rightarrow> 's \<Rightarrow> 's"
    and good :: "'s \<Rightarrow> bool"
  assumes create_in: "good s \<Longrightarrow> free in_session ps s \<Longrightarrow>
      in_session (create ps s) u \<longleftrightarrow> u \<in> set (map sp_user_id ps) \<or> in_session s u"
    and create_good: "good s \<Longrightarrow> free in_session ps s \<Longrightarrow> good (create ps s)"
    and error_in: "good s \<Longrightarrow> in_session (send_error v c m s) u \<longleftrightarrow> in_session s u"
    and error_good: "good s \<Longrightarrow> good (send_error v c m s)"
begin

lemma errors_in:
  "good s \<Longrightarrow> good (fold (timeout_error send_error) es s) \<and>
     (\<forall>u. in_session (fold (timeout_error send_error) es s) u \<longleftrightarrow> in_session s u)"
  by (induction es arbitrary: s) (simp_all add: error_good error_in)

lemma creates_in:
  "good s \<Longrightarrow> distinct (entries_users es) \<Longrightarrow> (\<forall>u \<in> set (entries_users es). \<not> in_session s u) \<Longrightarrow>
     good (fold create (pairs es) s) \<and>
     (\<forall>u. in_session (fold create (pairs es) s) u \<longleftrightarrow>
        in_session s u \<or> (u \<in> set (entries_users es) \<and> u \<notin> set (entries_users (unpaired es))))"
proof (induction es arbitrary: s rule: pairs.induct)
  case (1 a b rest)
  let ?ps = "[participant_of (snd a), participant_of (snd b)]"
  have free: "free in_session ?ps s"
    using 1 by (auto simp: free_def participant_of_def split_beta)
  have "\<forall>u \<in> set (entries_users rest). \<not> in_session (create ?ps s) u"
    using 1 create_in [OF "1.prems"(1) free] by (auto simp: participant_of_def split_beta image_iff)
  from "1.IH" [OF create_good [OF "1.prems"(1) free] _ this] "1.prems"(2)
  have ih: "good (fold create (pairs rest) (create ?ps s))"
    "\<forall>u. in_session (fold create (pairs rest) (create ?ps s)) u \<longleftrightarrow> in_session (create ?ps s) u \<or>
       (u \<in> set (entries_users rest) \<and> u \<notin> set (entries_users (unpaired rest)))" by simp_all
  have "u \<notin> set (entries_users (unpaired rest))" if "u = entry_user (snd a) \<or> u = entry_user (snd b)" for u
  proof -
    have "u \<notin> set (entries_users rest)" using that "1.prems"(2) by (auto simp: split_beta image_iff)
    moreover have "set (entries_users (unpaired rest)) \<subseteq> set (entries_users rest)"
      using unpaired_set [of rest] by auto
    ultimately show ?thesis by blast
  qed
  then show ?case
    using ih create_in [OF "1.prems"(1) free] by (auto simp: participant_of_def split_beta)
qed simp_all

lemma tick_apart:
  assumes "mq_inv q" "good s" "apart in_session q s"
  shows "good (snd (OnTick create send_error failed now q s))"
    and "apart in_session (fst (OnTick create send_error failed now q s)) (snd (OnTick create send_error failed now q s))"
proof -
  let ?waiting = "filter (\<lambda>ne. \<not> expired now (snd ne)) (queue q)"
  let ?gone = "filter (\<lambda>ne. expired now (snd ne)) (queue q)"
  let ?s1 = "fold (timeout_error send_error) ?gone s"
  have s1: "good ?s1" "\<forall>u. in_session ?s1 u \<longleftrightarrow> in_session s u"
    using errors_in [OF assms(2), of ?gone] by blast+
  have "distinct (entries_users ?waiting)"
    using assms(1) by (auto simp: mq_inv_def queue_users_def distinct_map_filter)
  moreover have "\<forall>u \<in> set (entries_users ?waiting). \<not> in_session ?s1 u"
    using assms(3) s1(2) by (force simp: apart_def queue_users_def)
  ultimately have s2: "good (fold create (pairs ?waiting) ?s1)"
    "\<forall>u. in_session (fold create (pairs ?waiting) ?s1) u \<longleftrightarrow> in_session ?s1 u \<or>
       (u \<in> set (entries_users ?waiting) \<and> u \<notin> set (entries_users (unpaired ?waiting)))"
    and w: "\<forall>u \<in> set (entries_users ?waiting). \<not> in_session ?s1 u"
    using creates_in [OF s1(1), of ?waiting] by blast+
  note spec = OnTick_spec [where create = create and send_error = send_error and now = now and s = s, OF assms(1)]
  show "good (snd (OnTick create send_error failed now q s))"
    using s2(1) spec(3) assms(2) by (cases failed) (simp_all add: OnTick_def)
  show "apart in_session (fst (OnTick create send_error failed now q s)) (snd (OnTick create send_error failed now q s))"
  proof (cases failed)
    case True
    with assms(3) show ?thesis by (simp add: OnTick_def apart_def queue_users_def)
  next
    case False
    have "\<not> in_session (fold create (pairs ?waiting) ?s1) u"
      if "u \<in> set (entries_users (unpaired ?waiting))" for u
      using that s2(2) w unpaired_set [of ?waiting] by force
    with False spec show ?thesis by (simp add: apart_def queue_users_def)
  qed
qed

lemma join_apart:
  assumes "apart in_session q s"
  shows "apart in_session (snd (Join (in_session s) now user timeout q)) s"
  using assms by (auto simp: apart_def Join_def Let_def queue_users_def)

lemma cancel_apart:
  assumes "mq_inv q" "apart in_session q s"
  shows "apart in_session (snd (Cancel u q)) s"
  using assms by (auto simp: apart_def Cancel_users)

end

section \<open>Properties\<close>

text \<open>C14: The queue is first come, first served. A timer tick first drops exactly the entries whose time
  is up, each with one timeout error to its user, in queue order; it then pairs the others two by two
  in the order they joined and creates a session for each pair; at most one user is left, the timer
  is armed again, and the index still points to exactly the nodes of the queue.\<close>

theorem queue_tick_first_come_first_served:
  assumes "mq_inv q"
  shows "let (q', s') = OnTick create send_error False now q s;
      late = filter (\<lambda>ne. expires_at (snd ne) \<le> now) (queue q);
      waiting = filter (\<lambda>ne. now < expires_at (snd ne)) (queue q)
    in queue q' = unpaired waiting \<and> length (queue q') \<le> 1 \<and> timer_waiting q' \<and> mq_inv q' \<and>
       s' = fold create (pairs waiting)
         (fold (\<lambda>ne. send_error (entry_user (snd ne)) ''queue_timeout'' msg_queue_timeout) late s)"
  using OnTick_spec [OF assms, where create = create and send_error = send_error and now = now and s = s]
    unpaired_length
  by (simp add: split_beta Let_def not_less [symmetric])

definition sample_queue :: MatchQueueService where
  "sample_queue = (let j = (\<lambda>u t q. snd (Join (\<lambda>u. False) 0 \<lparr>au_user_id = u, au_username = ''p''\<rparr> t q))
     in j 4 9 (j 3 9 (j 2 1 (j 1 9 (make_MatchQueueService 10)))))"

theorem queue_tick_first_come_first_served_witness:
  "let (q', s') = OnTick (\<lambda>ps s. s @ [map sp_user_id ps]) (\<lambda>u c m s. s @ [[u]]) False 5000000000 sample_queue []
   in map (\<lambda>(n, e). entry_user e) (queue q') = [4] \<and> s' = [[2], [1, 3]]"
proof -
  have inv: "mq_inv sample_queue" by (simp add: sample_queue_def Let_def Join_inv mq_inv_init)
  have "queue sample_queue = [(0, \<lparr>qe_user = \<lparr>au_user_id = 1, au_username = ''p''\<rparr>, expires_at = 9000000000, joined_at = 0\<rparr>),
      (1, \<lparr>qe_user = \<lparr>au_user_id = 2, au_username = ''p''\<rparr>, expires_at = 1000000000, joined_at = 0\<rparr>),
      (2, \<lparr>qe_user = \<lparr>au_user_id = 3, au_username = ''p''\<rparr>, expires_at = 9000000000, joined_at = 0\<rparr>),
      (3, \<lparr>qe_user = \<lparr>au_user_id = 4, au_username = ''p''\<rparr>, expires_at = 9000000000, joined_at = 0\<rparr>)]"
    by (simp add: sample_queue_def Join_def Let_def make_MatchQueueService_def EnsureTimer_def
        add_seconds_exact ns_per_second_def)
  with queue_tick_first_come_first_served [OF inv, of "\<lambda>ps s. s @ [map sp_user_id ps]" "\<lambda>u c m s. s @ [[u]]" 5000000000 "[]"]
  show ?thesis by (simp add: split_beta Let_def participant_of_def)
qed

end
