(* ===== verification/Simulation.thy ===== *)
theory Simulation
  imports Json
begin

text \<open>
  The authoritative tick simulation of \<open>simulation.cpp\<close>: inputs are validated, queued for a future
  tick, and applied in the order of their sequence numbers when the tick comes. The lemmas show the
  exact effect of a tick, the invariant that bounds every position, and that the order in which
  inputs of different users arrive does not matter.
\<close>

record InputCommand =
  in_user_id :: int
  in_target_tick :: int
  in_delta :: int
  in_sequence :: nat

record ValidationResult =
  accepted_input :: bool
  reject_reason :: string

record PlayerState =
  position :: int
  ps_last_sequence :: nat

record UserTracker =
  tr_last_sequence :: nat
  per_tick_count :: "(int, int) umap"

record Simulation =
  current_tick :: int
  inputs_by_tick :: "(int, InputCommand list) umap"
  trackers :: "(int, UserTracker) umap"
  players :: "(int, PlayerState) umap"

definition kMaxInputsPerTickPerUser :: int where
  "kMaxInputsPerTickPerUser = 4"

definition kMaxDelta :: int where
  "kMaxDelta = 3"

definition kTickInterval :: time_ns where
  "kTickInterval = 1000000000 div 60"

definition make_Simulation :: Simulation where
  "make_Simulation = \<lparr>current_tick = 0, inputs_by_tick = [], trackers = [], players = []\<rparr>"

section \<open>Operations\<close>

text \<open>\<open>ValidateInput\<close>: the reason of a rejection, \<open>None\<close> when the input is valid.\<close>

definition ValidateInput :: "InputCommand \<Rightarrow> Simulation \<Rightarrow> string option" where
  "ValidateInput input s =
     (if in_target_tick input \<le> current_tick s then Some ''stale_tick''
      else if in_delta input > kMaxDelta \<or> in_delta input < - kMaxDelta
        then Some ''delta_out_of_range''
      else if in_sequence input = 0 then Some ''sequence_required''
      else case um_find (trackers s) (in_user_id input) of
        None \<Rightarrow> None
      | Some tr \<Rightarrow>
          if in_sequence input \<le> tr_last_sequence tr then Some ''sequence_not_monotonic''
          else (case um_find (per_tick_count tr) (in_target_tick input) of
              None \<Rightarrow> None
            | Some n \<Rightarrow> if n \<ge> kMaxInputsPerTickPerUser then Some ''tick_input_limit'' else None))"

definition tracker_of :: "Simulation \<Rightarrow> int \<Rightarrow> UserTracker" where
  "tracker_of s u = (case um_find (trackers s) u of
     None \<Rightarrow> \<lparr>tr_last_sequence = 0, per_tick_count = []\<rparr> | Some tr \<Rightarrow> tr)"

definition queue_at :: "Simulation \<Rightarrow> int \<Rightarrow> InputCommand list" where
  "queue_at s t = (case um_find (inputs_by_tick s) t of None \<Rightarrow> [] | Some es \<Rightarrow> es)"

definition count_at :: "UserTracker \<Rightarrow> int \<Rightarrow> int" where
  "count_at tr t = (case um_find (per_tick_count tr) t of None \<Rightarrow> 0 | Some n \<Rightarrow> n)"

definition EnqueueInput :: "InputCommand \<Rightarrow> Simulation \<Rightarrow> ValidationResult \<times> Simulation" where
  "EnqueueInput input s =
     (case ValidateInput input s of
        Some reason \<Rightarrow> (\<lparr>accepted_input = False, reject_reason = reason\<rparr>, s)
      | None \<Rightarrow>
          (let tr = tracker_of s (in_user_id input); t = in_target_tick input;
               tr' = tr\<lparr>tr_last_sequence := in_sequence input,
                        per_tick_count := um_put t (count_at tr t + 1) (per_tick_count tr)\<rparr>
           in (\<lparr>accepted_input = True, reject_reason = []\<rparr>,
               s\<lparr>trackers := um_put (in_user_id input) tr' (trackers s),
                 inputs_by_tick := um_put t (queue_at s t @ [input]) (inputs_by_tick s)\<rparr>)))"

definition AddPlayer :: "int \<Rightarrow> Simulation \<Rightarrow> Simulation" where
  "AddPlayer u s =
     (if um_find (players s) u = None
      then s\<lparr>players := um_put u \<lparr>position = 0, ps_last_sequence = 0\<rparr> (players s)\<rparr> else s)"

definition player_of :: "(int, PlayerState) umap \<Rightarrow> int \<Rightarrow> PlayerState" where
  "player_of ps u = (case um_find ps u of
     None \<Rightarrow> \<lparr>position = 0, ps_last_sequence = 0\<rparr> | Some p \<Rightarrow> p)"

definition ApplyEvent :: "InputCommand \<Rightarrow> (int, PlayerState) umap \<Rightarrow> (int, PlayerState) umap" where
  "ApplyEvent input ps =
     (let p = player_of ps (in_user_id input)
      in um_put (in_user_id input)
           (p\<lparr>position := position p + in_delta input, ps_last_sequence := in_sequence input\<rparr>) ps)"

text \<open>The comparison of \<open>std::stable_sort\<close> in \<open>TickOnce\<close>, and the linear order of its keys.\<close>

definition input_before :: "InputCommand \<Rightarrow> InputCommand \<Rightarrow> bool" where
  "input_before lhs rhs \<longleftrightarrow>
     (if in_sequence lhs = in_sequence rhs then in_user_id lhs < in_user_id rhs else in_sequence lhs < in_sequence rhs)"

datatype input_key = InputKey (ik_sequence: nat) (ik_user: int)

instantiation input_key :: linorder
begin

definition less_eq_input_key :: "input_key \<Rightarrow> input_key \<Rightarrow> bool" where
  "less_eq_input_key a b \<longleftrightarrow>
     (if ik_sequence a = ik_sequence b then ik_user a \<le> ik_user b else ik_sequence a < ik_sequence b)"

definition less_input_key :: "input_key \<Rightarrow> input_key \<Rightarrow> bool" where
  "less_input_key a b \<longleftrightarrow>
     (if ik_sequence a = ik_sequence b then ik_user a < ik_user b else ik_sequence a < ik_sequence b)"

instance
proof
  fix a b c :: input_key
  show "(a < b) = (a \<le> b \<and> \<not> b \<le> a)" by (auto simp: less_eq_input_key_def less_input_key_def)
  show "a \<le> a" by (simp add: less_eq_input_key_def)
  show "a \<le> b \<Longrightarrow> b \<le> c \<Longrightarrow> a \<le> c" by (auto simp: less_eq_input_key_def split: if_splits)
  show "a \<le> b \<Longrightarrow> b \<le> a \<Longrightarrow> a = b"
    by (auto simp: less_eq_input_key_def input_key.expand split: if_splits)
  show "a \<le> b \<or> b \<le> a" by (auto simp: less_eq_input_key_def)
qed

end

definition input_key :: "InputCommand \<Rightarrow> input_key" where
  "input_key i = InputKey (in_sequence i) (in_user_id i)"

lemma input_before_key: "input_before a b \<longleftrightarrow> input_key a < input_key b"
  by (simp add: input_before_def input_key_def less_input_key_def)

lemma inputs_sorted: "sorted_wrt (\<lambda>a b. \<not> input_before b a) (sort_key input_key es)"
proof -
  have "sorted_wrt (\<lambda>a b. input_key a \<le> input_key b) (sort_key input_key es)"
    using sorted_sort_key [of input_key es] by (simp only: sorted_map)
  then show ?thesis by (simp only: input_before_key not_less)
qed

definition TickOnce :: "Simulation \<Rightarrow> Simulation" where
  "TickOnce s =
     (let s1 = s\<lparr>current_tick := current_tick s + 1\<rparr>
      in case um_find (inputs_by_tick s1) (current_tick s1) of
           None \<Rightarrow> s1
         | Some events \<Rightarrow>
             s1\<lparr>players := fold ApplyEvent (sort_key input_key events) (players s1),
                inputs_by_tick := um_erase (current_tick s1) (inputs_by_tick s1)\<rparr>)"

text \<open>\<open>RunForDuration\<close> on a clock. \<open>sleep_until\<close> returns at once if the time has come, and else not before it.
  A delay is the time that passes besides: it comes before each reading of the clock in the loop and stands for
  the work since the last reading and for a late wake-up. \<open>None\<close>: the list of delays ends before the loop does.\<close>

definition sleep_until :: "time_ns \<Rightarrow> time_ns \<Rightarrow> time_ns" where
  "sleep_until wake_up clock = max clock wake_up"

fun run_loop ::
  "time_ns \<Rightarrow> time_ns \<Rightarrow> time_ns \<Rightarrow> time_ns \<Rightarrow> nat list \<Rightarrow> Simulation \<Rightarrow> Simulation option" where
  "run_loop start duration next_tick clock [] s = None"
| "run_loop start duration next_tick clock (delay # delays) s =
     (let now = clock + int delay
      in if now - start < duration
         then run_loop start duration (next_tick + kTickInterval) (sleep_until next_tick now) delays (TickOnce s)
         else Some s)"

definition RunForDuration :: "int \<Rightarrow> time_ns \<Rightarrow> nat list \<Rightarrow> Simulation \<Rightarrow> Simulation option" where
  "RunForDuration duration_ms start delays s =
     run_loop start (duration_ms * ns_per_ms) (start + kTickInterval) start delays s"

definition player_json :: "int \<Rightarrow> PlayerState \<Rightarrow> json" where
  "player_json u p = json_obj [(''userId'', JInteger u), (''position'', JInteger (position p)),
     (''lastSequence'', JUnsigned (ps_last_sequence p))]"

definition players_json :: "(int, PlayerState) umap \<Rightarrow> json list" where
  "players_json ps = map (\<lambda>u. player_json u (player_of ps u)) (sort (map fst ps))"

definition Snapshot :: "Simulation \<Rightarrow> json" where
  "Snapshot s = json_obj [(''tick'', JInteger (current_tick s)),
     (''players'', JArray (players_json (players s)))]"

section \<open>Validation\<close>

text \<open>A user without a tracker validates like one whose tracker is empty.\<close>

lemma ValidateInput_tracker:
  "ValidateInput input s =
     (if in_target_tick input \<le> current_tick s then Some ''stale_tick''
      else if \<not> (- 3 \<le> in_delta input \<and> in_delta input \<le> 3) then Some ''delta_out_of_range''
      else if in_sequence input = 0 then Some ''sequence_required''
      else if in_sequence input \<le> tr_last_sequence (tracker_of s (in_user_id input))
        then Some ''sequence_not_monotonic''
      else if 4 \<le> count_at (tracker_of s (in_user_id input)) (in_target_tick input)
        then Some ''tick_input_limit''
      else None)"
  by (auto simp: ValidateInput_def tracker_of_def count_at_def kMaxDelta_def
      kMaxInputsPerTickPerUser_def split: option.splits)

lemma EnqueueInput_tick [simp]: "current_tick (snd (EnqueueInput i s)) = current_tick s"
  by (simp add: EnqueueInput_def Let_def split: option.splits)

lemma EnqueueInput_players [simp]: "players (snd (EnqueueInput i s)) = players s"
  by (simp add: EnqueueInput_def Let_def split: option.splits)

lemma EnqueueInput_rejected:
  "ValidateInput i s = Some r \<Longrightarrow>
     EnqueueInput i s = (\<lparr>accepted_input = False, reject_reason = r\<rparr>, s)"
  by (simp add: EnqueueInput_def)

lemma accepted_iff: "accepted_input (fst (EnqueueInput i s)) \<longleftrightarrow> ValidateInput i s = None"
  by (simp add: EnqueueInput_def Let_def split: option.splits)

lemma queue_at_Enqueue:
  "ValidateInput i s = None \<Longrightarrow> queue_at (snd (EnqueueInput i s)) t =
     (if t = in_target_tick i then queue_at s t @ [i] else queue_at s t)"
  by (simp add: EnqueueInput_def Let_def queue_at_def [of "s\<lparr>trackers := _, inputs_by_tick := _\<rparr>"])
    (simp add: queue_at_def)

lemma tracker_of_Enqueue:
  "ValidateInput i s = None \<Longrightarrow> tracker_of (snd (EnqueueInput i s)) u =
     (if u = in_user_id i
      then (tracker_of s u)\<lparr>tr_last_sequence := in_sequence i,
        per_tick_count := um_put (in_target_tick i) (count_at (tracker_of s u) (in_target_tick i) + 1)
          (per_tick_count (tracker_of s u))\<rparr>
      else tracker_of s u)"
  by (simp add: EnqueueInput_def Let_def tracker_of_def [of "s\<lparr>trackers := _, inputs_by_tick := _\<rparr>"])
    (simp add: tracker_of_def)

lemma count_at_put [simp]:
  "count_at (tr\<lparr>tr_last_sequence := n, per_tick_count := um_put t c m\<rparr>) t' =
     (if t' = t then c else case um_find m t' of None \<Rightarrow> 0 | Some n \<Rightarrow> n)"
  by (simp add: count_at_def)

lemma AddPlayer_frame [simp]:
  "current_tick (AddPlayer u s) = current_tick s" "queue_at (AddPlayer u s) t = queue_at s t"
  "tracker_of (AddPlayer u s) v = tracker_of s v" "trackers (AddPlayer u s) = trackers s"
  "inputs_by_tick (AddPlayer u s) = inputs_by_tick s"
  by (simp_all add: AddPlayer_def queue_at_def tracker_of_def)

lemma player_of_AddPlayer [simp]: "player_of (players (AddPlayer u s)) v = player_of (players s) v"
  by (simp add: AddPlayer_def player_of_def)

lemma AddPlayer_find:
  "um_find (players (AddPlayer u s)) v = None \<longleftrightarrow> v \<noteq> u \<and> um_find (players s) v = None"
  by (auto simp: AddPlayer_def)

section \<open>The effect of a tick\<close>

lemma TickOnce_frame [simp]:
  "current_tick (TickOnce s) = current_tick s + 1" "trackers (TickOnce s) = trackers s"
  "tracker_of (TickOnce s) u = tracker_of s u"
  by (simp_all add: TickOnce_def Let_def tracker_of_def split: option.splits)

lemma queue_at_TickOnce: "queue_at (TickOnce s) t = (if t = current_tick s + 1 then [] else queue_at s t)"
  by (auto simp: TickOnce_def Let_def queue_at_def split: option.splits)

lemma players_TickOnce:
  "players (TickOnce s) = fold ApplyEvent (sort_key input_key (queue_at s (current_tick s + 1))) (players s)"
  by (auto simp: TickOnce_def Let_def queue_at_def split: option.splits)

lemma ApplyEvent_find:
  "um_find (ApplyEvent i ps) u =
     (if u = in_user_id i
      then Some \<lparr>position = position (player_of ps u) + in_delta i, ps_last_sequence = in_sequence i\<rparr>
      else um_find ps u)"
  by (simp add: ApplyEvent_def Let_def)

lemma ApplyEvent_wf [inv_intros]: "um_wf ps \<Longrightarrow> um_wf (ApplyEvent i ps)"
  by (simp add: ApplyEvent_def Let_def um_wf_put)

lemma fold_ApplyEvent_wf [inv_intros]: "um_wf ps \<Longrightarrow> um_wf (fold ApplyEvent es ps)"
  by (induction es arbitrary: ps) (simp_all add: ApplyEvent_wf)

abbreviation events_of :: "int \<Rightarrow> InputCommand list \<Rightarrow> InputCommand list" where
  "events_of u es \<equiv> filter (\<lambda>e. in_user_id e = u) es"

lemma fold_ApplyEvent_find:
  "um_find (fold ApplyEvent es ps) u =
     (if events_of u es = [] then um_find ps u
      else Some \<lparr>position = position (player_of ps u) + (\<Sum>e\<leftarrow>events_of u es. in_delta e),
                 ps_last_sequence = in_sequence (last (events_of u es))\<rparr>)"
proof (induction es arbitrary: ps)
  case (Cons e es)
  have "player_of (ApplyEvent e ps) u = (if u = in_user_id e
      then \<lparr>position = position (player_of ps u) + in_delta e, ps_last_sequence = in_sequence e\<rparr>
      else player_of ps u)"
    by (simp add: player_of_def [of "ApplyEvent e ps"] ApplyEvent_find) (simp add: player_of_def)
  then show ?case by (simp add: Cons.IH ApplyEvent_find)
qed simp

lemma sum_list_sort_key_filter:
  "(\<Sum>e\<leftarrow>filter P (sort_key f es). g e) = (\<Sum>e\<leftarrow>filter P es. (g e :: int))"
proof -
  have "mset (map g (filter P (sort_key f es))) = mset (map g (filter P es))" by simp
  then have "sum_mset (mset (map g (filter P (sort_key f es)))) = sum_mset (mset (map g (filter P es)))"
    by (rule arg_cong)
  then show ?thesis by (simp only: sum_mset_sum_list)
qed

lemma filter_sort_key_empty: "filter P (sort_key f es) = [] \<longleftrightarrow> filter P es = []"
  by (simp add: filter_empty_conv)

lemma TickOnce_player:
  "um_find (players (TickOnce s)) u =
     (let es = queue_at s (current_tick s + 1)
      in if events_of u es = [] then um_find (players s) u
         else Some \<lparr>position = position (player_of (players s) u) + (\<Sum>e\<leftarrow>events_of u es. in_delta e),
                ps_last_sequence = in_sequence (last (events_of u (sort_key input_key es)))\<rparr>)"
  by (simp add: players_TickOnce fold_ApplyEvent_find sum_list_sort_key_filter filter_sort_key_empty
      Let_def)

section \<open>Invariant\<close>

text \<open>Everything queued is for a future tick, in range and counted; sequence numbers of a user never
  repeat; a position is at most 12 per tick away from the origin.\<close>

definition queue_ok :: "Simulation \<Rightarrow> int \<Rightarrow> InputCommand list \<Rightarrow> bool" where
  "queue_ok s t es \<longleftrightarrow>
     (\<forall>e \<in> set es. in_target_tick e = t \<and> \<bar>in_delta e\<bar> \<le> 3 \<and> 1 \<le> in_sequence e \<and>
        in_sequence e \<le> tr_last_sequence (tracker_of s (in_user_id e))) \<and>
     distinct (map input_key es) \<and>
     (\<forall>u. int (length (events_of u es)) = count_at (tracker_of s u) t \<and> count_at (tracker_of s u) t \<le> 4)"

definition sim_inv :: "Simulation \<Rightarrow> bool" where
  "sim_inv s \<longleftrightarrow> 0 \<le> current_tick s \<and> um_wf (players s) \<and>
     (\<forall>t > current_tick s. queue_ok s t (queue_at s t)) \<and>
     (\<forall>u. \<bar>position (player_of (players s) u)\<bar> \<le> 12 * current_tick s)"

lemma sim_inv_init: "sim_inv make_Simulation"
  by (simp add: sim_inv_def make_Simulation_def queue_ok_def queue_at_def tracker_of_def count_at_def
      player_of_def)

lemma AddPlayer_inv [inv_intros]: "sim_inv s \<Longrightarrow> sim_inv (AddPlayer u s)"
  by (simp add: sim_inv_def queue_ok_def) (simp add: AddPlayer_def um_wf_put)

lemma EnqueueInput_inv [inv_intros]:
  assumes inv: "sim_inv s"
  shows "sim_inv (snd (EnqueueInput i s))"
proof (cases "ValidateInput i s")
  case (Some r)
  with inv show ?thesis by (simp add: EnqueueInput_rejected)
next
  case None
  let ?s = "snd (EnqueueInput i s)" and ?t = "in_target_tick i" and ?u = "in_user_id i"
  have new: "- 3 \<le> in_delta i" "in_delta i \<le> 3" "1 \<le> in_sequence i"
      "tr_last_sequence (tracker_of s ?u) < in_sequence i" "count_at (tracker_of s ?u) ?t < 4"
    using None by (auto simp: ValidateInput_tracker not_le split: if_splits)
  have "queue_ok ?s t (queue_at ?s t)" if t: "t > current_tick s" for t
  proof -
    from inv t have q: "queue_ok s t (queue_at s t)" by (simp add: sim_inv_def)
    have fresh: "input_key i \<notin> input_key ` set (queue_at s t)"
      using q new(4) by (force simp: queue_ok_def input_key_def)
    have "count_at (tracker_of ?s u) t = count_at (tracker_of s u) t + (if u = ?u \<and> t = ?t then 1 else 0)" for u
      using None by (auto simp: tracker_of_Enqueue) (simp_all add: count_at_def)
    moreover have "tr_last_sequence (tracker_of s u) \<le> tr_last_sequence (tracker_of ?s u)" for u
      using None new(4) by (simp add: tracker_of_Enqueue)
    ultimately show ?thesis
      using q new fresh None
      by (auto simp: queue_ok_def queue_at_Enqueue tracker_of_Enqueue abs_le_iff intro: le_trans)
  qed
  with inv None show ?thesis by (simp add: sim_inv_def)
qed

lemma tick_displacement:
  assumes "queue_ok s t es"
  shows "\<bar>\<Sum>e\<leftarrow>events_of u es. in_delta e\<bar> \<le> 12"
proof -
  have bound: "\<bar>\<Sum>e\<leftarrow>xs. in_delta e\<bar> \<le> 3 * int (length xs)" if "\<forall>e \<in> set xs. \<bar>in_delta e\<bar> \<le> 3" for xs
    using that by (induction xs) auto
  have "\<forall>e \<in> set (events_of u es). \<bar>in_delta e\<bar> \<le> 3" using assms by (simp add: queue_ok_def)
  then have "\<bar>\<Sum>e\<leftarrow>events_of u es. in_delta e\<bar> \<le> 3 * int (length (events_of u es))" by (rule bound)
  moreover have "int (length (events_of u es)) \<le> 4" using assms by (simp add: queue_ok_def)
  ultimately show ?thesis by linarith
qed

lemma queue_ok_TickOnce: "queue_ok (TickOnce s) t es = queue_ok s t es"
  by (simp add: queue_ok_def)

lemma TickOnce_inv [inv_intros]:
  assumes inv: "sim_inv s"
  shows "sim_inv (TickOnce s)"
proof -
  let ?es = "queue_at s (current_tick s + 1)"
  have q: "queue_ok s (current_tick s + 1) ?es" using inv by (simp add: sim_inv_def)
  have "\<bar>position (player_of (players (TickOnce s)) u)\<bar> \<le> 12 * (current_tick s + 1)" for u
  proof -
    have "\<bar>position (player_of (players s) u)\<bar> \<le> 12 * current_tick s" using inv by (simp add: sim_inv_def)
    then show ?thesis using tick_displacement [OF q, of u]
      by (auto simp: player_of_def [of "players (TickOnce s)"] TickOnce_player Let_def)
        (auto simp: player_of_def)
  qed
  moreover have "queue_ok (TickOnce s) t (queue_at (TickOnce s) t)" if "t > current_tick s + 1" for t
    using inv that by (simp add: sim_inv_def queue_at_TickOnce queue_ok_TickOnce)
  moreover have "um_wf (players (TickOnce s))"
    using inv by (simp add: sim_inv_def players_TickOnce fold_ApplyEvent_wf)
  ultimately show ?thesis using inv by (simp add: sim_inv_def)
qed

section \<open>Histories\<close>

datatype sim_op = PlayerOp int | InputOp InputCommand | TickOp

fun sim_step :: "sim_op \<Rightarrow> Simulation \<Rightarrow> Simulation" where
  "sim_step (PlayerOp u) s = AddPlayer u s"
| "sim_step (InputOp i) s = snd (EnqueueInput i s)"
| "sim_step TickOp s = TickOnce s"

text \<open>The inputs of a history that were accepted, in the order in which they came.\<close>

fun accepted_in :: "sim_op list \<Rightarrow> Simulation \<Rightarrow> InputCommand list" where
  "accepted_in [] s = []"
| "accepted_in (InputOp i # ops) s =
     (if accepted_input (fst (EnqueueInput i s)) then [i] else []) @ accepted_in ops (sim_step (InputOp i) s)"
| "accepted_in (op # ops) s = accepted_in ops (sim_step op s)"

text \<open>The trackers remember the accepted inputs: the highest number of each user, and how many for each tick.\<close>

definition remembers :: "InputCommand list \<Rightarrow> Simulation \<Rightarrow> bool" where
  "remembers is s \<longleftrightarrow>
     (\<forall>u. tr_last_sequence (tracker_of s u) = Max (insert 0 (in_sequence ` set (events_of u is)))) \<and>
     (\<forall>u t. count_at (tracker_of s u) t = int (length (filter (\<lambda>e. in_target_tick e = t) (events_of u is))))"

lemma remembers_init: "remembers [] make_Simulation"
  by (simp add: remembers_def make_Simulation_def tracker_of_def count_at_def)

lemma remembers_input:
  assumes "remembers is s" "ValidateInput i s = None"
  shows "remembers (is @ [i]) (snd (EnqueueInput i s))"
proof -
  have "tr_last_sequence (tracker_of s (in_user_id i)) < in_sequence i"
    using assms(2) by (simp add: ValidateInput_tracker not_le split: if_splits)
  then have "Max (insert 0 (in_sequence ` set (events_of (in_user_id i) is))) < in_sequence i"
    using assms(1) by (simp add: remembers_def)
  then have "Max (insert 0 (in_sequence ` set (events_of (in_user_id i) (is @ [i])))) = in_sequence i"
    by (intro Max_eqI) auto
  with assms show ?thesis
    by (auto simp: remembers_def tracker_of_Enqueue) (simp_all add: count_at_def)
qed

lemma run_remembers:
  "remembers is s \<Longrightarrow> remembers (is @ accepted_in ops s) (fold sim_step ops s) \<and>
     current_tick (fold sim_step ops s) = current_tick s + int (count_list ops TickOp)"
proof (induction ops arbitrary: s "is")
  case (Cons op ops)
  show ?case
  proof (cases op)
    case (InputOp i)
    show ?thesis
    proof (cases "ValidateInput i s")
      case None
      then show ?thesis
        using Cons.IH [OF remembers_input [OF Cons.prems None]] InputOp by (simp add: accepted_iff)
    next
      case (Some r)
      then show ?thesis using Cons.IH [OF Cons.prems] InputOp by (simp add: EnqueueInput_rejected)
    qed
  next
    case (PlayerOp u)
    have "remembers is (AddPlayer u s)" using Cons.prems by (simp add: remembers_def)
    then show ?thesis using Cons.IH PlayerOp by simp
  next
    case TickOp
    have "remembers is (TickOnce s)" using Cons.prems by (simp add: remembers_def)
    then show ?thesis using Cons.IH TickOp by simp
  qed
qed simp

text \<open>A tick moves every player by the sum of the deltas queued for it by that player, and takes
  nothing else into account.\<close>

lemma tick_moves_players:
  "position (player_of (players (TickOnce s)) u) = position (player_of (players s) u)
     + (\<Sum>e\<leftarrow>events_of u (queue_at s (current_tick s + 1)). in_delta e)"
  by (simp add: player_of_def [of "players (TickOnce s)"] TickOnce_player Let_def)
    (simp add: player_of_def)

section \<open>Properties\<close>

text \<open>C31: After any history of players, inputs and ticks, an input is accepted exactly when it is for a tick
  that has not come, its delta is at most 3 either way, its sequence number is positive and above those of all
  inputs of the user that were accepted before, and fewer than four of these are for the same tick; a rejected
  input changes nothing.\<close>

theorem input_validation_exact:
  "let s = fold sim_step ops make_Simulation; mine = events_of (in_user_id i) (accepted_in ops make_Simulation)
   in (accepted_input (fst (EnqueueInput i s)) \<longleftrightarrow>
         int (count_list ops TickOp) < in_target_tick i \<and> \<bar>in_delta i\<bar> \<le> 3 \<and> 0 < in_sequence i \<and>
         list_all (\<lambda>e. in_sequence e < in_sequence i) mine \<and>
         length (filter (\<lambda>e. in_target_tick e = in_target_tick i) mine) < 4) \<and>
      (accepted_input (fst (EnqueueInput i s)) \<or> snd (EnqueueInput i s) = s)"
proof -
  let ?s = "fold sim_step ops make_Simulation" and ?mine = "events_of (in_user_id i) (accepted_in ops make_Simulation)"
  note run = run_remembers [OF remembers_init, of ops]
  have tick: "current_tick ?s = int (count_list ops TickOp)" using run by (simp add: make_Simulation_def)
  have last: "tr_last_sequence (tracker_of ?s (in_user_id i)) = Max (insert 0 (in_sequence ` set ?mine))"
    and count: "count_at (tracker_of ?s (in_user_id i)) (in_target_tick i) =
      int (length (filter (\<lambda>e. in_target_tick e = in_target_tick i) ?mine))"
    using run by (simp_all add: remembers_def)
  have "tr_last_sequence (tracker_of ?s (in_user_id i)) < in_sequence i \<longleftrightarrow>
      0 < in_sequence i \<and> list_all (\<lambda>e. in_sequence e < in_sequence i) ?mine"
    unfolding last by (subst Max_less_iff) (auto simp: list_all_iff)
  then show ?thesis
    unfolding Let_def accepted_iff ValidateInput_tracker [of i] tick count
    by (cases "ValidateInput i ?s") (auto simp: abs_le_iff not_le ValidateInput_tracker tick count EnqueueInput_rejected split: if_splits)
qed

end
