(* ===== verification/Determinism.thy ===== *)
theory Determinism
  imports Simulation
begin

text \<open>
  Determinism of the simulation. Two simulations are equivalent when nothing they will ever show
  differs: same tick, same players, same trackers, and for every future tick the same inputs in
  some order. Every operation respects the equivalence, inputs of different users commute up to it,
  and equivalent simulations have the same snapshot. So the network's interleaving of the users'
  input streams within a tick cannot be seen in any snapshot.
\<close>

definition sim_equiv :: "Simulation \<Rightarrow> Simulation \<Rightarrow> bool" where
  "sim_equiv s s' \<longleftrightarrow> current_tick s = current_tick s' \<and>
     (\<forall>t. mset (queue_at s t) = mset (queue_at s' t)) \<and>
     (\<forall>u. tr_last_sequence (tracker_of s u) = tr_last_sequence (tracker_of s' u)) \<and>
     (\<forall>u t. count_at (tracker_of s u) t = count_at (tracker_of s' u) t) \<and>
     (\<forall>u. um_find (players s) u = um_find (players s') u)"

lemma sim_equiv_refl [simp]: "sim_equiv s s"
  by (simp add: sim_equiv_def)

lemma sim_equiv_sym: "sim_equiv s s' \<Longrightarrow> sim_equiv s' s"
  by (simp add: sim_equiv_def)

lemma sim_equiv_trans: "sim_equiv s s' \<Longrightarrow> sim_equiv s' s'' \<Longrightarrow> sim_equiv s s''"
  by (simp add: sim_equiv_def)

section \<open>Operations respect the equivalence\<close>

lemma equiv_Validate: "sim_equiv s s' \<Longrightarrow> ValidateInput i s = ValidateInput i s'"
  by (simp add: sim_equiv_def ValidateInput_tracker)

lemma count_at_tracker_Enqueue:
  "ValidateInput i s = None \<Longrightarrow> count_at (tracker_of (snd (EnqueueInput i s)) u) t =
     count_at (tracker_of s u) t + (if u = in_user_id i \<and> t = in_target_tick i then 1 else 0)"
  by (auto simp: tracker_of_Enqueue) (simp_all add: count_at_def)

lemma last_tracker_Enqueue:
  "ValidateInput i s = None \<Longrightarrow> tr_last_sequence (tracker_of (snd (EnqueueInput i s)) u) =
     (if u = in_user_id i then in_sequence i else tr_last_sequence (tracker_of s u))"
  by (simp add: tracker_of_Enqueue)

lemmas Enqueue_views = queue_at_Enqueue count_at_tracker_Enqueue last_tracker_Enqueue

lemma equiv_Enqueue:
  assumes "sim_equiv s s'"
  shows "sim_equiv (snd (EnqueueInput i s)) (snd (EnqueueInput i s'))"
    and "fst (EnqueueInput i s) = fst (EnqueueInput i s')"
proof -
  note eq = equiv_Validate [OF assms, of i]
  show "sim_equiv (snd (EnqueueInput i s)) (snd (EnqueueInput i s'))"
  proof (cases "ValidateInput i s")
    case None
    then show ?thesis using assms eq by (simp add: sim_equiv_def Enqueue_views)
  next
    case (Some r)
    then show ?thesis using assms eq by (simp add: EnqueueInput_rejected)
  qed
  show "fst (EnqueueInput i s) = fst (EnqueueInput i s')"
    using eq by (simp add: EnqueueInput_def Let_def split: option.splits)
qed

lemma sort_key_unique:
  assumes "mset es = mset es'" "distinct (map f es)"
  shows "sort_key f es = sort_key f es'"
proof (rule properties_for_sort_key)
  show "mset (sort_key f es') = mset es" using assms(1) by simp
next
  fix k assume k: "k \<in> set (sort_key f es')"
  have d': "distinct (map f es')"
    using assms by (metis mset_eq_imp_distinct_iff mset_map)
  have one: "filter (\<lambda>x. f k = f x) xs = [k]" if "distinct (map f xs)" "k \<in> set xs" for xs
    using that
  proof (induction xs)
    case (Cons x xs)
    then show ?case by (cases "x = k") (auto simp: filter_empty_conv image_iff)
  qed simp
  have "k \<in> set es" using k assms(1) by (metis set_mset_mset set_sort)
  then have "filter (\<lambda>x. f k = f x) es = [k]" using assms(2) by (intro one)
  moreover have "filter (\<lambda>x. f k = f x) (sort_key f es') = [k]"
    using k d' by (intro one) (metis mset_eq_imp_distinct_iff mset_map mset_sort, simp)
  ultimately show "filter (\<lambda>x. f k = f x) (sort_key f es') = filter (\<lambda>x. f k = f x) es" by simp
qed simp

lemma equiv_TickOnce:
  assumes "sim_equiv s s'" "sim_inv s"
  shows "sim_equiv (TickOnce s) (TickOnce s')"
proof -
  let ?t = "current_tick s + 1"
  have "distinct (map input_key (queue_at s ?t))"
    using assms(2) by (simp add: sim_inv_def queue_ok_def)
  then have sorted: "sort_key input_key (queue_at s ?t) = sort_key input_key (queue_at s' ?t)"
    using assms(1) by (intro sort_key_unique) (simp_all add: sim_equiv_def)
  have tick: "current_tick s' = current_tick s" using assms(1) by (simp add: sim_equiv_def)
  have "um_find (players (TickOnce s)) u = um_find (players (TickOnce s')) u" for u
    unfolding players_TickOnce tick sorted
    using assms(1) by (simp add: fold_ApplyEvent_find player_of_def sim_equiv_def)
  then show ?thesis using assms(1) by (auto simp: sim_equiv_def queue_at_TickOnce)
qed

lemma equiv_Snapshot:
  assumes "sim_equiv s s'" "um_wf (players s)" "um_wf (players s')"
  shows "Snapshot s = Snapshot s'"
proof -
  have find: "um_find (players s) u = um_find (players s') u" for u
    using assms(1) by (simp add: sim_equiv_def)
  then have "mset (map fst (players s)) = mset (map fst (players s'))"
    using um_eq_mset [OF assms(2,3)] by simp
  then have "sort (map fst (players s)) = sort (map fst (players s'))"
    by (metis sorted_list_of_multiset_mset)
  with assms(1) find show ?thesis
    by (simp add: Snapshot_def players_json_def player_of_def sim_equiv_def)
qed

section \<open>Interleavings of input streams\<close>

definition enqueue_all :: "InputCommand list \<Rightarrow> Simulation \<Rightarrow> Simulation" where
  "enqueue_all is s = fold (\<lambda>i s. snd (EnqueueInput i s)) is s"

lemma enqueue_all_simps [simp]:
  "enqueue_all [] s = s"
  "enqueue_all (i # is) s = enqueue_all is (snd (EnqueueInput i s))"
  "enqueue_all (is @ js) s = enqueue_all js (enqueue_all is s)"
  by (simp_all add: enqueue_all_def)

lemma equiv_enqueue_all: "sim_equiv s s' \<Longrightarrow> sim_equiv (enqueue_all is s) (enqueue_all is s')"
  by (induction "is" arbitrary: s s') (simp_all add: equiv_Enqueue)

lemma enqueue_all_inv [inv_intros]: "sim_inv s \<Longrightarrow> sim_inv (enqueue_all is s)"
  by (induction "is" arbitrary: s) (simp_all add: EnqueueInput_inv)

lemma Validate_other_user:
  "in_user_id i \<noteq> in_user_id j \<Longrightarrow> ValidateInput j (snd (EnqueueInput i s)) = ValidateInput j s"
proof (cases "ValidateInput i s")
  case None
  assume "in_user_id i \<noteq> in_user_id j"
  then show ?thesis by (simp add: ValidateInput_tracker [of j] tracker_of_Enqueue [OF None])
qed (simp add: EnqueueInput_rejected)

text \<open>Inputs of different users commute; each gets the same answer in either order.\<close>

lemma Enqueue_commute:
  assumes "in_user_id i \<noteq> in_user_id j"
  shows "sim_equiv (snd (EnqueueInput j (snd (EnqueueInput i s))))
           (snd (EnqueueInput i (snd (EnqueueInput j s))))"
proof (cases "ValidateInput i s")
  case i: None
  show ?thesis
  proof (cases "ValidateInput j s")
    case j: None
    have vi: "ValidateInput i (snd (EnqueueInput j s)) = None"
      and vj: "ValidateInput j (snd (EnqueueInput i s)) = None"
      using i j assms Validate_other_user by metis+
    show ?thesis
      using assms by (auto simp: sim_equiv_def Enqueue_views [OF vi] Enqueue_views [OF vj]
          Enqueue_views [OF i] Enqueue_views [OF j])
  next
    case (Some r)
    then have "ValidateInput j (snd (EnqueueInput i s)) = Some r"
      using assms Validate_other_user by metis
    with Some show ?thesis by (simp add: EnqueueInput_rejected)
  qed
next
  case (Some r)
  then have "ValidateInput i (snd (EnqueueInput j s)) = Some r"
    using assms Validate_other_user by metis
  with Some show ?thesis by (simp add: EnqueueInput_rejected)
qed

lemma Enqueue_past:
  "\<forall>i \<in> set is. in_user_id i \<noteq> in_user_id j \<Longrightarrow>
     sim_equiv (snd (EnqueueInput j (enqueue_all is s))) (enqueue_all is (snd (EnqueueInput j s)))"
proof (induction "is" arbitrary: s)
  case (Cons i "is")
  have "sim_equiv (snd (EnqueueInput j (enqueue_all is (snd (EnqueueInput i s)))))
      (enqueue_all is (snd (EnqueueInput j (snd (EnqueueInput i s)))))"
    using Cons by simp
  moreover have "sim_equiv (enqueue_all is (snd (EnqueueInput j (snd (EnqueueInput i s)))))
      (enqueue_all is (snd (EnqueueInput i (snd (EnqueueInput j s)))))"
    using Cons.prems by (intro equiv_enqueue_all Enqueue_commute) simp
  ultimately show ?case by (simp add: sim_equiv_trans)
qed simp

text \<open>Two arrival orders of the same streams: each user's own inputs are in the same order.\<close>

definition same_streams :: "InputCommand list \<Rightarrow> InputCommand list \<Rightarrow> bool" where
  "same_streams is js \<longleftrightarrow> (\<forall>u. events_of u is = events_of u js)"

lemma same_streams_Cons:
  assumes "same_streams (i # is) js"
  obtains js1 js2 where "js = js1 @ i # js2" "\<forall>j \<in> set js1. in_user_id j \<noteq> in_user_id i"
    "same_streams is (js1 @ js2)"
proof -
  let ?u = "in_user_id i"
  have "events_of ?u js = i # events_of ?u is"
    using assms by (simp add: same_streams_def) (metis (full_types))
  then obtain js1 js2 where js: "js = js1 @ i # js2" "\<forall>j \<in> set js1. in_user_id j \<noteq> ?u"
      "events_of ?u is = events_of ?u js2"
    by (auto simp: filter_eq_Cons_iff)
  have "events_of u is = events_of u (js1 @ js2)" for u
  proof (cases "u = ?u")
    case True
    with js show ?thesis by simp
  next
    case False
    have "events_of u (i # is) = events_of u js" using assms by (simp only: same_streams_def)
    with False js(1) show ?thesis by simp
  qed
  with js show ?thesis by (intro that) (auto simp: same_streams_def)
qed

lemma same_streams_equiv:
  "same_streams is js \<Longrightarrow> sim_equiv (enqueue_all is s) (enqueue_all js s)"
proof (induction "is" arbitrary: js s)
  case Nil
  then have "js = []"
    by (cases js) (auto simp: same_streams_def split: if_splits)
  then show ?case by simp
next
  case (Cons i "is")
  obtain js1 js2 where js: "js = js1 @ i # js2" "\<forall>j \<in> set js1. in_user_id j \<noteq> in_user_id i"
    and rest: "same_streams is (js1 @ js2)"
    using Cons.prems by (rule same_streams_Cons)
  have "sim_equiv (enqueue_all is (snd (EnqueueInput i s)))
      (enqueue_all js2 (enqueue_all js1 (snd (EnqueueInput i s))))"
    using Cons.IH [OF rest] by simp
  moreover have "sim_equiv (enqueue_all js2 (enqueue_all js1 (snd (EnqueueInput i s))))
      (enqueue_all js2 (snd (EnqueueInput i (enqueue_all js1 s))))"
    by (intro equiv_enqueue_all sim_equiv_sym [OF Enqueue_past]) (use js in auto)
  ultimately show ?case using js(1) by (simp add: sim_equiv_trans)
qed

section \<open>Whole runs\<close>

text \<open>One batch of inputs, then the tick, and so on.\<close>

definition run_batches :: "InputCommand list list \<Rightarrow> Simulation \<Rightarrow> Simulation" where
  "run_batches bs s = fold (\<lambda>b s. TickOnce (enqueue_all b s)) bs s"

lemma run_batches_inv: "sim_inv s \<Longrightarrow> sim_inv (run_batches bs s)"
  unfolding run_batches_def
  by (induction bs arbitrary: s) (simp_all add: TickOnce_inv enqueue_all_inv)

lemma run_batches_equiv:
  "list_all2 same_streams bs bs' \<Longrightarrow> sim_equiv s s' \<Longrightarrow> sim_inv s \<Longrightarrow> sim_inv s' \<Longrightarrow>
     sim_equiv (run_batches bs s) (run_batches bs' s')"
  unfolding run_batches_def
proof (induction bs bs' arbitrary: s s' rule: list_all2_induct)
  case (Cons b bs b' bs')
  have "sim_equiv (enqueue_all b s) (enqueue_all b' s)"
    using Cons.hyps(1) by (rule same_streams_equiv)
  then have "sim_equiv (enqueue_all b s) (enqueue_all b' s')"
    using equiv_enqueue_all [OF Cons.prems(1)] by (rule sim_equiv_trans)
  then have "sim_equiv (TickOnce (enqueue_all b s)) (TickOnce (enqueue_all b' s'))"
    using Cons.prems(2) by (intro equiv_TickOnce enqueue_all_inv)
  then show ?case using Cons.IH Cons.prems by (simp add: TickOnce_inv enqueue_all_inv)
qed simp

section \<open>The free-running loop\<close>

text \<open>Before each tick the clock is not ahead of the schedule, and it is on schedule unless a delay was longer than
  an interval (\<open>late\<close>); so the loop ends before the delays do, and the clock and the duration bound its ticks.\<close>

lemma run_loop_ticks:
  assumes "start + int n * kTickInterval \<le> clock" "duration \<le> (int n + int (length delays) - 1) * kTickInterval"
    and "delays \<noteq> []" "n = 0 \<or> (int n - 1) * kTickInterval < duration"
    and "list_ex (\<lambda>d. kTickInterval < int d) delays \<Longrightarrow> late" "late \<or> clock = start + int n * kTickInterval"
  shows "\<exists>s' m. run_loop start duration (start + (int n + 1) * kTickInterval) clock delays s = Some s' \<and>
    s' = (TickOnce ^^ m) s \<and> (n + m = 0 \<or> (int (n + m) - 1) * kTickInterval < duration) \<and>
    (late \<or> duration \<le> (int (n + m) + 1) * kTickInterval)"
  using assms
proof (induction delays arbitrary: n clock s)
  case (Cons d ds)
  let ?now = "clock + int d" and ?next = "start + (int n + 1) * kTickInterval"
  have pos: "0 < kTickInterval" by (simp add: kTickInterval_def)
  have late: "late \<or> ?now \<le> ?next" using Cons.prems(5,6) by (auto simp: algebra_simps)
  show ?case
  proof (cases "?now - start < duration")
    case True
    then have more: "int n * kTickInterval < duration" using Cons.prems(1) by linarith
    have "ds \<noteq> []"
    proof
      assume "ds = []"
      with Cons.prems(2) more show False by simp
    qed
    moreover have "start + int (Suc n) * kTickInterval \<le> sleep_until ?next ?now" by (simp add: sleep_until_def algebra_simps)
    moreover have "late \<or> sleep_until ?next ?now = start + int (Suc n) * kTickInterval"
      using late by (auto simp: sleep_until_def algebra_simps)
    ultimately obtain s' m where m: "run_loop start duration (start + (int (Suc n) + 1) * kTickInterval) (sleep_until ?next ?now)
        ds (TickOnce s) = Some s'" "s' = (TickOnce ^^ m) (TickOnce s)"
      "(int (Suc n + m) - 1) * kTickInterval < duration" "late \<or> duration \<le> (int (Suc n + m) + 1) * kTickInterval"
      using Cons.IH [of "Suc n" "sleep_until ?next ?now" "TickOnce s"] Cons.prems(2,5) more by (auto simp: algebra_simps)
    have "?next + kTickInterval = start + (int (Suc n) + 1) * kTickInterval" by (simp add: algebra_simps)
    then have "run_loop start duration (?next + kTickInterval) (sleep_until ?next ?now) ds (TickOnce s) = Some s'"
      using m(1) by (simp only:)
    then have "run_loop start duration ?next clock (d # ds) s = Some s'" using True by (simp add: Let_def)
    moreover have "s' = (TickOnce ^^ Suc m) s" using m(2) by (simp add: funpow_swap1)
    ultimately show ?thesis using m(3,4) by (intro exI [of _ s'] exI [of _ "Suc m"]) simp
  next
    case False
    then have "late \<or> duration \<le> (int n + 1) * kTickInterval" using late by linarith
    with False Cons.prems(4) show ?thesis by (intro exI [of _ s] exI [of _ 0]) (simp add: Let_def)
  qed
qed simp

section \<open>Properties\<close>

text \<open>C13: The snapshot after any number of ticks does not depend on how the network interleaved the
  inputs of different users: if in every tick each user's own inputs arrive in the same order, the
  snapshots are equal.\<close>

theorem arrival_order_invisible:
  assumes "list_all2 same_streams bs bs'"
  shows "Snapshot (run_batches bs (fold AddPlayer us make_Simulation)) =
    Snapshot (run_batches bs' (fold AddPlayer us make_Simulation))"
proof -
  have "sim_inv s \<Longrightarrow> sim_inv (fold AddPlayer us s)" for s
    by (induction us arbitrary: s) (simp_all add: AddPlayer_inv)
  then have inv: "sim_inv (fold AddPlayer us make_Simulation)" by (simp add: sim_inv_init)
  then have "sim_equiv (run_batches bs (fold AddPlayer us make_Simulation))
      (run_batches bs' (fold AddPlayer us make_Simulation))"
    by (intro run_batches_equiv assms) simp_all
  then show ?thesis
    using run_batches_inv [OF inv] by (intro equiv_Snapshot) (simp_all add: sim_inv_def)
qed

theorem arrival_order_invisible_witness:
  "Snapshot (run_batches [[\<lparr>in_user_id = 1, in_target_tick = 1, in_delta = 3, in_sequence = 1\<rparr>,
      \<lparr>in_user_id = 2, in_target_tick = 1, in_delta = -2, in_sequence = 1\<rparr>]] (fold AddPlayer [1, 2] make_Simulation))
   = Snapshot (run_batches [[\<lparr>in_user_id = 2, in_target_tick = 1, in_delta = -2, in_sequence = 1\<rparr>,
      \<lparr>in_user_id = 1, in_target_tick = 1, in_delta = 3, in_sequence = 1\<rparr>]] (fold AddPlayer [1, 2] make_Simulation))"
  by (rule arrival_order_invisible) (simp add: same_streams_def)

text \<open>C32: Whatever inputs arrive, after \<open>n\<close> ticks no position is further than 12 per tick from the
  origin.\<close>

theorem position_bounded:
  "\<bar>position (player_of (players (run_batches bs (fold AddPlayer us make_Simulation))) u)\<bar> \<le> 12 * int (length bs)"
proof -
  have add: "sim_inv s \<Longrightarrow> sim_inv (fold AddPlayer us s) \<and> current_tick (fold AddPlayer us s) = current_tick s" for s
    by (induction us arbitrary: s) (simp_all add: AddPlayer_inv)
  have tick: "current_tick (enqueue_all b s) = current_tick s" for b s
    by (induction b arbitrary: s) simp_all
  have ticks: "current_tick (run_batches bs s) = current_tick s + int (length bs)" for s
    unfolding run_batches_def by (induction bs arbitrary: s) (simp_all add: tick)
  let ?s = "fold AddPlayer us make_Simulation"
  have "sim_inv (run_batches bs ?s)" using add [OF sim_inv_init] run_batches_inv by blast
  moreover have "current_tick (run_batches bs ?s) = int (length bs)"
    using add [OF sim_inv_init] ticks [of ?s] by (simp add: make_Simulation_def)
  ultimately show ?thesis by (simp add: sim_inv_def)
qed

text \<open>C33: The free-running loop always returns, having run some ticks and nothing else, with the pace of its
  schedule: with one delay more than tick intervals in the duration it comes to its end whatever these delays are;
  it never runs more ticks than intervals that fit into the duration, rounded up; and unless a single delay
  exceeds an interval it falls short of the duration by at most one tick, since it catches up with the schedule.\<close>

theorem run_for_duration_paced:
  assumes "duration_ms * ns_per_ms \<le> (int (length delays) - 1) * kTickInterval" "delays \<noteq> []"
  shows "\<exists>s' m. RunForDuration duration_ms start delays s = Some s' \<and> s' = (TickOnce ^^ m) s \<and>
    (m = 0 \<or> (int m - 1) * kTickInterval < duration_ms * ns_per_ms) \<and>
    (list_ex (\<lambda>d. kTickInterval < int d) delays \<or> duration_ms * ns_per_ms \<le> (int m + 1) * kTickInterval)"
  using run_loop_ticks [of start 0 start "duration_ms * ns_per_ms" delays "list_ex (\<lambda>d. kTickInterval < int d) delays" s] assms
  by (simp add: RunForDuration_def)

text \<open>The 120 milliseconds of the unit test, with delays of up to 5 milliseconds.\<close>

theorem run_for_duration_paced_witness:
  "\<exists>s' m. RunForDuration 120 7 [0, 5000000, 1000, 0, 5000000, 5000000, 0, 3, 5000000] make_Simulation = Some s' \<and>
    s' = (TickOnce ^^ m) make_Simulation \<and> 7 \<le> m \<and> m \<le> 8"
proof -
  let ?ds = "[0, 5000000, 1000, 0, 5000000, 5000000, 0, 3, 5000000] :: nat list"
  have "120 * ns_per_ms \<le> (int (length ?ds) - 1) * kTickInterval" by (simp add: ns_per_ms_def kTickInterval_def)
  from run_for_duration_paced [OF this, of 7 make_Simulation] obtain s' m where
    m: "RunForDuration 120 7 ?ds make_Simulation = Some s'" "s' = (TickOnce ^^ m) make_Simulation"
    "m = 0 \<or> (int m - 1) * kTickInterval < 120 * ns_per_ms" "120 * ns_per_ms \<le> (int m + 1) * kTickInterval"
    by (auto simp: kTickInterval_def)
  then have "7 \<le> m" "m \<le> 8" by (auto simp: kTickInterval_def ns_per_ms_def)
  with m(1,2) show ?thesis by blast
qed

end
