(* ===== verification/IsoTime.thy ===== *)
theory IsoTime
  imports Prelude
begin

text \<open>
  ISO-8601 time stamps: \<open>std::put_time(gmtime(to_time_t(tp)), "%FT%TZ")\<close>, which four source files
  use. The calendar is the proleptic Gregorian one of \<open>gmtime\<close>. A 64-bit nanosecond clock only
  reaches the years 1677 to 2262, so the year always has four digits.
\<close>

text \<open>\<open>system_clock::to_time_t\<close>: whole seconds, truncated towards zero.\<close>

definition to_time_t :: "time_ns \<Rightarrow> int" where
  "to_time_t t = (if 0 \<le> t then t div ns_per_second else - ((- t) div ns_per_second))"

definition civil_year_of_era :: "int \<Rightarrow> int" where
  "civil_year_of_era doe = (doe - doe div 1460 + doe div 36524 - doe div 146096) div 365"

text \<open>Year, month and day of a number of days since 1970-01-01, in years that start in March.\<close>

definition civil_from_days :: "int \<Rightarrow> int \<times> int \<times> int" where
  "civil_from_days days =
     (let z = days + 719468; era = z div 146097; doe = z mod 146097;
          yoe = civil_year_of_era doe;
          doy = doe - (365 * yoe + yoe div 4 - yoe div 100);
          mp = (5 * doy + 2) div 153;
          d = doy - (153 * mp + 2) div 5 + 1;
          m = (if mp < 10 then mp + 3 else mp - 9)
      in (yoe + era * 400 + (if m \<le> 2 then 1 else 0), m, d))"

definition pad2 :: "int \<Rightarrow> string" where
  "pad2 n = (let s = show_nat (nat n) in replicate (2 - length s) CHR ''0'' @ s)"

definition ToIsoString :: "time_ns \<Rightarrow> string" where
  "ToIsoString tp =
     (let tt = to_time_t tp; (y, m, d) = civil_from_days (tt div 86400); s = tt mod 86400
      in show_nat (nat y) @ ''-'' @ pad2 m @ ''-'' @ pad2 d @ ''T''
         @ pad2 (s div 3600) @ '':'' @ pad2 (s mod 3600 div 60) @ '':'' @ pad2 (s mod 60) @ ''Z'')"

lemma civil_epoch: "civil_from_days 0 = (1970, 1, 1)"
  by code_simp

lemma civil_leap_day: "civil_from_days 19782 = (2024, 2, 29)"
  by code_simp

lemma ToIsoString_epoch: "ToIsoString 0 = ''1970-01-01T00:00:00Z''"
  by code_simp

end
