(* ===== verification/SessionManager.thy ===== *)
theory SessionManager
  imports Determinism Results IsoTime Messages
begin

text \<open>
  \<open>SessionManager\<close> of \<open>session_manager.cpp\<close>: match sessions from creation to the stored result. What
  it calls is a parameter: \<open>send\<close> (\<open>RealtimeCoordinator::SendEventToUser\<close>) and \<open>finalize\<close>
  (\<open>ResultService::FinalizeResult\<close>) act on a state \<open>'s\<close> of their own; the locale \<open>event_sink\<close> states
  what the sessions rely on. A task posted to the strand of a session is a flag of its context
  (\<open>start_pending\<close>, \<open>timer_armed\<close>), so that it can run at any later moment. Contexts are shared
  objects: they live in \<open>contexts\<close> under their address, here the number of the session.
\<close>

record SessionInput =
  si_session_id :: string
  si_user_id :: int
  si_sequence :: nat
  si_target_tick :: int
  si_delta :: int

record SessionContext =
  ctx_id :: string
  participants :: "SessionParticipant list"
  participant_map :: "(int, SessionParticipant) umap"
  simulation :: Simulation
  tick_sent :: nat
  ended :: bool
  start_pending :: bool
  timer_armed :: bool

record SessionManager =
  tick_interval_ms :: int
  max_ticks :: nat
  next_session_id :: nat
  sessions :: "(string, nat) umap"
  user_to_session :: "(int, string) umap"
  contexts :: "(nat, SessionContext) umap"

definition make_SessionManager :: "int \<Rightarrow> nat \<Rightarrow> SessionManager" where
  "make_SessionManager interval ticks =
     \<lparr>tick_interval_ms = interval, max_ticks = ticks, next_session_id = 1, sessions = [],
      user_to_session = [], contexts = []\<rparr>"

section \<open>Operations\<close>

definition session_name :: "nat \<Rightarrow> string" where
  "session_name n = ''session-'' @ show_nat n"

definition put_ctx :: "nat \<Rightarrow> SessionContext \<Rightarrow> SessionManager \<Rightarrow> SessionManager" where
  "put_ctx n ctx sm = sm\<lparr>contexts := um_put n ctx (contexts sm)\<rparr>"

text \<open>\<open>CreateSession\<close>: the context with all participants, entered in the maps; \<open>StartSession\<close> is
  posted to its strand.\<close>

definition CreateSession :: "SessionParticipant list \<Rightarrow> SessionManager \<Rightarrow> string \<times> SessionManager" where
  "CreateSession ps sm =
     (let n = next_session_id sm; sid = session_name n;
          ctx = \<lparr>ctx_id = sid, participants = ps,
            participant_map = fold (\<lambda>p. um_put (sp_user_id p) p) ps [],
            simulation = fold (\<lambda>p. AddPlayer (sp_user_id p)) ps make_Simulation,
            tick_sent = 0, ended = False, start_pending = True, timer_armed = False\<rparr>
      in (sid, (put_ctx n ctx sm)\<lparr>next_session_id := n + 1,
            user_to_session := fold (\<lambda>p. um_put (sp_user_id p) sid) ps (user_to_session sm),
            sessions := um_put sid n (sessions sm)\<rparr>))"

definition IsUserInSession :: "int \<Rightarrow> SessionManager \<Rightarrow> bool" where
  "IsUserInSession u sm \<longleftrightarrow> um_find (user_to_session sm) u \<noteq> None"

definition ActiveSessionCount :: "SessionManager \<Rightarrow> nat" where
  "ActiveSessionCount sm = um_size (sessions sm)"

text \<open>\<open>SubmitInput\<close> in its two parts: the lookup under the lock, and the task on the strand of the
  session, which may run after other tasks of that strand.\<close>

definition SubmitLookup :: "SessionInput \<Rightarrow> SessionManager \<Rightarrow> api_error + nat" where
  "SubmitLookup input sm =
     (case um_find (user_to_session sm) (si_user_id input) of
        None \<Rightarrow> Inl (''session_not_found'', msg_session_not_found)
      | Some sid \<Rightarrow>
          (case um_find (sessions sm) sid of
             None \<Rightarrow> Inl (''session_not_found'', msg_session_not_found)
           | Some n \<Rightarrow> Inr n))"

definition command_of :: "SessionInput \<Rightarrow> InputCommand" where
  "command_of input = \<lparr>in_user_id = si_user_id input, in_target_tick = si_target_tick input,
     in_delta = si_delta input, in_sequence = si_sequence input\<rparr>"

definition SubmitOnStrand ::
  "SessionInput \<Rightarrow> SessionContext \<Rightarrow> api_error option \<times> SessionContext" where
  "SubmitOnStrand input ctx =
     (if ended ctx then (Some (''session_closed'', msg_session_closed), ctx)
      else if um_find (participant_map ctx) (si_user_id input) = None
      then (Some (''not_participant'', msg_not_participant), ctx)
      else
        (let (validation, sim) = EnqueueInput (command_of input) (simulation ctx);
             ctx1 = ctx\<lparr>simulation := sim\<rparr>
         in if \<not> accepted_input validation
            then (Some (''input_invalid'', reject_reason validation), ctx1)
            else (None, ctx1)))"

text \<open>The task runs on the context that the lookup found; the handle of the task keeps it alive, so it
  is always there.\<close>

definition RunInput :: "nat \<Rightarrow> SessionInput \<Rightarrow> SessionManager \<Rightarrow> api_error option \<times> SessionManager" where
  "RunInput n input sm =
     (case um_find (contexts sm) n of
        None \<Rightarrow> (Some (''session_not_found'', msg_session_not_found), sm)
      | Some ctx \<Rightarrow> (let (e, ctx1) = SubmitOnStrand input ctx in (e, put_ctx n ctx1 sm)))"

definition SubmitInput :: "SessionInput \<Rightarrow> SessionManager \<Rightarrow> api_error option \<times> SessionManager" where
  "SubmitInput input sm =
     (case SubmitLookup input sm of Inl e \<Rightarrow> (Some e, sm) | Inr n \<Rightarrow> RunInput n input sm)"

fun json_elements :: "json \<Rightarrow> json list" where
  "json_elements (JArray js) = js"
| "json_elements j = []"

definition BuildStatePayload :: "Simulation \<Rightarrow> json" where
  "BuildStatePayload sim =
     (let snapshot = Snapshot sim
      in json_obj [(''tick'', json_at snapshot ''tick''),
           (''players'', JArray (json_elements (json_at snapshot ''players'')))])"

definition BroadcastToParticipants ::
  "(int \<Rightarrow> string \<Rightarrow> json \<Rightarrow> 's \<Rightarrow> 's) \<Rightarrow> SessionContext \<Rightarrow> string \<Rightarrow> json \<Rightarrow> 's \<Rightarrow> 's" where
  "BroadcastToParticipants send ctx event payload s =
     fold (\<lambda>p. send (sp_user_id p) event payload) (participants ctx) s"

definition ScheduleTick :: "SessionContext \<Rightarrow> SessionContext" where
  "ScheduleTick ctx = ctx\<lparr>timer_armed := True\<rparr>"

definition created_payload :: "time_ns \<Rightarrow> SessionContext \<Rightarrow> json" where
  "created_payload now ctx = json_obj [(''sessionId'', JString (ctx_id ctx)),
     (''createdAt'', JString (ToIsoString now)),
     (''participants'', JArray (map (\<lambda>p. json_obj [(''userId'', JInteger (sp_user_id p)),
        (''username'', JString (sp_username p))]) (participants ctx)))]"

definition started_payload :: "int \<Rightarrow> SessionContext \<Rightarrow> json" where
  "started_payload interval ctx = json_obj [(''sessionId'', JString (ctx_id ctx)),
     (''tick'', JInteger 0), (''tickIntervalMs'', JInteger interval),
     (''state'', BuildStatePayload (simulation ctx))]"

definition StartSession ::
  "(int \<Rightarrow> string \<Rightarrow> json \<Rightarrow> 's \<Rightarrow> 's) \<Rightarrow> int \<Rightarrow> time_ns \<Rightarrow> SessionContext \<Rightarrow> 's
     \<Rightarrow> SessionContext \<times> 's" where
  "StartSession send interval now ctx s =
     (let s1 = BroadcastToParticipants send ctx ''session.created'' (created_payload now ctx) s;
          s2 = BroadcastToParticipants send ctx ''session.started'' (started_payload interval ctx) s1
      in (ScheduleTick ctx, s2))"

definition state_payload :: "time_ns \<Rightarrow> SessionContext \<Rightarrow> json" where
  "state_payload now ctx =
     (let snapshot = Snapshot (simulation ctx)
      in json_obj [(''sessionId'', JString (ctx_id ctx)), (''tick'', json_at snapshot ''tick''),
           (''players'', json_at snapshot ''players''), (''issuedAt'', JString (ToIsoString now))])"

text \<open>The scan for the winner: \<open>numeric_limits<int>::min()\<close> first, replaced on a strictly better
  position.\<close>

definition winner_step :: "json \<Rightarrow> int \<times> int \<Rightarrow> int \<times> int" where
  "winner_step player acc =
     (let pos = get_int (json_at player ''position''); uid = get_int (json_at player ''userId'')
      in if pos > fst acc then (pos, uid) else acc)"

definition winner_of :: "json \<Rightarrow> int" where
  "winner_of snapshot =
     snd (fold winner_step (json_elements (json_at snapshot ''players'')) (- (2 ^ 31), 0))"

definition ended_payload :: "SessionContext \<Rightarrow> json" where
  "ended_payload ctx =
     (let snapshot = Snapshot (simulation ctx)
      in json_obj [(''sessionId'', JString (ctx_id ctx)), (''reason'', JString ''completed''),
           (''result'', json_obj [(''winnerUserId'', JInteger (winner_of snapshot)),
              (''ticks'', JInteger (get_int (json_at snapshot ''tick'')))])])"

definition result_record ::
  "time_ns \<Rightarrow> SessionContext \<Rightarrow> SessionParticipant \<Rightarrow> SessionParticipant \<Rightarrow> MatchResultRecord" where
  "result_record ended_at ctx p1 p2 =
     (let snapshot = Snapshot (simulation ctx)
      in \<lparr>mr_session_id = ctx_id ctx, mr_user1_id = sp_user_id p1, mr_user2_id = sp_user_id p2,
          mr_winner_user_id = winner_of snapshot,
          mr_tick_count = get_int (json_at snapshot ''tick''), mr_ended_at = ended_at,
          mr_snapshot = snapshot\<rparr>)"

definition FinishSession ::
  "(int \<Rightarrow> string \<Rightarrow> json \<Rightarrow> 's \<Rightarrow> 's) \<Rightarrow> (MatchResultRecord \<Rightarrow> SessionParticipant list \<Rightarrow> 's \<Rightarrow> 's)
     \<Rightarrow> time_ns \<Rightarrow> nat \<Rightarrow> SessionContext \<Rightarrow> SessionManager \<Rightarrow> 's \<Rightarrow> exn + SessionManager \<times> 's" where
  "FinishSession send finalize ended_at n ctx sm s =
     (if ended ctx then Inr (put_ctx n ctx sm, s)
      else
        (let ctx1 = ctx\<lparr>ended := True\<rparr>;
             s1 = BroadcastToParticipants send ctx1 ''session.ended'' (ended_payload ctx1) s
         in case participants ctx1 of
              p1 # p2 # _ \<Rightarrow>
                (let s2 = finalize (result_record ended_at ctx1 p1 p2) (participants ctx1) s1
                 in Inr ((put_ctx n ctx1 sm)\<lparr>
                      user_to_session :=
                        fold (\<lambda>p. um_erase (sp_user_id p)) (participants ctx1) (user_to_session sm),
                      sessions := um_erase (ctx_id ctx1) (sessions sm)\<rparr>, s2))
            | _ \<Rightarrow> Inl OutOfRange))"

definition HandleTick ::
  "(int \<Rightarrow> string \<Rightarrow> json \<Rightarrow> 's \<Rightarrow> 's) \<Rightarrow> (MatchResultRecord \<Rightarrow> SessionParticipant list \<Rightarrow> 's \<Rightarrow> 's)
     \<Rightarrow> time_ns \<Rightarrow> time_ns \<Rightarrow> nat \<Rightarrow> SessionContext \<Rightarrow> SessionManager \<Rightarrow> 's \<Rightarrow> exn + SessionManager \<times> 's"
where
  "HandleTick send finalize now ended_at n ctx sm s =
     (if ended ctx then Inr (put_ctx n ctx sm, s)
      else
        (let ctx1 = ctx\<lparr>simulation := TickOnce (simulation ctx), tick_sent := tick_sent ctx + 1\<rparr>;
             s1 = BroadcastToParticipants send ctx1 ''session.state'' (state_payload now ctx1) s
         in if tick_sent ctx1 \<ge> max_ticks sm then FinishSession send finalize ended_at n ctx1 sm s1
            else Inr (put_ctx n (ScheduleTick ctx1) sm, s1)))"

text \<open>The executor: it runs the posted \<open>StartSession\<close>, and \<open>HandleTick\<close> when the armed timer expires.\<close>

definition RunStart ::
  "(int \<Rightarrow> string \<Rightarrow> json \<Rightarrow> 's \<Rightarrow> 's) \<Rightarrow> time_ns \<Rightarrow> nat \<Rightarrow> SessionManager \<times> 's \<Rightarrow> SessionManager \<times> 's" where
  "RunStart send now n w =
     (case um_find (contexts (fst w)) n of
        None \<Rightarrow> w
      | Some ctx \<Rightarrow>
          if \<not> start_pending ctx then w
          else (let (ctx1, s1) = StartSession send (tick_interval_ms (fst w)) now
                      (ctx\<lparr>start_pending := False\<rparr>) (snd w)
                in (put_ctx n ctx1 (fst w), s1)))"

definition RunTimer ::
  "(int \<Rightarrow> string \<Rightarrow> json \<Rightarrow> 's \<Rightarrow> 's) \<Rightarrow> (MatchResultRecord \<Rightarrow> SessionParticipant list \<Rightarrow> 's \<Rightarrow> 's)
     \<Rightarrow> time_ns \<Rightarrow> time_ns \<Rightarrow> nat \<Rightarrow> SessionManager \<times> 's \<Rightarrow> exn + SessionManager \<times> 's" where
  "RunTimer send finalize now ended_at n w =
     (case um_find (contexts (fst w)) n of
        None \<Rightarrow> Inr w
      | Some ctx \<Rightarrow>
          if \<not> timer_armed ctx then Inr w
          else HandleTick send finalize now ended_at n (ctx\<lparr>timer_armed := False\<rparr>) (fst w) (snd w))"

end
