(* ===== verification/SessionLifecycle.thy ===== *)
theory SessionLifecycle
  imports SessionManager
begin

text \<open>
  Runs of the session manager: the invariant that ties contexts, session map and user map together,
  the bound on ticks, what a submitted input does, and (in the locale \<open>event_sink\<close>) what reaches the
  parts the sessions call.
\<close>

section \<open>Steps\<close>

datatype session_op =
    CreateOp "SessionParticipant list"
  | StartOp nat time_ns
  | TimerOp nat time_ns time_ns
  | SubmitOp SessionInput
  | TaskOp nat SessionInput

abbreviation user_ids :: "SessionParticipant list \<Rightarrow> int list" where
  "user_ids ps \<equiv> map sp_user_id ps"

text \<open>\<open>SubmitOp\<close> is a \<open>SubmitInput\<close> that no other task of the session's strand overtakes; \<open>TaskOp\<close> is the
  second half of one, run at any later moment on any session.\<close>

text \<open>What the match queue guarantees of the participants it passes.\<close>

definition can_create :: "SessionParticipant list \<Rightarrow> SessionManager \<Rightarrow> bool" where
  "can_create ps sm \<longleftrightarrow> length ps = 2 \<and> distinct (user_ids ps) \<and>
     (\<forall>u \<in> set (user_ids ps). \<not> IsUserInSession u sm)"

fun session_step ::
  "(int \<Rightarrow> string \<Rightarrow> json \<Rightarrow> 's \<Rightarrow> 's) \<Rightarrow> (MatchResultRecord \<Rightarrow> SessionParticipant list \<Rightarrow> 's \<Rightarrow> 's)
     \<Rightarrow> session_op \<Rightarrow> SessionManager \<times> 's \<Rightarrow> SessionManager \<times> 's" where
  "session_step send finalize (CreateOp ps) w =
     (if can_create ps (fst w) then (snd (CreateSession ps (fst w)), snd w) else w)"
| "session_step send finalize (StartOp n now) w = RunStart send now n w"
| "session_step send finalize (TimerOp n now ended_at) w =
     (case RunTimer send finalize now ended_at n w of Inl e \<Rightarrow> w | Inr w' \<Rightarrow> w')"
| "session_step send finalize (SubmitOp input) w = (snd (SubmitInput input (fst w)), snd w)"
| "session_step send finalize (TaskOp n input) w = (snd (RunInput n input (fst w)), snd w)"

section \<open>Invariant\<close>

text \<open>The number of ticks of a session: a limit of zero still gives one.\<close>

definition session_ticks :: "SessionManager \<Rightarrow> nat" where
  "session_ticks sm = max 1 (max_ticks sm)"

text \<open>A context by itself: two participants, their simulation, and either ended after exactly \<open>k\<close>
  ticks, or running with exactly one task outstanding.\<close>

definition ctx_local :: "nat \<Rightarrow> nat \<Rightarrow> SessionContext \<Rightarrow> bool" where
  "ctx_local k n ctx \<longleftrightarrow>
     ctx_id ctx = session_name n \<and> length (participants ctx) = 2 \<and> distinct (user_ids (participants ctx)) \<and>
     (\<forall>u. um_find (participant_map ctx) u \<noteq> None \<longleftrightarrow> u \<in> set (user_ids (participants ctx))) \<and>
     sim_inv (simulation ctx) \<and>
     (\<forall>u. um_find (players (simulation ctx)) u \<noteq> None \<longleftrightarrow> u \<in> set (user_ids (participants ctx))) \<and>
     (\<forall>t. \<forall>e \<in> set (queue_at (simulation ctx) t). in_user_id e \<in> set (user_ids (participants ctx))) \<and>
     current_tick (simulation ctx) = int (tick_sent ctx) \<and>
     (if ended ctx then tick_sent ctx = k \<and> \<not> start_pending ctx \<and> \<not> timer_armed ctx
      else tick_sent ctx < k \<and> (start_pending ctx \<longleftrightarrow> \<not> timer_armed ctx)
        \<and> (start_pending ctx \<longrightarrow> tick_sent ctx = 0))"

definition live :: "SessionManager \<Rightarrow> nat \<Rightarrow> SessionContext \<Rightarrow> bool" where
  "live sm n ctx \<longleftrightarrow> um_find (contexts sm) n = Some ctx \<and> \<not> ended ctx"

definition sm_inv :: "SessionManager \<Rightarrow> bool" where
  "sm_inv sm \<longleftrightarrow>
     um_wf (contexts sm) \<and> um_wf (sessions sm) \<and> um_wf (user_to_session sm) \<and>
     (\<forall>n ctx. um_find (contexts sm) n = Some ctx \<longrightarrow>
        n < next_session_id sm \<and> ctx_local (session_ticks sm) n ctx) \<and>
     (\<forall>sid n. um_find (sessions sm) sid = Some n \<longleftrightarrow> sid = session_name n \<and> (\<exists>ctx. live sm n ctx)) \<and>
     (\<forall>u sid. um_find (user_to_session sm) u = Some sid \<longleftrightarrow>
        (\<exists>n ctx. live sm n ctx \<and> u \<in> set (user_ids (participants ctx)) \<and> sid = session_name n))"

lemma session_name_inject [simp]: "session_name m = session_name n \<longleftrightarrow> m = n"
  by (simp add: session_name_def)

lemma session_ticks_put [simp]: "session_ticks (put_ctx n ctx sm) = session_ticks sm"
  by (simp add: session_ticks_def put_ctx_def)

lemma put_ctx_proj [simp]:
  "contexts (put_ctx n ctx sm) = um_put n ctx (contexts sm)"
  "sessions (put_ctx n ctx sm) = sessions sm"
  "user_to_session (put_ctx n ctx sm) = user_to_session sm"
  "next_session_id (put_ctx n ctx sm) = next_session_id sm"
  "max_ticks (put_ctx n ctx sm) = max_ticks sm"
  "tick_interval_ms (put_ctx n ctx sm) = tick_interval_ms sm"
  by (simp_all add: put_ctx_def)

lemma sm_inv_init: "sm_inv (make_SessionManager interval k)"
  by (simp add: sm_inv_def make_SessionManager_def live_def)

lemma sm_inv_ctx:
  assumes "sm_inv sm" "um_find (contexts sm) n = Some ctx"
  shows "ctx_local (session_ticks sm) n ctx" "n < next_session_id sm"
  using assms by (auto simp: sm_inv_def)

lemma sm_inv_find_session:
  "sm_inv sm \<Longrightarrow> um_find (sessions sm) sid = Some n \<longleftrightarrow> sid = session_name n \<and> (\<exists>ctx. live sm n ctx)"
  by (simp add: sm_inv_def)

lemma sm_inv_user:
  "sm_inv sm \<Longrightarrow> um_find (user_to_session sm) u = Some sid \<longleftrightarrow>
     (\<exists>n ctx. live sm n ctx \<and> u \<in> set (user_ids (participants ctx)) \<and> sid = session_name n)"
  by (simp add: sm_inv_def)

text \<open>Replacing a context by one with the same participants that is not ended more or less.\<close>

lemma put_ctx_inv:
  assumes inv: "sm_inv sm" and old: "um_find (contexts sm) n = Some old"
    and new: "ctx_local (session_ticks sm) n new"
    and same: "ended new = ended old" "participants new = participants old"
  shows "sm_inv (put_ctx n new sm)"
proof -
  have live: "live (put_ctx n new sm) m ctx \<longleftrightarrow>
      (if m = n then ctx = new \<and> live sm n old else live sm m ctx)" for m ctx
    using old same by (auto simp: live_def)
  have ex: "(\<exists>ctx. live (put_ctx n new sm) m ctx) \<longleftrightarrow> (\<exists>ctx. live sm m ctx)" for m
    using old same by (cases "m = n") (simp_all add: live live_def)
  have exu: "(\<exists>ctx. live (put_ctx n new sm) m ctx \<and> u \<in> set (user_ids (participants ctx))) \<longleftrightarrow>
      (\<exists>ctx. live sm m ctx \<and> u \<in> set (user_ids (participants ctx)))" for m u
    using old same by (cases "m = n") (simp_all add: live live_def)
  have idx: "(\<exists>m ctx. live (put_ctx n new sm) m ctx \<and> u \<in> set (user_ids (participants ctx)) \<and> sid = session_name m) \<longleftrightarrow>
      (\<exists>m ctx. live sm m ctx \<and> u \<in> set (user_ids (participants ctx)) \<and> sid = session_name m)" for u sid
    using exu by blast
  show ?thesis
    unfolding sm_inv_def idx ex
    using inv new old by (auto simp: sm_inv_def)
qed

lemma fold_put_find:
  "um_find (fold (\<lambda>p. um_put (f p) (g p)) ps m) u \<noteq> None \<longleftrightarrow> u \<in> f ` set ps \<or> um_find m u \<noteq> None"
  by (induction ps arbitrary: m) auto

lemma fold_put_const_find:
  "um_find (fold (\<lambda>p. um_put (f p) c) ps m) u = (if u \<in> f ` set ps then Some c else um_find m u)"
  by (induction ps arbitrary: m) auto

lemma fold_put_wf: "um_wf m \<Longrightarrow> um_wf (fold (\<lambda>p. um_put (f p) (g p)) ps m)"
  by (induction ps arbitrary: m) auto

lemma fold_erase_find:
  "um_find (fold (\<lambda>p. um_erase (f p)) ps m) u = (if u \<in> f ` set ps then None else um_find m u)"
  by (induction ps arbitrary: m) auto

lemma fold_erase_wf: "um_wf m \<Longrightarrow> um_wf (fold (\<lambda>p. um_erase (f p)) ps m)"
  by (induction ps arbitrary: m) auto

lemma fold_AddPlayer:
  "sim_inv s \<Longrightarrow> sim_inv (fold (\<lambda>p. AddPlayer (f p)) ps s)"
  "um_find (players (fold (\<lambda>p. AddPlayer (f p)) ps s)) u \<noteq> None \<longleftrightarrow>
     u \<in> f ` set ps \<or> um_find (players s) u \<noteq> None"
  "current_tick (fold (\<lambda>p. AddPlayer (f p)) ps s) = current_tick s"
  "queue_at (fold (\<lambda>p. AddPlayer (f p)) ps s) t = queue_at s t"
proof (induction ps arbitrary: s)
  case (Cons p ps)
  { case 1 then show ?case by (simp add: Cons.IH AddPlayer_inv)
  next case 2 then show ?case by (auto simp: Cons.IH AddPlayer_find simp del: not_None_eq)
  next case 3 then show ?case by (simp add: Cons.IH)
  next case 4 then show ?case by (simp add: Cons.IH) }
qed simp_all

text \<open>A new context.\<close>

definition new_ctx :: "nat \<Rightarrow> SessionParticipant list \<Rightarrow> SessionContext" where
  "new_ctx n ps = \<lparr>ctx_id = session_name n, participants = ps,
     participant_map = fold (\<lambda>p. um_put (sp_user_id p) p) ps [],
     simulation = fold (\<lambda>p. AddPlayer (sp_user_id p)) ps make_Simulation,
     tick_sent = 0, ended = False, start_pending = True, timer_armed = False\<rparr>"

lemma new_ctx_local:
  assumes "length ps = 2" "distinct (user_ids ps)"
  shows "ctx_local (session_ticks sm) n (new_ctx n ps)"
proof -
  have [simp]: "queue_at make_Simulation t = []" for t by (simp add: queue_at_def make_Simulation_def)
  show ?thesis
    using assms fold_put_find [of sp_user_id "\<lambda>p. p" ps "[]"]
      fold_AddPlayer(2) [of sp_user_id ps make_Simulation]
    by (simp add: ctx_local_def new_ctx_def fold_AddPlayer(1,3,4) sim_inv_init session_ticks_def)
      (simp add: make_Simulation_def)
qed

lemma CreateSession_views:
  "contexts (snd (CreateSession ps sm)) = um_put (next_session_id sm) (new_ctx (next_session_id sm) ps) (contexts sm)"
  "sessions (snd (CreateSession ps sm)) = um_put (session_name (next_session_id sm)) (next_session_id sm) (sessions sm)"
  "user_to_session (snd (CreateSession ps sm)) =
     fold (\<lambda>p. um_put (sp_user_id p) (session_name (next_session_id sm))) ps (user_to_session sm)"
  "next_session_id (snd (CreateSession ps sm)) = next_session_id sm + 1"
  "max_ticks (snd (CreateSession ps sm)) = max_ticks sm"
  "tick_interval_ms (snd (CreateSession ps sm)) = tick_interval_ms sm"
  "session_ticks (snd (CreateSession ps sm)) = session_ticks sm"
  by (simp_all add: CreateSession_def new_ctx_def Let_def session_ticks_def)

lemma IsUserInSession_create:
  "IsUserInSession u (snd (CreateSession ps sm)) \<longleftrightarrow> u \<in> set (user_ids ps) \<or> IsUserInSession u sm"
  by (simp add: IsUserInSession_def CreateSession_views fold_put_const_find)

lemma CreateSession_inv [inv_intros]:
  assumes inv: "sm_inv sm" and can: "can_create ps sm"
  shows "sm_inv (snd (CreateSession ps sm))"
proof -
  let ?n = "next_session_id sm" and ?sm = "snd (CreateSession ps sm)"
  have fresh: "um_find (contexts sm) ?n = None"
    using inv by (cases "um_find (contexts sm) ?n") (auto simp: sm_inv_def)
  have live: "live ?sm m ctx \<longleftrightarrow> (if m = ?n then ctx = new_ctx ?n ps else live sm m ctx)" for m ctx
    by (auto simp: live_def CreateSession_views) (simp_all add: new_ctx_def)
  have ps_new: "participants (new_ctx ?n ps) = ps" by (simp add: new_ctx_def)
  have nolive: "\<not> live sm ?n ctx" for ctx using fresh by (simp add: live_def)
  have wf: "um_wf (contexts ?sm)" "um_wf (sessions ?sm)" "um_wf (user_to_session ?sm)"
    using inv by (simp_all add: sm_inv_def CreateSession_views fold_put_wf)
  have ctxs: "\<forall>m ctx. um_find (contexts ?sm) m = Some ctx \<longrightarrow>
      m < next_session_id ?sm \<and> ctx_local (session_ticks ?sm) m ctx"
    using inv can new_ctx_local [of ps sm ?n]
    by (auto simp: CreateSession_views sm_inv_def can_create_def less_Suc_eq)
  have sess: "um_find (sessions ?sm) sid = Some m \<longleftrightarrow> sid = session_name m \<and> (\<exists>ctx. live ?sm m ctx)" for sid m
    using nolive by (auto simp: CreateSession_views live sm_inv_find_session [OF inv])
  have usr: "um_find (user_to_session ?sm) u = Some sid \<longleftrightarrow>
      (\<exists>m ctx. live ?sm m ctx \<and> u \<in> set (user_ids (participants ctx)) \<and> sid = session_name m)" for u sid
  proof (cases "u \<in> set (user_ids ps)")
    case True
    with can have "um_find (user_to_session sm) u = None" by (auto simp: can_create_def IsUserInSession_def)
    with sm_inv_user [OF inv, of u] have "\<not> (live sm m ctx \<and> u \<in> set (user_ids (participants ctx)))" for m ctx
      by auto
    with True show ?thesis
      by (auto simp: CreateSession_views fold_put_const_find live ps_new split: if_splits)
  next
    case False
    then have "um_find (user_to_session ?sm) u = um_find (user_to_session sm) u"
      by (simp add: CreateSession_views fold_put_const_find)
    with False nolive show ?thesis
      by (simp only: sm_inv_user [OF inv]) (metis live ps_new)
  qed
  show ?thesis unfolding sm_inv_def using wf ctxs sess usr by blast
qed

section \<open>Ticks\<close>

text \<open>A context after one more tick, before the timer is armed again.\<close>

definition ticked :: "SessionContext \<Rightarrow> SessionContext" where
  "ticked ctx = ctx\<lparr>timer_armed := False, simulation := TickOnce (simulation ctx),
     tick_sent := tick_sent ctx + 1\<rparr>"

definition finished_manager :: "nat \<Rightarrow> SessionContext \<Rightarrow> SessionManager \<Rightarrow> SessionManager" where
  "finished_manager n ctx sm = (put_ctx n (ctx\<lparr>ended := True\<rparr>) sm)\<lparr>
     user_to_session := fold (\<lambda>p. um_erase (sp_user_id p)) (participants ctx) (user_to_session sm),
     sessions := um_erase (ctx_id ctx) (sessions sm)\<rparr>"

lemma TickOnce_players_dom:
  "(\<And>e. e \<in> set (queue_at s (current_tick s + 1)) \<Longrightarrow> um_find (players s) (in_user_id e) \<noteq> None) \<Longrightarrow>
     um_find (players (TickOnce s)) u = None \<longleftrightarrow> um_find (players s) u = None"
  by (auto simp: TickOnce_player Let_def filter_empty_conv)

lemma ctx_local_parts:
  assumes "ctx_local k n ctx"
  shows "ctx_id ctx = session_name n" "sim_inv (simulation ctx)"
    "current_tick (simulation ctx) = int (tick_sent ctx)"
    "\<exists>p1 p2. participants ctx = [p1, p2] \<and> sp_user_id p1 \<noteq> sp_user_id p2"
    "um_find (players (simulation ctx)) u \<noteq> None \<longleftrightarrow> u \<in> set (user_ids (participants ctx))"
  using assms by (auto simp: ctx_local_def length_Suc_conv numeral_2_eq_2)

lemma ticked_local:
  assumes "ctx_local k n ctx" "\<not> ended ctx" "timer_armed ctx"
  shows "tick_sent ctx + 1 < k \<Longrightarrow> ctx_local k n (ScheduleTick (ticked ctx))"
    and "\<not> tick_sent ctx + 1 < k \<Longrightarrow> ctx_local k n ((ticked ctx)\<lparr>ended := True\<rparr>)"
    and "\<not> tick_sent ctx + 1 < k \<Longrightarrow> tick_sent ctx + 1 = k"
proof -
  let ?us = "set (user_ids (participants ctx))"
  have sim: "sim_inv (TickOnce (simulation ctx))" using assms(1) by (simp add: ctx_local_def TickOnce_inv)
  have dom: "\<forall>u. um_find (players (TickOnce (simulation ctx))) u \<noteq> None \<longleftrightarrow> u \<in> ?us"
    using assms(1) TickOnce_players_dom [of "simulation ctx"] by (auto simp: ctx_local_def)
  have queue: "\<forall>t. \<forall>e \<in> set (queue_at (TickOnce (simulation ctx)) t). in_user_id e \<in> ?us"
    using assms(1) by (auto simp: ctx_local_def queue_at_TickOnce)
  note facts = sim dom queue
  show "tick_sent ctx + 1 < k \<Longrightarrow> ctx_local k n (ScheduleTick (ticked ctx))"
    using assms facts by (simp add: ctx_local_def ticked_def ScheduleTick_def)
  show last: "tick_sent ctx + 1 = k" if "\<not> tick_sent ctx + 1 < k"
    using assms that by (simp add: ctx_local_def)
  show "ctx_local k n ((ticked ctx)\<lparr>ended := True\<rparr>)" if "\<not> tick_sent ctx + 1 < k"
    using assms facts last [OF that] by (simp add: ctx_local_def ticked_def)
qed

lemma RunTimer_running:
  assumes "um_find (contexts sm) n = Some ctx" "\<not> ended ctx" "timer_armed ctx"
    and "tick_sent ctx + 1 < session_ticks sm"
  shows "RunTimer send finalize now ended_at n (sm, s) =
    Inr (put_ctx n (ScheduleTick (ticked ctx)) sm,
         BroadcastToParticipants send (ticked ctx) ''session.state'' (state_payload now (ticked ctx)) s)"
proof -
  have "\<not> max_ticks sm \<le> Suc (tick_sent ctx)" using assms(4) by (simp add: session_ticks_def max_def split: if_splits)
  with assms(1-3) show ?thesis by (simp add: RunTimer_def HandleTick_def Let_def ticked_def)
qed

lemma RunTimer_last:
  assumes "um_find (contexts sm) n = Some ctx" "\<not> ended ctx" "timer_armed ctx"
    and "\<not> tick_sent ctx + 1 < session_ticks sm" "participants ctx = [p1, p2]"
  shows "RunTimer send finalize now ended_at n (sm, s) =
    Inr (finished_manager n (ticked ctx) sm,
      finalize (result_record ended_at (ticked ctx) p1 p2) [p1, p2]
        (BroadcastToParticipants send (ticked ctx) ''session.ended'' (ended_payload (ticked ctx))
          (BroadcastToParticipants send (ticked ctx) ''session.state'' (state_payload now (ticked ctx)) s)))"
proof -
  have "max_ticks sm \<le> Suc (tick_sent ctx)" using assms(4) by (simp add: session_ticks_def max_def split: if_splits)
  with assms(1-3,5) show ?thesis
    by (simp add: RunTimer_def HandleTick_def FinishSession_def Let_def ticked_def finished_manager_def
        BroadcastToParticipants_def result_record_def ended_payload_def)
qed

lemma RunTimer_idle:
  "(\<And>ctx. um_find (contexts sm) n = Some ctx \<Longrightarrow> \<not> timer_armed ctx) \<Longrightarrow>
     RunTimer send finalize now ended_at n (sm, s) = Inr (sm, s)"
  by (simp add: RunTimer_def split: option.split)

lemma armed_not_ended: "sm_inv sm \<Longrightarrow> um_find (contexts sm) n = Some ctx \<Longrightarrow> timer_armed ctx \<Longrightarrow> \<not> ended ctx"
  using sm_inv_ctx(1) [of sm n ctx] by (auto simp: ctx_local_def split: if_splits)

text \<open>The three outcomes of an expired timer.\<close>

lemma RunTimer_cases:
  assumes "sm_inv sm"
  obtains (idle) "RunTimer send finalize now ended_at n (sm, s) = Inr (sm, s)"
      "\<And>ctx. um_find (contexts sm) n = Some ctx \<Longrightarrow> \<not> timer_armed ctx"
    | (running) ctx where "live sm n ctx" "timer_armed ctx" "tick_sent ctx + 1 < session_ticks sm"
      "RunTimer send finalize now ended_at n (sm, s) =
        Inr (put_ctx n (ScheduleTick (ticked ctx)) sm,
         BroadcastToParticipants send (ticked ctx) ''session.state'' (state_payload now (ticked ctx)) s)"
    | (last) ctx p1 p2 where "live sm n ctx" "timer_armed ctx" "\<not> tick_sent ctx + 1 < session_ticks sm"
      "participants ctx = [p1, p2]"
      "RunTimer send finalize now ended_at n (sm, s) =
        Inr (finished_manager n (ticked ctx) sm,
         finalize (result_record ended_at (ticked ctx) p1 p2) [p1, p2]
          (BroadcastToParticipants send (ticked ctx) ''session.ended'' (ended_payload (ticked ctx))
          (BroadcastToParticipants send (ticked ctx) ''session.state'' (state_payload now (ticked ctx)) s)))"
proof (cases "\<exists>ctx. um_find (contexts sm) n = Some ctx \<and> timer_armed ctx")
  case False
  then have "\<not> timer_armed ctx" if "um_find (contexts sm) n = Some ctx" for ctx using that by blast
  then show thesis by (intro idle RunTimer_idle)
next
  case True
  then obtain ctx where ctx: "um_find (contexts sm) n = Some ctx" "timer_armed ctx" by blast
  with assms have open_ctx: "\<not> ended ctx" by (rule armed_not_ended)
  obtain p1 p2 where ps: "participants ctx = [p1, p2]"
    using ctx_local_parts(4) [OF sm_inv_ctx(1) [OF assms ctx(1)]] by blast
  show thesis
  proof (cases "tick_sent ctx + 1 < session_ticks sm")
    case True
    show thesis
      by (rule running [OF _ ctx(2) True RunTimer_running [OF ctx(1) open_ctx ctx(2) True]])
        (simp add: live_def ctx open_ctx)
  next
    case False
    show thesis
      by (rule last [OF _ ctx(2) False ps RunTimer_last [OF ctx(1) open_ctx ctx(2) False ps]])
        (simp add: live_def ctx open_ctx)
  qed
qed

lemma finished_inv [inv_intros]:
  assumes inv: "sm_inv sm" and old: "live sm n ctx"
    and new: "ctx_local (session_ticks sm) n (new\<lparr>ended := True\<rparr>)" and same: "participants new = participants ctx"
  shows "sm_inv (finished_manager n new sm)"
proof -
  let ?sm = "finished_manager n new sm" and ?us = "set (user_ids (participants ctx))"
  have id: "ctx_id new = session_name n" using new by (simp add: ctx_local_def)
  have views: "contexts ?sm = um_put n (new\<lparr>ended := True\<rparr>) (contexts sm)"
    "next_session_id ?sm = next_session_id sm" "session_ticks ?sm = session_ticks sm"
    by (simp_all add: finished_manager_def session_ticks_def)
  have live: "live ?sm m c \<longleftrightarrow> m \<noteq> n \<and> live sm m c" for m c
    by (auto simp: live_def views)
  have live_n: "live sm n c \<longleftrightarrow> c = ctx" for c using old by (auto simp: live_def)
  have wf: "um_wf (contexts ?sm)" "um_wf (sessions ?sm)" "um_wf (user_to_session ?sm)"
    using inv by (simp_all add: finished_manager_def sm_inv_def fold_erase_wf)
  have ctxs: "\<forall>m c. um_find (contexts ?sm) m = Some c \<longrightarrow> m < next_session_id ?sm \<and> ctx_local (session_ticks ?sm) m c"
    using inv old new by (auto simp: views sm_inv_def live_def)
  have sess: "um_find (sessions ?sm) sid = Some m \<longleftrightarrow> sid = session_name m \<and> (\<exists>c. live ?sm m c)" for sid m
    by (auto simp: finished_manager_def id sm_inv_find_session [OF inv] live [unfolded finished_manager_def id])
  have usr: "um_find (user_to_session ?sm) u = Some sid \<longleftrightarrow>
      (\<exists>m c. live ?sm m c \<and> u \<in> set (user_ids (participants c)) \<and> sid = session_name m)" for u sid
  proof (cases "u \<in> ?us")
    case True
    with old have "um_find (user_to_session sm) u = Some (session_name n)"
      using sm_inv_user [OF inv, of u "session_name n"] by blast
    then have "m = n" if "live sm m c" "u \<in> set (user_ids (participants c))" for m c
      using sm_inv_user [OF inv, of u "session_name m"] that by auto
    then have "\<not> (live ?sm m c \<and> u \<in> set (user_ids (participants c)))" for m c by (auto simp: live)
    moreover have "um_find (user_to_session ?sm) u = None"
      using True same by (simp add: finished_manager_def fold_erase_find)
    ultimately show ?thesis by auto
  next
    case False
    then have "um_find (user_to_session ?sm) u = um_find (user_to_session sm) u"
      using same by (simp add: finished_manager_def fold_erase_find)
    with False show ?thesis
      by (simp only: sm_inv_user [OF inv] live) (metis live_n)
  qed
  show ?thesis unfolding sm_inv_def using wf ctxs sess usr by blast
qed

section \<open>Inputs\<close>

lemma live_session:
  assumes "sm_inv sm" "live sm n ctx" "u \<in> set (user_ids (participants ctx))"
  shows "um_find (user_to_session sm) u = Some (session_name n)" "um_find (sessions sm) (session_name n) = Some n"
proof -
  show "um_find (user_to_session sm) u = Some (session_name n)"
    using assms sm_inv_user [OF assms(1), of u "session_name n"] by blast
  show "um_find (sessions sm) (session_name n) = Some n"
    using assms sm_inv_find_session [OF assms(1), of "session_name n" n] by blast
qed

text \<open>What the manager answers to an input of a user in a session: the verdict of the simulation of
  that session. The codes \<open>not_participant\<close> and \<open>session_closed\<close> need a task that runs after its
  lookup was overtaken.\<close>

lemma put_ctx_same: "um_find (contexts sm) n = Some ctx \<Longrightarrow> put_ctx n ctx sm = sm"
  by (simp add: put_ctx_def um_put_same)

lemma RunInput_live:
  assumes inv: "sm_inv sm" and live: "live sm n ctx" and u: "si_user_id input \<in> set (user_ids (participants ctx))"
  shows "RunInput n input sm =
    (map_option (\<lambda>r. (''input_invalid'', r)) (ValidateInput (command_of input) (simulation ctx)),
     put_ctx n (ctx\<lparr>simulation := snd (EnqueueInput (command_of input) (simulation ctx))\<rparr>) sm)"
proof -
  have ctx: "um_find (contexts sm) n = Some ctx" "\<not> ended ctx" using live by (simp_all add: live_def)
  have "um_find (participant_map ctx) (si_user_id input) \<noteq> None"
    using sm_inv_ctx(1) [OF inv ctx(1)] u by (simp add: ctx_local_def)
  with ctx show ?thesis
    by (cases "ValidateInput (command_of input) (simulation ctx)")
      (auto simp: RunInput_def SubmitOnStrand_def split_beta Let_def accepted_iff EnqueueInput_rejected)
qed

lemma RunInput_ended:
  "um_find (contexts sm) n = Some ctx \<Longrightarrow> ended ctx \<Longrightarrow>
     RunInput n input sm = (Some (''session_closed'', msg_session_closed), sm)"
  by (simp add: RunInput_def SubmitOnStrand_def put_ctx_same)

text \<open>The two outcomes of the task, whenever it runs.\<close>

lemma RunInput_cases:
  assumes inv: "sm_inv sm"
  obtains (refused) e where "RunInput n input sm = (Some e, sm)"
    | (judged) ctx where "live sm n ctx" "si_user_id input \<in> set (user_ids (participants ctx))"
      "RunInput n input sm =
        (map_option (\<lambda>r. (''input_invalid'', r)) (ValidateInput (command_of input) (simulation ctx)),
         put_ctx n (ctx\<lparr>simulation := snd (EnqueueInput (command_of input) (simulation ctx))\<rparr>) sm)"
proof (cases "um_find (contexts sm) n")
  case None
  then show thesis using refused by (simp add: RunInput_def)
next
  case (Some ctx)
  have part: "um_find (participant_map ctx) (si_user_id input) \<noteq> None \<longleftrightarrow>
      si_user_id input \<in> set (user_ids (participants ctx))"
    using sm_inv_ctx(1) [OF inv Some] by (simp add: ctx_local_def)
  consider "ended ctx" | "\<not> ended ctx" "um_find (participant_map ctx) (si_user_id input) = None"
    | "\<not> ended ctx" "um_find (participant_map ctx) (si_user_id input) \<noteq> None" by blast
  then show thesis
  proof cases
    case 1
    then show thesis using refused RunInput_ended [OF Some] by blast
  next
    case 2
    then have "RunInput n input sm = (Some (''not_participant'', msg_not_participant), sm)"
      using Some by (simp add: RunInput_def SubmitOnStrand_def put_ctx_same)
    then show thesis by (rule refused)
  next
    case 3
    with Some part show thesis
      by (intro judged [OF _ _ RunInput_live [OF inv]]) (simp_all add: live_def)
  qed
qed

lemma SubmitLookup_live:
  assumes "sm_inv sm" "live sm n ctx" "si_user_id input \<in> set (user_ids (participants ctx))"
  shows "SubmitLookup input sm = Inr n"
  using live_session [OF assms] by (simp add: SubmitLookup_def)

lemma SubmitInput_live:
  assumes inv: "sm_inv sm" and live: "live sm n ctx" and u: "si_user_id input \<in> set (user_ids (participants ctx))"
  shows "SubmitInput input sm =
    (map_option (\<lambda>r. (''input_invalid'', r)) (ValidateInput (command_of input) (simulation ctx)),
     put_ctx n (ctx\<lparr>simulation := snd (EnqueueInput (command_of input) (simulation ctx))\<rparr>) sm)"
  using SubmitLookup_live [OF assms] RunInput_live [OF assms] by (simp add: SubmitInput_def)

lemma SubmitInput_none:
  "um_find (user_to_session sm) (si_user_id input) = None \<Longrightarrow>
     SubmitInput input sm = (Some (''session_not_found'', msg_session_not_found), sm)"
  by (simp add: SubmitInput_def SubmitLookup_def)

lemma SubmitInput_cases:
  assumes "sm_inv sm"
  obtains (none) "SubmitInput input sm = (Some (''session_not_found'', msg_session_not_found), sm)"
      "\<not> IsUserInSession (si_user_id input) sm"
    | (live) n ctx where "live sm n ctx" "si_user_id input \<in> set (user_ids (participants ctx))"
      "SubmitInput input sm =
        (map_option (\<lambda>r. (''input_invalid'', r)) (ValidateInput (command_of input) (simulation ctx)),
         put_ctx n (ctx\<lparr>simulation := snd (EnqueueInput (command_of input) (simulation ctx))\<rparr>) sm)"
proof (cases "um_find (user_to_session sm) (si_user_id input)")
  case None
  with none show thesis by (simp add: SubmitInput_none IsUserInSession_def)
next
  case (Some sid)
  then obtain n ctx where "live sm n ctx" "si_user_id input \<in> set (user_ids (participants ctx))"
    using sm_inv_user [OF assms] by blast
  with live show thesis using SubmitInput_live [OF assms] by blast
qed

lemma EnqueueInput_queue_users:
  assumes "\<forall>t. \<forall>e \<in> set (queue_at s t). in_user_id e \<in> us" "in_user_id i \<in> us"
  shows "\<forall>t. \<forall>e \<in> set (queue_at (snd (EnqueueInput i s)) t). in_user_id e \<in> us"
proof (cases "ValidateInput i s")
  case None
  with assms show ?thesis by (auto simp: queue_at_Enqueue)
next
  case (Some r)
  with assms show ?thesis by (simp add: EnqueueInput_rejected)
qed

lemma enqueued_local:
  assumes "ctx_local k n ctx" "in_user_id i \<in> set (user_ids (participants ctx))"
  shows "ctx_local k n (ctx\<lparr>simulation := snd (EnqueueInput i (simulation ctx))\<rparr>)"
proof -
  have "\<forall>t. \<forall>e \<in> set (queue_at (snd (EnqueueInput i (simulation ctx))) t).
      in_user_id e \<in> set (user_ids (participants ctx))"
    using assms by (intro EnqueueInput_queue_users) (simp_all add: ctx_local_def)
  then show ?thesis using assms(1) by (simp add: ctx_local_def EnqueueInput_inv)
qed

text \<open>The simulation of a running session with one more input.\<close>

lemma enqueued_inv:
  assumes inv: "sm_inv sm" and live: "live sm n ctx" and u: "si_user_id input \<in> set (user_ids (participants ctx))"
  shows "sm_inv (put_ctx n (ctx\<lparr>simulation := snd (EnqueueInput (command_of input) (simulation ctx))\<rparr>) sm)"
proof -
  from live have ctx: "um_find (contexts sm) n = Some ctx" by (simp add: live_def)
  have "in_user_id (command_of input) = si_user_id input" by (simp add: command_of_def)
  with u sm_inv_ctx(1) [OF inv ctx]
  have "ctx_local (session_ticks sm) n (ctx\<lparr>simulation := snd (EnqueueInput (command_of input) (simulation ctx))\<rparr>)"
    by (intro enqueued_local) simp_all
  then show ?thesis using inv ctx by (simp add: put_ctx_inv)
qed

lemma SubmitInput_inv [inv_intros]:
  assumes "sm_inv sm"
  shows "sm_inv (snd (SubmitInput input sm))"
  using assms by (cases rule: SubmitInput_cases [where input = input]) (simp_all add: assms enqueued_inv)

lemma RunInput_inv [inv_intros]:
  assumes "sm_inv sm"
  shows "sm_inv (snd (RunInput n input sm))"
  using assms by (cases rule: RunInput_cases [where n = n and input = input]) (simp_all add: assms enqueued_inv)

section \<open>Start\<close>

lemma RunStart_pending:
  assumes "um_find (contexts sm) n = Some ctx" "start_pending ctx"
  shows "RunStart send now n (sm, s) =
    (put_ctx n (ctx\<lparr>start_pending := False, timer_armed := True\<rparr>) sm,
     BroadcastToParticipants send ctx ''session.started'' (started_payload (tick_interval_ms sm) ctx)
       (BroadcastToParticipants send ctx ''session.created'' (created_payload now ctx) s))"
  using assms
  by (simp add: RunStart_def StartSession_def ScheduleTick_def BroadcastToParticipants_def
      created_payload_def started_payload_def)

lemma RunStart_cases:
  obtains (idle) "RunStart send now n (sm, s) = (sm, s)"
      "\<And>ctx. um_find (contexts sm) n = Some ctx \<Longrightarrow> \<not> start_pending ctx"
    | (start) ctx where "um_find (contexts sm) n = Some ctx" "start_pending ctx"
      "RunStart send now n (sm, s) =
        (put_ctx n (ctx\<lparr>start_pending := False, timer_armed := True\<rparr>) sm,
         BroadcastToParticipants send ctx ''session.started'' (started_payload (tick_interval_ms sm) ctx)
           (BroadcastToParticipants send ctx ''session.created'' (created_payload now ctx) s))"
proof (cases "\<exists>ctx. um_find (contexts sm) n = Some ctx \<and> start_pending ctx")
  case True
  then obtain ctx where "um_find (contexts sm) n = Some ctx" "start_pending ctx" by blast
  then show thesis by (intro start RunStart_pending)
next
  case False
  then have "RunStart send now n (sm, s) = (sm, s)" by (auto simp: RunStart_def split: option.split)
  moreover have "\<not> start_pending ctx" if "um_find (contexts sm) n = Some ctx" for ctx using that False by blast
  ultimately show thesis by (rule idle)
qed

lemma started_local: "ctx_local k n ctx \<Longrightarrow> start_pending ctx \<Longrightarrow>
    ctx_local k n (ctx\<lparr>start_pending := False, timer_armed := True\<rparr>) \<and> \<not> ended ctx"
  by (auto simp: ctx_local_def split: if_splits)

lemma RunStart_inv [inv_intros]:
  assumes "sm_inv sm"
  shows "sm_inv (fst (RunStart send now n (sm, s)))"
proof (cases rule: RunStart_cases [of send now n sm s])
  case idle
  with assms show ?thesis by simp
next
  case (start ctx)
  with started_local [OF sm_inv_ctx(1) [OF assms start(1)] start(2)] assms show ?thesis
    by (simp add: put_ctx_inv)
qed

section \<open>Every step keeps the invariant\<close>

lemma RunTimer_inv:
  assumes inv: "sm_inv sm"
  shows "\<exists>sm' s'. RunTimer send finalize now ended_at n (sm, s) = Inr (sm', s') \<and> sm_inv sm'"
  using inv
proof (cases rule: RunTimer_cases [where send = send and finalize = finalize and now = now
      and ended_at = ended_at and n = n and s = s])
  case idle
  with inv show ?thesis by simp
next
  case (running ctx)
  then have ctx: "um_find (contexts sm) n = Some ctx" "\<not> ended ctx" by (simp_all add: live_def)
  have "ctx_local (session_ticks sm) n (ScheduleTick (ticked ctx))"
    using ticked_local(1) [OF sm_inv_ctx(1) [OF inv ctx(1)] ctx(2)] running by blast
  with running(4) ctx inv show ?thesis by (simp add: put_ctx_inv ticked_def ScheduleTick_def)
next
  case (last ctx p1 p2)
  then have ctx: "um_find (contexts sm) n = Some ctx" "\<not> ended ctx" by (simp_all add: live_def)
  have "ctx_local (session_ticks sm) n ((ticked ctx)\<lparr>ended := True\<rparr>)"
    using ticked_local(2) [OF sm_inv_ctx(1) [OF inv ctx(1)] ctx(2)] last by blast
  then have "sm_inv (finished_manager n (ticked ctx) sm)"
    by (rule finished_inv [OF inv last(1)]) (simp add: ticked_def)
  with last(5) show ?thesis by blast
qed

lemma session_step_inv:
  "sm_inv (fst w) \<Longrightarrow> sm_inv (fst (session_step send finalize op w))"
proof (cases op)
  case (TimerOp n now ended_at)
  assume "sm_inv (fst w)"
  then obtain sm' s' where "RunTimer send finalize now ended_at n w = Inr (sm', s')" "sm_inv sm'"
    using RunTimer_inv [of "fst w" send finalize now ended_at n "snd w"] by auto
  with TimerOp show ?thesis by simp
next
  case (StartOp n now)
  assume "sm_inv (fst w)"
  with StartOp show ?thesis using RunStart_inv [of "fst w" send now n "snd w"] by simp
qed (simp_all add: CreateSession_inv SubmitInput_inv RunInput_inv)

interpretation session_machine: machine "session_step send finalize" "\<lambda>w. sm_inv (fst w)"
  for send finalize
  by unfold_locales (rule session_step_inv)

end
