(* ===== verification/SessionOutcome.thy ===== *)
theory SessionOutcome
  imports SessionLifecycle
begin

text \<open>
  What a session comes to: progress (one tick per expired timer until it ends), the events a
  participant is sent and their order, the winner, and the stored result. The locale \<open>event_sink\<close>
  is the interface of the sessions to the parts that deliver events and store results.
\<close>

section \<open>Progress\<close>

fun is_timer :: "nat \<Rightarrow> session_op \<Rightarrow> bool" where
  "is_timer n (TimerOp m now ended_at) \<longleftrightarrow> m = n"
| "is_timer n op \<longleftrightarrow> False"

fun is_start :: "nat \<Rightarrow> session_op \<Rightarrow> bool" where
  "is_start n (StartOp m now) \<longleftrightarrow> m = n"
| "is_start n op \<longleftrightarrow> False"

text \<open>How one step changes a context.\<close>

definition ctx_follows :: "nat \<Rightarrow> session_op \<Rightarrow> SessionContext \<Rightarrow> SessionContext \<Rightarrow> bool" where
  "ctx_follows n op ctx ctx' \<longleftrightarrow>
     participants ctx' = participants ctx \<and>
     tick_sent ctx' = (if is_timer n op \<and> timer_armed ctx then tick_sent ctx + 1 else tick_sent ctx) \<and>
     (start_pending ctx' \<longleftrightarrow> start_pending ctx \<and> \<not> is_start n op) \<and>
     (ended ctx \<longrightarrow> ctx' = ctx)"

lemma ctx_follows_idle:
  "\<not> (is_timer n op \<and> timer_armed ctx) \<Longrightarrow> \<not> (is_start n op \<and> start_pending ctx) \<Longrightarrow> ctx_follows n op ctx ctx"
  by (auto simp: ctx_follows_def)

lemma session_ticks_step:
  assumes "sm_inv (fst w)"
  shows "session_ticks (fst (session_step send finalize op w)) = session_ticks (fst w)"
proof (cases op)
  case (TimerOp n now ended_at)
  obtain sm s where w: "w = (sm, s)" by (cases w)
  from assms w have "sm_inv sm" by simp
  then show ?thesis
    by (cases rule: RunTimer_cases [where send = send and finalize = finalize and now = now
          and ended_at = ended_at and n = n and s = s])
      (simp_all add: TimerOp w finished_manager_def session_ticks_def)
next
  case (StartOp n now)
  obtain sm s where w: "w = (sm, s)" by (cases w)
  show ?thesis
    by (cases rule: RunStart_cases [of send now n sm s]) (simp_all add: StartOp w)
next
  case (SubmitOp input)
  from assms show ?thesis
    by (cases rule: SubmitInput_cases [where input = input]) (simp_all add: SubmitOp)
next
  case (TaskOp n input)
  from assms show ?thesis
    by (cases rule: RunInput_cases [where n = n and input = input]) (simp_all add: TaskOp)
qed (simp add: CreateSession_views)

lemma session_step_ctx:
  assumes inv: "sm_inv (fst w)" and ctx: "um_find (contexts (fst w)) n = Some ctx"
  shows "\<exists>ctx'. um_find (contexts (fst (session_step send finalize op w))) n = Some ctx' \<and> ctx_follows n op ctx ctx'"
proof (cases op)
  case (CreateOp ps)
  have "n \<noteq> next_session_id (fst w)" using sm_inv_ctx(2) [OF inv ctx] by simp
  with CreateOp ctx show ?thesis by (auto simp: CreateSession_views ctx_follows_idle)
next
  case (StartOp m now)
  obtain sm s where w: "w = (sm, s)" by (cases w)
  show ?thesis
  proof (cases rule: RunStart_cases [of send now m sm s])
    case idle
    with StartOp w ctx show ?thesis by (auto simp: ctx_follows_idle)
  next
    case (start c)
    have "\<not> ended c" using started_local [OF sm_inv_ctx(1) [OF inv], of m c] start w by simp
    with StartOp w ctx start show ?thesis by (auto simp: ctx_follows_def)
  qed
next
  case (TimerOp m now ended_at)
  obtain sm s where w: "w = (sm, s)" by (cases w)
  from inv w have "sm_inv sm" by simp
  then show ?thesis
  proof (cases rule: RunTimer_cases [where send = send and finalize = finalize and now = now
        and ended_at = ended_at and n = m and s = s])
    case idle
    with TimerOp w ctx show ?thesis by (auto simp: ctx_follows_idle)
  next
    case (running c)
    with TimerOp w ctx show ?thesis
      by (auto simp: ctx_follows_def live_def ticked_def ScheduleTick_def)
  next
    case (last c p1 p2)
    with TimerOp w ctx show ?thesis
      by (auto simp: ctx_follows_def live_def ticked_def finished_manager_def)
  qed
next
  case (SubmitOp input)
  from inv show ?thesis
  proof (cases rule: SubmitInput_cases [where input = input])
    case none
    with SubmitOp ctx show ?thesis by (auto simp: ctx_follows_idle)
  next
    case (live m c)
    with SubmitOp ctx show ?thesis by (auto simp: ctx_follows_def live_def)
  qed
next
  case (TaskOp m input)
  from inv show ?thesis
  proof (cases rule: RunInput_cases [where n = m and input = input])
    case refused
    with TaskOp ctx show ?thesis by (auto simp: ctx_follows_idle)
  next
    case (judged c)
    with TaskOp ctx show ?thesis by (auto simp: ctx_follows_def live_def)
  qed
qed

lemma ctx_local_ended: "ctx_local k n ctx \<Longrightarrow> ended ctx \<longleftrightarrow> tick_sent ctx = k"
  by (auto simp: ctx_local_def split: if_splits)

lemma ctx_local_armed:
  "ctx_local k n ctx \<Longrightarrow> timer_armed ctx \<longleftrightarrow> \<not> start_pending ctx \<and> tick_sent ctx < k"
  by (auto simp: ctx_local_def split: if_splits)

definition ticks_in :: "nat \<Rightarrow> session_op list \<Rightarrow> nat" where
  "ticks_in n ops = length (filter (is_timer n) ops)"

text \<open>A started session takes one tick per expired timer, whatever else happens in between, and is
  ended exactly when it has taken all of its ticks.\<close>

lemma session_progress:
  assumes "sm_inv (fst w)" "um_find (contexts (fst w)) n = Some ctx" "\<not> start_pending ctx"
  shows "\<exists>ctx'. um_find (contexts (fst (fold (session_step send finalize) ops w))) n = Some ctx' \<and>
    participants ctx' = participants ctx \<and>
    tick_sent ctx' = min (session_ticks (fst w)) (tick_sent ctx + ticks_in n ops) \<and>
    (ended ctx' \<longleftrightarrow> tick_sent ctx' = session_ticks (fst w))"
  using assms
proof (induction ops arbitrary: w ctx)
  case Nil
  have local: "ctx_local (session_ticks (fst w)) n ctx" using Nil.prems by (simp add: sm_inv_ctx)
  then have "tick_sent ctx \<le> session_ticks (fst w)" by (auto simp: ctx_local_def split: if_splits)
  with Nil.prems local show ?case by (simp add: ticks_in_def ctx_local_ended min_def)
next
  case (Cons op ops)
  let ?w = "session_step send finalize op w" and ?k = "session_ticks (fst w)"
  have local: "ctx_local ?k n ctx" using Cons.prems by (simp add: sm_inv_ctx)
  obtain c where c: "um_find (contexts (fst ?w)) n = Some c" "ctx_follows n op ctx c"
    using session_step_ctx [OF Cons.prems(1,2)] by blast
  have inv: "sm_inv (fst ?w)" using Cons.prems(1) by (rule session_step_inv)
  have k: "session_ticks (fst ?w) = ?k" using Cons.prems(1) by (rule session_ticks_step)
  have "\<not> start_pending c" using c(2) Cons.prems(3) by (simp add: ctx_follows_def)
  from Cons.IH [OF inv c(1) this] obtain d where d:
    "um_find (contexts (fst (fold (session_step send finalize) ops ?w))) n = Some d"
    "participants d = participants c" "tick_sent d = min ?k (tick_sent c + ticks_in n ops)"
    "ended d \<longleftrightarrow> tick_sent d = ?k"
    unfolding k by blast
  have "tick_sent c = (if is_timer n op \<and> tick_sent ctx < ?k then tick_sent ctx + 1 else tick_sent ctx)"
    using c(2) Cons.prems(3) ctx_local_armed [OF local] by (simp add: ctx_follows_def)
  then have "tick_sent d = min ?k (tick_sent ctx + ticks_in n (op # ops))"
    using d(3) by (auto simp: ticks_in_def)
  with d c(2) show ?case by (auto simp: ctx_follows_def)
qed

text \<open>A context stays, with its participants, through every run; and a successful lookup found the live
  session of the user.\<close>

lemma session_run_ctx:
  assumes "sm_inv (fst w)" "um_find (contexts (fst w)) n = Some ctx"
  shows "\<exists>ctx'. um_find (contexts (fst (fold (session_step send finalize) ops w))) n = Some ctx' \<and>
    participants ctx' = participants ctx"
  using assms
proof (induction ops arbitrary: w ctx)
  case (Cons op ops)
  obtain c where c: "um_find (contexts (fst (session_step send finalize op w))) n = Some c" "ctx_follows n op ctx c"
    using session_step_ctx [OF Cons.prems] by blast
  from Cons.IH [OF session_step_inv [OF Cons.prems(1)] c(1)] c(2) show ?case by (auto simp: ctx_follows_def)
qed simp

lemma SubmitLookup_found:
  assumes inv: "sm_inv sm" and found: "SubmitLookup input sm = Inr n"
  shows "\<exists>ctx. live sm n ctx \<and> si_user_id input \<in> set (user_ids (participants ctx))"
proof -
  obtain sid where "um_find (user_to_session sm) (si_user_id input) = Some sid" "um_find (sessions sm) sid = Some n"
    using found by (auto simp: SubmitLookup_def split: option.splits)
  then show ?thesis using sm_inv_user [OF inv] sm_inv_find_session [OF inv] by fastforce
qed

section \<open>The winner\<close>

text \<open>Two different players: the better position wins, and the smaller id at a draw.\<close>

lemma two_player_snapshot:
  assumes wf: "um_wf ps" and dom: "\<And>u. um_find ps u \<noteq> None \<longleftrightarrow> u = a \<or> u = b" and lt: "a < b"
  shows "players_json ps = [player_json a (player_of ps a), player_json b (player_of ps b)]"
proof -
  have "x \<in> fst ` set ps \<longleftrightarrow> um_find ps x \<noteq> None" for x by (simp only: um_find_None_iff not_not)
  then have "fst ` set ps = {a, b}" by (simp only: set_eq_iff dom insert_iff empty_iff) simp
  then have "set (map fst ps) = {a, b}" by simp
  moreover have "distinct (map fst ps)" using wf by (simp add: um_wf_def)
  ultimately have "sort (map fst ps) = sorted_list_of_set {a, b}"
    by (metis sorted_list_of_set_sort_remdups distinct_remdups_id)
  also have "\<dots> = [a, b]" using lt by simp
  finally show ?thesis by (simp add: players_json_def)
qed

definition int32 :: "int \<Rightarrow> bool" where
  "int32 n \<longleftrightarrow> - (2 ^ 31) \<le> n \<and> n < 2 ^ 31"

lemma winner_of_two:
  assumes wf: "um_wf (players sim)" and dom: "\<And>u. um_find (players sim) u \<noteq> None \<longleftrightarrow> u = a \<or> u = b"
    and lt: "a < b" and rng: "int32 a" "int32 b"
    and pos: "\<And>u. - (2 ^ 31) < position (player_of (players sim) u) \<and> position (player_of (players sim) u) < 2 ^ 31"
  shows "winner_of (Snapshot sim) =
    (if position (player_of (players sim) b) > position (player_of (players sim) a) then b else a)"
proof -
  have ids: "to_int32 a = a" "to_int32 b = b" using rng by (simp_all add: int32_def to_int32_id)
  have p: "to_int32 (position (player_of (players sim) u)) = position (player_of (players sim) u)" for u
    using pos [of u] by (simp add: to_int32_id)
  show ?thesis
    using pos [of a]
    by (simp add: winner_of_def Snapshot_def two_player_snapshot [OF wf dom lt] winner_step_def player_json_def ids p)
qed

section \<open>Interface to delivery and results\<close>

text \<open>What the sessions rely on: delivering an event stores no result, \<open>finalize\<close> stores the first
  result of a session and no other, and both keep the provider's own invariant \<open>good\<close>.\<close>

text \<open>The stored results are exactly those of the ended sessions, each with the final state.\<close>

definition results_match :: "(string \<Rightarrow> MatchResultRecord option) \<Rightarrow> SessionManager \<Rightarrow> bool" where
  "results_match found sm \<longleftrightarrow>
     (\<forall>n ctx. um_find (contexts sm) n = Some ctx \<longrightarrow>
        (if ended ctx
         then \<exists>t p1 p2. participants ctx = [p1, p2] \<and>
                found (session_name n) = Some (result_record t ctx p1 p2)
         else found (session_name n) = None)) \<and>
     (\<forall>n. um_find (contexts sm) n = None \<longrightarrow> found (session_name n) = None) \<and>
     (\<forall>sid. found sid \<noteq> None \<longrightarrow> (\<exists>n. sid = session_name n))"

lemma results_match_iff:
  assumes "results_match found sm"
  shows "found (session_name n) \<noteq> None \<longleftrightarrow> (\<exists>ctx. um_find (contexts sm) n = Some ctx \<and> ended ctx)"
proof (cases "um_find (contexts sm) n")
  case None
  with assms show ?thesis by (simp add: results_match_def)
next
  case (Some ctx)
  with assms have "if ended ctx then \<exists>t p1 p2. participants ctx = [p1, p2] \<and>
      found (session_name n) = Some (result_record t ctx p1 p2) else found (session_name n) = None"
    by (simp add: results_match_def)
  with Some show ?thesis by (cases "ended ctx") auto
qed

locale event_sink =
  fixes send :: "int \<Rightarrow> string \<Rightarrow> json \<Rightarrow> 's \<Rightarrow> 's"
    and finalize :: "MatchResultRecord \<Rightarrow> SessionParticipant list \<Rightarrow> 's \<Rightarrow> 's"
    and found :: "'s \<Rightarrow> string \<Rightarrow> MatchResultRecord option"
    and good :: "'s \<Rightarrow> bool"
  assumes send_found: "found (send u e p s) k = found s k"
    and finalize_found: "found (finalize r ps s) k =
      (if k = mr_session_id r \<and> found s k = None then Some r else found s k)"
    and send_good: "good s \<Longrightarrow> good (send u e p s)"
    and finalize_good: "good s \<Longrightarrow> good (finalize r ps s)"
begin

lemma broadcast_found [simp]: "found (BroadcastToParticipants send ctx e p s) = found s"
proof (rule ext)
  fix k
  have "found (fold (\<lambda>q. send (sp_user_id q) e p) qs s) k = found s k" for qs
    by (induction qs arbitrary: s) (simp_all add: send_found)
  then show "found (BroadcastToParticipants send ctx e p s) k = found s k" by (simp add: BroadcastToParticipants_def)
qed

lemma broadcast_good: "good s \<Longrightarrow> good (BroadcastToParticipants send ctx e p s)"
proof -
  have "good s \<Longrightarrow> good (fold (\<lambda>q. send (sp_user_id q) e p) qs s)" for qs
    by (induction qs arbitrary: s) (simp_all add: send_good)
  then show "good s \<Longrightarrow> ?thesis" by (simp add: BroadcastToParticipants_def)
qed

lemma step_good:
  assumes "sm_inv (fst w)" "good (snd w)"
  shows "good (snd (session_step send finalize op w))"
proof (cases op)
  case (StartOp n now)
  obtain sm s where w: "w = (sm, s)" by (cases w)
  show ?thesis
    using assms
    by (cases rule: RunStart_cases [of send now n sm s]) (simp_all add: StartOp w broadcast_good)
next
  case (TimerOp n now ended_at)
  obtain sm s where w: "w = (sm, s)" by (cases w)
  from assms w have "sm_inv sm" by simp
  then show ?thesis
    using assms
    by (cases rule: RunTimer_cases [where send = send and finalize = finalize and now = now
          and ended_at = ended_at and n = n and s = s])
      (simp_all add: TimerOp w broadcast_good finalize_good)
qed (simp_all add: assms)

lemma put_results_match:
  assumes "results_match found' sm" "um_find (contexts sm) n = Some old" "\<not> ended old" "\<not> ended new"
  shows "results_match found' (put_ctx n new sm)"
  using assms by (auto simp: results_match_def)

lemma step_results:
  assumes inv: "sm_inv (fst w)" and match: "results_match (found (snd w)) (fst w)"
  shows "results_match (found (snd (session_step send finalize op w))) (fst (session_step send finalize op w))"
proof (cases op)
  case (CreateOp ps)
  let ?n = "next_session_id (fst w)"
  have "um_find (contexts (fst w)) ?n = None" using sm_inv_ctx(2) [OF inv, of ?n] by fastforce
  with match CreateOp show ?thesis
    by (auto simp: results_match_def CreateSession_views) (simp_all add: new_ctx_def)
next
  case (StartOp n now)
  obtain sm s where w: "w = (sm, s)" by (cases w)
  show ?thesis
  proof (cases rule: RunStart_cases [of send now n sm s])
    case idle
    with StartOp w match show ?thesis by simp
  next
    case (start ctx)
    have "\<not> ended ctx" using started_local [OF sm_inv_ctx(1) [OF inv], of n ctx] start w by simp
    with StartOp w match start show ?thesis by (simp add: put_results_match)
  qed
next
  case (TimerOp n now ended_at)
  obtain sm s where w: "w = (sm, s)" by (cases w)
  from inv w have sinv: "sm_inv sm" by simp
  then show ?thesis
  proof (cases rule: RunTimer_cases [where send = send and finalize = finalize and now = now
        and ended_at = ended_at and n = n and s = s])
    case idle
    with TimerOp w match show ?thesis by simp
  next
    case (running ctx)
    then have "um_find (contexts sm) n = Some ctx" "\<not> ended ctx" "\<not> ended (ScheduleTick (ticked ctx))"
      by (simp_all add: live_def ticked_def ScheduleTick_def)
    with TimerOp w match running(4) show ?thesis by (simp add: put_results_match)
  next
    case (last ctx p1 p2)
    then have ctx: "um_find (contexts sm) n = Some ctx" "\<not> ended ctx" by (simp_all add: live_def)
    have id: "ctx_id (ticked ctx) = session_name n"
      using ctx_local_parts(1) [OF sm_inv_ctx(1) [OF sinv ctx(1)]] by (simp add: ticked_def)
    have rec: "result_record t (c\<lparr>ended := True\<rparr>) q1 q2 = result_record t c q1 q2" for t c q1 q2
      by (simp add: result_record_def)
    have rid: "mr_session_id (result_record t c q1 q2) = ctx_id c" for t c q1 q2
      by (simp add: result_record_def Let_def)
    have ps: "participants (ticked ctx) = [p1, p2]" using last by (simp add: ticked_def)
    have none: "found s (session_name n) = None" using match ctx w by (simp add: results_match_def)
    show ?thesis
      using match w ctx ps none
      by (auto simp: TimerOp last(5) results_match_def finished_manager_def finalize_found rec rid id
          split: if_splits)
  qed
next
  case (SubmitOp input)
  from inv show ?thesis
  proof (cases rule: SubmitInput_cases [where input = input])
    case none
    with SubmitOp match show ?thesis by simp
  next
    case (live n ctx)
    then have "um_find (contexts (fst w)) n = Some ctx" "\<not> ended ctx" by (simp_all add: live_def)
    with SubmitOp match live(3) show ?thesis by (simp add: put_results_match)
  qed
next
  case (TaskOp n input)
  from inv show ?thesis
  proof (cases rule: RunInput_cases [where n = n and input = input])
    case refused
    with TaskOp match show ?thesis by simp
  next
    case (judged ctx)
    then have "um_find (contexts (fst w)) n = Some ctx" "\<not> ended ctx" by (simp_all add: live_def)
    with TaskOp match judged(3) show ?thesis by (simp add: put_results_match)
  qed
qed

lemma run_results:
  assumes "sm_inv (fst w)" "good (snd w)" "results_match (found (snd w)) (fst w)"
  shows "let w' = fold (session_step send finalize) ops w
         in sm_inv (fst w') \<and> good (snd w') \<and> results_match (found (snd w')) (fst w')"
  using assms
proof (induction ops arbitrary: w)
  case (Cons op ops)
  show ?case
    using Cons.IH [OF session_step_inv [OF Cons.prems(1)] step_good [OF Cons.prems(1,2)]
        step_results [OF Cons.prems(1,3)]]
    by simp
qed simp

end

section \<open>Properties\<close>

definition sample_players :: "SessionParticipant list" where
  "sample_players = [\<lparr>sp_user_id = 1, sp_username = ''ann''\<rparr>, \<lparr>sp_user_id = 2, sp_username = ''bob''\<rparr>]"

definition sample_manager :: SessionManager where
  "sample_manager = snd (CreateSession sample_players (make_SessionManager 100 5))"

lemma sample_manager_inv: "sm_inv sample_manager"
  unfolding sample_manager_def
  by (rule CreateSession_inv [OF sm_inv_init])
    (simp add: can_create_def sample_players_def IsUserInSession_def make_SessionManager_def)

lemma sample_manager_ctx: "um_find (contexts sample_manager) 1 = Some (new_ctx 1 sample_players)"
  by (simp add: sample_manager_def CreateSession_views) (simp add: make_SessionManager_def)

definition sample_input :: SessionInput where
  "sample_input = \<lparr>si_session_id = ''session-1'', si_user_id = 2, si_sequence = 1, si_target_tick = 3, si_delta = 1\<rparr>"

definition sample_started :: "SessionManager \<times> unit" where
  "sample_started = RunStart (\<lambda>u e p s. s) 0 1 (sample_manager, ())"

definition sample_started_ctx :: SessionContext where
  "sample_started_ctx = (new_ctx 1 sample_players)\<lparr>start_pending := False, timer_armed := True\<rparr>"

lemma sample_started:
  "sm_inv (fst sample_started)" "um_find (contexts (fst sample_started)) 1 = Some sample_started_ctx"
  "session_ticks (fst sample_started) = 5" "SubmitLookup sample_input (fst sample_started) = Inr 1"
proof -
  show inv: "sm_inv (fst sample_started)" unfolding sample_started_def by (rule RunStart_inv [OF sample_manager_inv])
  have run: "fst sample_started = put_ctx 1 sample_started_ctx sample_manager"
    unfolding sample_started_def
    by (subst RunStart_pending [OF sample_manager_ctx]) (simp_all add: new_ctx_def sample_started_ctx_def)
  then show ctx: "um_find (contexts (fst sample_started)) 1 = Some sample_started_ctx"
    and "session_ticks (fst sample_started) = 5"
    by (simp_all add: sample_manager_def CreateSession_views) (simp add: session_ticks_def make_SessionManager_def)
  show "SubmitLookup sample_input (fst sample_started) = Inr 1"
    by (rule SubmitLookup_live [OF inv, of _ sample_started_ctx])
      (use ctx in \<open>simp_all add: live_def sample_started_ctx_def new_ctx_def sample_input_def sample_players_def\<close>)
qed

text \<open>No run of the session manager makes a tick throw: the two \<open>participants.at\<close> calls of the
  finishing tick are always in range.\<close>

lemma ticks_never_throw:
  "\<exists>w'. RunTimer send finalize now ended_at n
     (fold (session_step send finalize) ops (make_SessionManager interval k, s)) = Inr w'"
proof -
  let ?w = "fold (session_step send finalize) ops (make_SessionManager interval k, s)"
  have "sm_inv (fst ?w)" by (rule session_machine.run_keeps) (simp add: sm_inv_init)
  from RunTimer_inv [OF this, of send finalize now ended_at n "snd ?w"] show ?thesis by auto
qed

text \<open>The winner of a session is the participant with the better position, and the one with the
  smaller id at a draw; ids and positions are read through the JSON snapshot as 32-bit integers, which
  is exact as long as 12 times the number of ticks fits.\<close>

lemma winner_is_best:
  assumes "sm_inv sm" "um_find (contexts sm) n = Some ctx" "participants ctx = [p1, p2]"
    and "int32 (sp_user_id p1)" "int32 (sp_user_id p2)" "12 * int (tick_sent ctx) < 2 ^ 31"
  shows "winner_of (Snapshot (simulation ctx)) =
    (let pos = (\<lambda>p. position (player_of (players (simulation ctx)) (sp_user_id p)))
     in if pos p1 > pos p2 \<or> (pos p1 = pos p2 \<and> sp_user_id p1 < sp_user_id p2)
        then sp_user_id p1 else sp_user_id p2)"
proof -
  let ?sim = "simulation ctx" and ?a = "sp_user_id p1" and ?b = "sp_user_id p2"
  have local: "ctx_local (session_ticks sm) n ctx" using assms(1,2) by (rule sm_inv_ctx)
  have neq: "?a \<noteq> ?b" using local assms(3) by (simp add: ctx_local_def)
  have wf: "um_wf (players ?sim)" using ctx_local_parts(2) [OF local] by (simp add: sim_inv_def)
  have dom: "um_find (players ?sim) u \<noteq> None \<longleftrightarrow> u = ?a \<or> u = ?b" for u
    using ctx_local_parts(5) [OF local, of u] assms(3) by simp
  have pos: "- (2 ^ 31) < position (player_of (players ?sim) u) \<and> position (player_of (players ?sim) u) < 2 ^ 31" for u
  proof -
    have "\<bar>position (player_of (players ?sim) u)\<bar> \<le> 12 * current_tick ?sim"
      using ctx_local_parts(2) [OF local] by (simp add: sim_inv_def)
    with assms(6) ctx_local_parts(3) [OF local] show ?thesis by (simp add: abs_le_iff)
  qed
  show ?thesis
  proof (cases "?a < ?b")
    case True
    show ?thesis using winner_of_two [OF wf dom True assms(4,5) pos] True by (simp add: Let_def)
  next
    case False
    with neq have lt: "?b < ?a" by simp
    have dom': "um_find (players ?sim) u \<noteq> None \<longleftrightarrow> u = ?b \<or> u = ?a" for u using dom [of u] by blast
    show ?thesis using winner_of_two [OF wf dom' lt assms(5,4) pos] lt by (auto simp: Let_def)
  qed
qed

lemma winner_is_best_sample: "winner_of (Snapshot (simulation (new_ctx 1 sample_players))) = 1"
  using winner_is_best [OF sample_manager_inv sample_manager_ctx, of "\<lparr>sp_user_id = 1, sp_username = ''ann''\<rparr>"
      "\<lparr>sp_user_id = 2, sp_username = ''bob''\<rparr>"]
  by (simp add: new_ctx_def sample_players_def int32_def player_of_def make_Simulation_def AddPlayer_def)

text \<open>C34: An input goes to the session its user is in when it arrives, whatever session id it names. Whatever
  other tasks run before its own, it is judged by the simulation of that session at that moment; if the
  session has ended meanwhile, the answer is \<open>session_closed\<close> and nothing changes. The answer
  \<open>not_participant\<close> never occurs.\<close>

theorem input_judged_by_own_session:
  assumes "sm_inv (fst w)" "SubmitLookup input (fst w) = Inr n"
    and "sm' = fst (fold (session_step send finalize) ops w)"
  shows "SubmitLookup (input\<lparr>si_session_id := sid\<rparr>) (fst w) = Inr n \<and>
    (\<exists>ctx. um_find (contexts sm') n = Some ctx \<and> si_user_id input \<in> set (user_ids (participants ctx)) \<and>
      RunInput n (input\<lparr>si_session_id := sid\<rparr>) sm' =
       (if ended ctx then (Some (''session_closed'', msg_session_closed), sm')
        else (map_option (\<lambda>r. (''input_invalid'', r)) (ValidateInput (command_of input) (simulation ctx)),
          put_ctx n (ctx\<lparr>simulation := snd (EnqueueInput (command_of input) (simulation ctx))\<rparr>) sm')))"
proof -
  let ?input = "input\<lparr>si_session_id := sid\<rparr>"
  have same: "command_of ?input = command_of input" "si_user_id ?input = si_user_id input"
    by (simp_all add: command_of_def)
  have lookup: "SubmitLookup ?input (fst w) = Inr n" using assms(2) by (simp add: SubmitLookup_def)
  obtain ctx where ctx: "live (fst w) n ctx" "si_user_id input \<in> set (user_ids (participants ctx))"
    using SubmitLookup_found [OF assms(1,2)] by blast
  then obtain ctx' where ctx': "um_find (contexts sm') n = Some ctx'" "participants ctx' = participants ctx"
    using session_run_ctx [OF assms(1), of n ctx send finalize ops] assms(3) by (auto simp: live_def)
  have inv: "sm_inv sm'" using session_machine.run_keeps [OF assms(1), of send finalize ops] assms(3) by simp
  show ?thesis
  proof (cases "ended ctx'")
    case True
    with lookup ctx ctx' RunInput_ended [OF ctx'(1) True] show ?thesis by auto
  next
    case False
    with ctx' have "live sm' n ctx'" by (simp add: live_def)
    with lookup ctx ctx' False RunInput_live [OF inv, of n ctx' ?input] show ?thesis by (auto simp: same)
  qed
qed

theorem input_judged_by_own_session_witness:
  "fst (RunInput 1 sample_input (fst (fold (session_step (\<lambda>u e p s. s) (\<lambda>r ps s. s))
      (replicate 5 (TimerOp 1 0 0)) sample_started))) = Some (''session_closed'', msg_session_closed)"
proof -
  let ?ops = "replicate 5 (TimerOp 1 0 0)" and ?step = "session_step (\<lambda>u e p s. s) (\<lambda>r ps s. s)"
  have "ticks_in 1 ?ops = 5" by (simp add: ticks_in_def numeral_eq_Suc)
  moreover have "\<not> start_pending sample_started_ctx" "tick_sent sample_started_ctx = 0"
    by (simp_all add: sample_started_ctx_def new_ctx_def)
  ultimately have "\<exists>c. um_find (contexts (fst (fold ?step ?ops sample_started))) 1 = Some c \<and> ended c"
    using session_progress [OF sample_started(1,2), of "\<lambda>u e p s. s" "\<lambda>r ps s. s" ?ops]
    unfolding sample_started(3) by (metis add_0 min.idem)
  moreover have "sample_input\<lparr>si_session_id := ''session-1''\<rparr> = sample_input" by (simp add: sample_input_def)
  ultimately show ?thesis
    using input_judged_by_own_session [OF sample_started(1,4) refl, where send = "\<lambda>u e p s. s"
        and finalize = "\<lambda>r ps s. s" and ops = ?ops and sid = "''session-1''"]
    by auto
qed

end
