(* ===== verification/SessionTrace.thy ===== *)
theory SessionTrace
  imports SessionOutcome
begin

text \<open>
  The events of a session in the order they are sent. The sessions run here over a log: \<open>send\<close>
  appends the user, the event and its payload. Every participant is sent
  created, started, one state per tick, and ended, in this order, whatever other sessions do.
\<close>

type_synonym event_log = "(int \<times> string \<times> json) list"

definition log_send :: "int \<Rightarrow> string \<Rightarrow> json \<Rightarrow> event_log \<Rightarrow> event_log" where
  "log_send u e p l = l @ [(u, e, p)]"

definition log_finalize :: "MatchResultRecord \<Rightarrow> SessionParticipant list \<Rightarrow> event_log \<Rightarrow> event_log" where
  "log_finalize r ps l = l"

text \<open>The names of the events that user \<open>u\<close> was sent about session \<open>sid\<close>.\<close>

definition events_about :: "string \<Rightarrow> int \<Rightarrow> event_log \<Rightarrow> string list" where
  "events_about sid u l =
     map (\<lambda>(v, e, p). e) (filter (\<lambda>(v, e, p). v = u \<and> json_find p ''sessionId'' = Some (JString sid)) l)"

definition lifecycle :: "SessionContext \<Rightarrow> string list" where
  "lifecycle ctx =
     (if start_pending ctx then [] else [''session.created'', ''session.started''])
     @ replicate (tick_sent ctx) ''session.state''
     @ (if ended ctx then [''session.ended''] else [])"

lemma events_about_append [simp]:
  "events_about sid u (l @ l') = events_about sid u l @ events_about sid u l'"
  by (simp add: events_about_def)

lemma log_broadcast:
  "BroadcastToParticipants log_send ctx e p l = l @ map (\<lambda>q. (sp_user_id q, e, p)) (participants ctx)"
proof -
  have "fold (\<lambda>q. log_send (sp_user_id q) e p) qs l = l @ map (\<lambda>q. (sp_user_id q, e, p)) qs" for qs
    by (induction qs arbitrary: l) (simp_all add: log_send_def)
  then show ?thesis by (simp add: BroadcastToParticipants_def)
qed

lemma events_about_broadcast:
  assumes "participants ctx = [p1, p2]" "sp_user_id p1 \<noteq> sp_user_id p2"
    and "json_find p ''sessionId'' = Some (JString (session_name n))"
  shows "events_about (session_name m) u (BroadcastToParticipants log_send ctx e p l) =
    events_about (session_name m) u l @ (if m = n \<and> u \<in> set (user_ids (participants ctx)) then [e] else [])"
  using assms by (auto simp: log_broadcast events_about_def)

lemma payload_sessions:
  "json_find (created_payload now ctx) ''sessionId'' = Some (JString (ctx_id ctx))"
  "json_find (started_payload i ctx) ''sessionId'' = Some (JString (ctx_id ctx))"
  "json_find (state_payload now ctx) ''sessionId'' = Some (JString (ctx_id ctx))"
  "json_find (ended_payload ctx) ''sessionId'' = Some (JString (ctx_id ctx))"
  by (simp_all add: created_payload_def started_payload_def state_payload_def ended_payload_def Let_def)

text \<open>Broadcasting one of the four events of session \<open>n\<close>.\<close>

lemma session_broadcast:
  assumes "ctx_local k n ctx"
    "json_find p ''sessionId'' = Some (JString (ctx_id ctx))" "participants c = participants ctx"
  shows "events_about (session_name m) u (BroadcastToParticipants log_send c e p l) =
    events_about (session_name m) u l @ (if m = n \<and> u \<in> set (user_ids (participants ctx)) then [e] else [])"
proof -
  obtain p1 p2 where ps: "participants ctx = [p1, p2]" "sp_user_id p1 \<noteq> sp_user_id p2"
    using ctx_local_parts(4) [OF assms(1)] by blast
  have "json_find p ''sessionId'' = Some (JString (session_name n))"
    using assms(2) ctx_local_parts(1) [OF assms(1)] by simp
  from events_about_broadcast [OF _ ps(2) this, of c] show ?thesis using ps assms(3) by simp
qed

definition log_inv :: "SessionManager \<times> event_log \<Rightarrow> bool" where
  "log_inv w \<longleftrightarrow> sm_inv (fst w) \<and>
     (\<forall>n u. events_about (session_name n) u (snd w) =
        (case um_find (contexts (fst w)) n of None \<Rightarrow> []
         | Some ctx \<Rightarrow> if u \<in> set (user_ids (participants ctx)) then lifecycle ctx else []))"

lemma log_inv_init: "log_inv (make_SessionManager i k, [])"
  by (simp add: log_inv_def sm_inv_init events_about_def) (simp add: make_SessionManager_def)

text \<open>Replacing context \<open>n\<close> and appending its new events.\<close>

lemma log_inv_put:
  assumes inv: "log_inv (sm, l)" and ctx: "um_find (contexts sm) n = Some ctx"
    and sm': "sm_inv sm'" "contexts sm' = um_put n ctx' (contexts sm)"
    and ps: "participants ctx' = participants ctx" and life: "lifecycle ctx' = lifecycle ctx @ es"
    and ev: "\<forall>m u. events_about (session_name m) u l' = events_about (session_name m) u l @
      (if m = n \<and> u \<in> set (user_ids (participants ctx)) then es else [])"
  shows "log_inv (sm', l')"
  using assms by (auto simp: log_inv_def split: option.splits)

lemma lifecycle_start:
  "start_pending ctx \<Longrightarrow> tick_sent ctx = 0 \<Longrightarrow> \<not> ended ctx \<Longrightarrow>
     lifecycle (ctx\<lparr>start_pending := False, timer_armed := True\<rparr>) =
       lifecycle ctx @ [''session.created'', ''session.started'']"
  by (simp add: lifecycle_def)

lemma lifecycle_tick:
  "\<not> ended ctx \<Longrightarrow> lifecycle (ScheduleTick (ticked ctx)) = lifecycle ctx @ [''session.state'']"
  "\<not> ended ctx \<Longrightarrow> lifecycle ((ticked ctx)\<lparr>ended := True\<rparr>) = lifecycle ctx @ [''session.state'', ''session.ended'']"
  by (simp_all add: lifecycle_def ticked_def ScheduleTick_def replicate_append_same [symmetric])

lemma log_inv_create:
  assumes inv: "log_inv (sm, l)" and can: "can_create ps sm"
  shows "log_inv (snd (CreateSession ps sm), l)"
proof -
  let ?n = "next_session_id sm"
  have sinv: "sm_inv sm" using inv by (simp add: log_inv_def)
  have "um_find (contexts sm) ?n = None" using sm_inv_ctx(2) [OF sinv, of ?n] by fastforce
  then have "events_about (session_name ?n) u l = []" for u using inv by (simp add: log_inv_def)
  moreover have "lifecycle (new_ctx ?n ps) = []" by (simp add: lifecycle_def new_ctx_def)
  ultimately show ?thesis
    using inv CreateSession_inv [OF sinv can] by (simp add: log_inv_def CreateSession_views)
qed

lemma log_inv_start:
  assumes inv: "log_inv (sm, l)"
  shows "log_inv (RunStart log_send now n (sm, l))"
proof (cases rule: RunStart_cases [of log_send now n sm l])
  case idle
  with inv show ?thesis by simp
next
  case (start ctx)
  have sinv: "sm_inv sm" using inv by (simp add: log_inv_def)
  have local: "ctx_local (session_ticks sm) n ctx" using sm_inv_ctx [OF sinv start(1)] by simp
  then have fresh: "tick_sent ctx = 0" "\<not> ended ctx" using start(2) by (auto simp: ctx_local_def split: if_splits)
  have sinv': "sm_inv (put_ctx n (ctx\<lparr>start_pending := False, timer_armed := True\<rparr>) sm)"
    using RunStart_inv [OF sinv, of log_send now n l] start(3) by simp
  show ?thesis
    unfolding start(3)
    by (rule log_inv_put [OF inv start(1) sinv' _ _ lifecycle_start [OF start(2) fresh]])
      (simp_all add: session_broadcast [OF local] payload_sessions)
qed

lemma log_inv_timer:
  assumes inv: "log_inv (sm, l)"
  shows "log_inv (case RunTimer log_send log_finalize now ended_at n (sm, l) of Inl e \<Rightarrow> (sm, l) | Inr w' \<Rightarrow> w')"
proof -
  have sinv: "sm_inv sm" using inv by (simp add: log_inv_def)
  then have inv_after: "sm_inv sm'" if "RunTimer log_send log_finalize now ended_at n (sm, l) = Inr (sm', l')" for sm' l'
    using RunTimer_inv [OF sinv, of log_send log_finalize now ended_at n l] that by auto
  from sinv show ?thesis
  proof (cases rule: RunTimer_cases [where send = log_send and finalize = log_finalize and now = now
        and ended_at = ended_at and n = n and s = l])
    case idle
    with inv show ?thesis by simp
  next
    case (running ctx)
    then have ctx: "um_find (contexts sm) n = Some ctx" "\<not> ended ctx" by (simp_all add: live_def)
    have local: "ctx_local (session_ticks sm) n ctx" using sm_inv_ctx [OF sinv ctx(1)] by simp
    have same: "ctx_id (ticked ctx) = ctx_id ctx" "participants (ticked ctx) = participants ctx"
      by (simp_all add: ticked_def)
    show ?thesis
      unfolding running(4) sum.case
      by (rule log_inv_put [OF inv ctx(1) inv_after [OF running(4)] _ _ lifecycle_tick(1) [OF ctx(2)]])
        (simp_all add: session_broadcast [OF local] payload_sessions same ScheduleTick_def)
  next
    case (last ctx p1 p2)
    then have ctx: "um_find (contexts sm) n = Some ctx" "\<not> ended ctx" by (simp_all add: live_def)
    have local: "ctx_local (session_ticks sm) n ctx" using sm_inv_ctx [OF sinv ctx(1)] by simp
    have same: "ctx_id (ticked ctx) = ctx_id ctx" "participants (ticked ctx) = participants ctx"
      by (simp_all add: ticked_def)
    show ?thesis
      unfolding last(5) sum.case
      by (rule log_inv_put [OF inv ctx(1) inv_after [OF last(5)] _ _ lifecycle_tick(2) [OF ctx(2)]])
        (simp_all add: session_broadcast [OF local] payload_sessions same log_finalize_def finished_manager_def)
  qed
qed

text \<open>An input changes the simulation of its session and sends no event.\<close>

lemma log_inv_enqueued:
  assumes inv: "log_inv (sm, l)" and live: "live sm n ctx" and u: "si_user_id input \<in> set (user_ids (participants ctx))"
  shows "log_inv (put_ctx n (ctx\<lparr>simulation := snd (EnqueueInput (command_of input) (simulation ctx))\<rparr>) sm, l)"
proof -
  have sinv: "sm_inv sm" using inv by (simp add: log_inv_def)
  from live have ctx: "um_find (contexts sm) n = Some ctx" by (simp add: live_def)
  show ?thesis
    by (rule log_inv_put [OF inv ctx enqueued_inv [OF sinv live u], where es = "[]"
          and ctx' = "ctx\<lparr>simulation := snd (EnqueueInput (command_of input) (simulation ctx))\<rparr>"])
      (simp_all add: lifecycle_def)
qed

lemma log_inv_sm: "log_inv (sm, l) \<Longrightarrow> sm_inv sm"
  by (simp add: log_inv_def)

lemma log_inv_submit: "log_inv (sm, l) \<Longrightarrow> log_inv (snd (SubmitInput input sm), l)"
  by (rule SubmitInput_cases [of sm input]) (auto simp: log_inv_enqueued simp del: put_ctx_proj dest: log_inv_sm)

lemma log_inv_task: "log_inv (sm, l) \<Longrightarrow> log_inv (snd (RunInput n input sm), l)"
  by (rule RunInput_cases [of sm n input]) (auto simp: log_inv_enqueued simp del: put_ctx_proj dest: log_inv_sm)

lemma log_step: "log_inv w \<Longrightarrow> log_inv (session_step log_send log_finalize op w)"
  by (cases w; cases op)
    (simp_all add: log_inv_create log_inv_start log_inv_timer log_inv_submit log_inv_task)

interpretation log_machine: machine "session_step log_send log_finalize" log_inv
  by unfold_locales (rule log_step)

section \<open>Properties\<close>

text \<open>C7: In every run, what a participant has been sent about a session is: created and started once the
  session has started, then one state event per tick, then ended if it is ended, in this order and
  nothing else; a user who does not take part is sent nothing about it.\<close>

theorem session_event_order:
  "let w = fold (session_step log_send log_finalize) ops (make_SessionManager interval k, [])
   in events_about (session_name n) u (snd w) =
     (case um_find (contexts (fst w)) n of
        None \<Rightarrow> []
      | Some ctx \<Rightarrow> if u \<in> set (user_ids (participants ctx)) then lifecycle ctx else [])"
  using log_machine.run_keeps [OF log_inv_init [of interval k], of ops] by (simp add: log_inv_def Let_def)

end
