(* ===== verification/ApiResponse.thy ===== *)
theory ApiResponse
  imports Json IsoTime
begin

text \<open>
  The envelopes around every answer (\<open>api_response.cpp\<close>): REST successes and errors, and
  WebSocket messages. The clock reading that the code takes is an argument.
\<close>

definition CurrentTimestamp :: "time_ns \<Rightarrow> string" where
  "CurrentTimestamp now = ToIsoString now"

definition MakeSuccessEnvelope :: "time_ns \<Rightarrow> json \<Rightarrow> json" where
  "MakeSuccessEnvelope now data =
     json_obj [(''success'', JBool True), (''data'', data), (''error'', JNull),
       (''meta'', json_obj [(''timestamp'', JString (CurrentTimestamp now))])]"

definition MakeErrorEnvelope :: "time_ns \<Rightarrow> string \<Rightarrow> string \<Rightarrow> json" where
  "MakeErrorEnvelope now code message =
     json_obj [(''success'', JBool False), (''data'', JNull),
       (''error'', json_obj [(''code'', JString code), (''message'', JString message),
          (''detail'', JNull)]),
       (''meta'', json_obj [(''timestamp'', JString (CurrentTimestamp now))])]"

record WsEnvelope =
  env_type :: string
  env_event :: string
  env_seq :: nat
  env_payload :: json

definition ToWsJson :: "WsEnvelope \<Rightarrow> json" where
  "ToWsJson env =
     json_obj [(''t'', JString (env_type env)), (''seq'', JUnsigned (env_seq env)),
       (''event'', if env_type env = ''event'' then JString (env_event env) else JNull),
       (''p'', env_payload env)]"

lemma success_envelope_fields:
  "json_at (MakeSuccessEnvelope now d) ''success'' = JBool True"
  "json_at (MakeSuccessEnvelope now d) ''data'' = d"
  "json_at (MakeSuccessEnvelope now d) ''error'' = JNull"
  by (simp_all add: MakeSuccessEnvelope_def)

lemma error_envelope_fields:
  "json_at (MakeErrorEnvelope now c m) ''success'' = JBool False"
  "json_at (MakeErrorEnvelope now c m) ''data'' = JNull"
  "json_at (json_at (MakeErrorEnvelope now c m) ''error'') ''code'' = JString c"
  "json_at (json_at (MakeErrorEnvelope now c m) ''error'') ''message'' = JString m"
  by (simp_all add: MakeErrorEnvelope_def)

lemma ws_envelope_fields:
  "json_at (ToWsJson e) ''t'' = JString (env_type e)"
  "json_at (ToWsJson e) ''seq'' = JUnsigned (env_seq e)"
  "json_at (ToWsJson e) ''p'' = env_payload e"
  by (simp_all add: ToWsJson_def)

end
