(* ===== verification/WsSend.thy ===== *)
theory WsSend
  imports Auth ApiResponse "HOL-Library.Sublist"
begin

text \<open>
  A \<open>WebSocketSession\<close> and its send queue (\<open>websocket_session.cpp\<close>): back pressure, one write at a
  time, in order. The calls on the Beast stream are recorded in \<open>stream_calls\<close>; \<open>pending_writes\<close> holds the
  message of each \<open>async_write\<close> that has not completed (Beast allows one at a time, the type does not). The JSON printer \<open>dump\<close> is a parameter.
\<close>

datatype stream_call =
    AsyncRead
  | AsyncWrite string
  | AsyncClose nat string

record WebSocketSession =
  ws_session :: AuthSession
  send_queue :: "string list"
  queued_bytes :: nat
  writing :: bool
  closing :: bool
  max_queue_messages :: nat
  max_queue_bytes :: nat
  resume_token :: string
  ws_snapshot :: json
  snapshot_version :: int
  stream_calls :: "stream_call list"
  pending_read :: bool
  pending_writes :: "string list"

definition make_WebSocketSession :: "AuthSession \<Rightarrow> nat \<Rightarrow> nat \<Rightarrow> WebSocketSession" where
  "make_WebSocketSession session max_messages max_bytes =
     \<lparr>ws_session = session, send_queue = [], queued_bytes = 0, writing = False, closing = False,
      max_queue_messages = max_messages, max_queue_bytes = max_bytes, resume_token = [],
      ws_snapshot = JNull, snapshot_version = 1, stream_calls = [], pending_read = False,
      pending_writes = []\<rparr>"

section \<open>The send queue\<close>

definition policy_error :: nat where
  "policy_error = 1008"

definition TriggerBackpressureClose :: "WebSocketSession \<Rightarrow> WebSocketSession" where
  "TriggerBackpressureClose ws =
     (if closing ws then ws
      else ws\<lparr>closing := True, send_queue := [], queued_bytes := 0,
        stream_calls := stream_calls ws @ [AsyncClose policy_error ''backpressure_exceeded'']\<rparr>)"

definition WriteNext :: "WebSocketSession \<Rightarrow> WebSocketSession" where
  "WriteNext ws =
     (case send_queue ws of
        [] \<Rightarrow> ws
      | front # _ \<Rightarrow>
          if closing ws then ws
          else ws\<lparr>writing := True, stream_calls := stream_calls ws @ [AsyncWrite front],
            pending_writes := pending_writes ws @ [front]\<rparr>)"

definition EnqueueMessage :: "string \<Rightarrow> WebSocketSession \<Rightarrow> WebSocketSession" where
  "EnqueueMessage message ws =
     (if closing ws then ws
      else if length (send_queue ws) \<ge> max_queue_messages ws
            \<or> queued_bytes ws + length message > max_queue_bytes ws
      then TriggerBackpressureClose ws
      else
        (let ws1 = ws\<lparr>send_queue := send_queue ws @ [message],
               queued_bytes := queued_bytes ws + length message\<rparr>
         in if \<not> writing ws1 then WriteNext ws1 else ws1))"

text \<open>\<open>OnWrite\<close>: the completion handler of the oldest pending write; \<open>failed\<close> is its error code.\<close>

definition OnWrite :: "bool \<Rightarrow> WebSocketSession \<Rightarrow> WebSocketSession" where
  "OnWrite failed ws =
     (let ws0 = ws\<lparr>pending_writes := tl (pending_writes ws)\<rparr>;
          ws1 = (case send_queue ws0 of [] \<Rightarrow> ws0
                 | front # rest \<Rightarrow>
                     ws0\<lparr>queued_bytes := queued_bytes ws0 - length front, send_queue := rest\<rparr>)
      in if failed then ws1\<lparr>closing := True\<rparr>
         else
           (let ws2 = ws1\<lparr>writing := False\<rparr>
            in if send_queue ws2 \<noteq> [] then WriteNext ws2 else ws2))"

section \<open>Messages to the client\<close>

definition SendError :: "(json \<Rightarrow> string) \<Rightarrow> string \<Rightarrow> string \<Rightarrow> nat \<Rightarrow> WebSocketSession \<Rightarrow> WebSocketSession" where
  "SendError dump code message seq ws =
     EnqueueMessage (dump (ToWsJson \<lparr>env_type = ''error'', env_event = [], env_seq = seq,
       env_payload = json_obj [(''code'', JString code), (''message'', JString message)]\<rparr>)) ws"

definition SendServerEvent :: "(json \<Rightarrow> string) \<Rightarrow> string \<Rightarrow> json \<Rightarrow> WebSocketSession \<Rightarrow> WebSocketSession" where
  "SendServerEvent dump event payload ws =
     EnqueueMessage (dump (ToWsJson \<lparr>env_type = ''event'', env_event = event, env_seq = 0,
       env_payload = payload\<rparr>)) ws"

definition SendServerError :: "(json \<Rightarrow> string) \<Rightarrow> string \<Rightarrow> string \<Rightarrow> WebSocketSession \<Rightarrow> WebSocketSession" where
  "SendServerError dump code message ws =
     EnqueueMessage (dump (ToWsJson \<lparr>env_type = ''error'', env_event = [], env_seq = 0,
       env_payload = json_obj [(''code'', JString code), (''message'', JString message)]\<rparr>)) ws"

definition SendEcho :: "(json \<Rightarrow> string) \<Rightarrow> json \<Rightarrow> nat \<Rightarrow> WebSocketSession \<Rightarrow> WebSocketSession" where
  "SendEcho dump message seq ws =
     EnqueueMessage (dump (ToWsJson \<lparr>env_type = ''event'', env_event = ''echo'', env_seq = seq,
       env_payload = json_set ''userId'' (JInteger (au_user_id (as_user (ws_session ws)))) message\<rparr>)) ws"

definition SendResyncState :: "(json \<Rightarrow> string) \<Rightarrow> nat \<Rightarrow> WebSocketSession \<Rightarrow> WebSocketSession" where
  "SendResyncState dump seq ws =
     EnqueueMessage (dump (ToWsJson \<lparr>env_type = ''event'', env_event = ''resync_state'', env_seq = seq,
       env_payload = json_obj [(''resumeToken'', JString (resume_token ws)),
         (''snapshot'', ws_snapshot ws)]\<rparr>)) ws"

definition SendAuthState :: "(json \<Rightarrow> string) \<Rightarrow> WebSocketSession \<Rightarrow> WebSocketSession" where
  "SendAuthState dump ws =
     EnqueueMessage (dump (ToWsJson \<lparr>env_type = ''event'', env_event = ''auth_state'', env_seq = 0,
       env_payload = json_obj [(''userId'', JInteger (au_user_id (as_user (ws_session ws)))),
         (''username'', JString (au_username (as_user (ws_session ws)))),
         (''resumeToken'', JString (resume_token ws)),
         (''snapshotVersion'', JInteger (snapshot_version ws))]\<rparr>)) ws"

section \<open>Invariant\<close>

text \<open>The byte count is exact and within the limits; an open session writes exactly when its queue is
  not empty, and then the write that is pending is the one of the front message.\<close>

definition ws_inv :: "WebSocketSession \<Rightarrow> bool" where
  "ws_inv ws \<longleftrightarrow>
     queued_bytes ws = sum_list (map length (send_queue ws)) \<and>
     length (send_queue ws) \<le> max_queue_messages ws \<and>
     queued_bytes ws \<le> max_queue_bytes ws \<and>
     length (pending_writes ws) \<le> 1 \<and> (pending_writes ws \<noteq> [] \<longrightarrow> writing ws) \<and>
     (\<not> closing ws \<longrightarrow> pending_writes ws = take 1 (send_queue ws)
        \<and> (writing ws \<longleftrightarrow> send_queue ws \<noteq> []))"

lemma ws_inv_init: "ws_inv (make_WebSocketSession session n b)"
  by (simp add: ws_inv_def make_WebSocketSession_def)

lemma TriggerBackpressureClose_inv [inv_intros]: "ws_inv ws \<Longrightarrow> ws_inv (TriggerBackpressureClose ws)"
  by (simp add: ws_inv_def TriggerBackpressureClose_def)

lemma EnqueueMessage_inv [inv_intros]:
  assumes "ws_inv ws"
  shows "ws_inv (EnqueueMessage m ws)"
proof (cases "send_queue ws")
  case Nil
  with assms show ?thesis
    by (auto simp: EnqueueMessage_def Let_def WriteNext_def TriggerBackpressureClose_def ws_inv_def)
next
  case (Cons front rest)
  with assms show ?thesis
    by (auto simp: EnqueueMessage_def Let_def WriteNext_def TriggerBackpressureClose_def ws_inv_def)
qed

lemma OnWrite_inv [inv_intros]:
  assumes "ws_inv ws"
  shows "ws_inv (OnWrite failed ws)"
proof -
  have "tl (pending_writes ws) = []" using assms by (cases "pending_writes ws") (auto simp: ws_inv_def)
  with assms show ?thesis by (auto simp: OnWrite_def Let_def WriteNext_def ws_inv_def split: list.splits)
qed

lemma Send_inv [inv_intros]:
  "ws_inv ws \<Longrightarrow> ws_inv (SendError dump c m seq ws)"
  "ws_inv ws \<Longrightarrow> ws_inv (SendServerEvent dump e p ws)"
  "ws_inv ws \<Longrightarrow> ws_inv (SendServerError dump c m ws)"
  "ws_inv ws \<Longrightarrow> ws_inv (SendEcho dump j seq ws)"
  "ws_inv ws \<Longrightarrow> ws_inv (SendResyncState dump seq ws)"
  "ws_inv ws \<Longrightarrow> ws_inv (SendAuthState dump ws)"
  by (simp_all add: SendError_def SendServerEvent_def SendServerError_def SendEcho_def
      SendResyncState_def SendAuthState_def EnqueueMessage_inv)

section \<open>Frame\<close>

lemma EnqueueMessage_frame [simp]:
  "ws_session (EnqueueMessage m ws) = ws_session ws"
  "resume_token (EnqueueMessage m ws) = resume_token ws"
  "ws_snapshot (EnqueueMessage m ws) = ws_snapshot ws"
  "snapshot_version (EnqueueMessage m ws) = snapshot_version ws"
  "max_queue_messages (EnqueueMessage m ws) = max_queue_messages ws"
  "max_queue_bytes (EnqueueMessage m ws) = max_queue_bytes ws"
  "pending_read (EnqueueMessage m ws) = pending_read ws"
  by (simp_all add: EnqueueMessage_def WriteNext_def TriggerBackpressureClose_def Let_def split: list.splits)

lemma OnWrite_frame [simp]:
  "ws_session (OnWrite failed ws) = ws_session ws"
  "resume_token (OnWrite failed ws) = resume_token ws"
  "pending_read (OnWrite failed ws) = pending_read ws"
  by (simp_all add: OnWrite_def WriteNext_def Let_def split: list.splits)

lemma Send_frame [simp]:
  "ws_session (SendError dump c m seq ws) = ws_session ws"
  "ws_session (SendServerEvent dump e p ws) = ws_session ws"
  "ws_session (SendServerError dump c m ws) = ws_session ws"
  "ws_session (SendEcho dump j seq ws) = ws_session ws"
  "ws_session (SendResyncState dump seq ws) = ws_session ws"
  "ws_session (SendAuthState dump ws) = ws_session ws"
  by (simp_all add: SendError_def SendServerEvent_def SendServerError_def SendEcho_def
      SendResyncState_def SendAuthState_def)

section \<open>Runs of the queue\<close>

datatype queue_op = Enqueue string | WriteDone bool

text \<open>A completion can only happen while a write is pending.\<close>

fun queue_step :: "queue_op \<Rightarrow> WebSocketSession \<Rightarrow> WebSocketSession" where
  "queue_step (Enqueue m) ws = EnqueueMessage m ws"
| "queue_step (WriteDone failed) ws = (if pending_writes ws = [] then ws else OnWrite failed ws)"

interpretation send_machine: machine queue_step ws_inv
proof
  fix ws c assume "ws_inv ws"
  then show "ws_inv (queue_step c ws)" by (cases c) (auto intro: inv_intros)
qed

fun written_of :: "stream_call list \<Rightarrow> string list" where
  "written_of [] = []"
| "written_of (AsyncWrite m # cs) = m # written_of cs"
| "written_of (c # cs) = written_of cs"

lemma written_of_append [simp]: "written_of (cs @ ds) = written_of cs @ written_of ds"
  by (induction cs rule: written_of.induct) simp_all

fun enqueued_of :: "queue_op list \<Rightarrow> string list" where
  "enqueued_of [] = []"
| "enqueued_of (Enqueue m # ops) = m # enqueued_of ops"
| "enqueued_of (c # ops) = enqueued_of ops"

lemma enqueued_of_append [simp]: "enqueued_of (xs @ ys) = enqueued_of xs @ enqueued_of ys"
  by (induction xs rule: enqueued_of.induct) simp_all

text \<open>What was handed to the stream plus what still waits behind the front is what was enqueued;
  after the session started to close, what was handed over is a prefix of it.\<close>

definition in_order :: "string list \<Rightarrow> WebSocketSession \<Rightarrow> bool" where
  "in_order ms ws \<longleftrightarrow> prefix (written_of (stream_calls ws)) ms \<and>
     (\<not> closing ws \<longrightarrow> written_of (stream_calls ws) @ tl (send_queue ws) = ms)"

lemma in_order_enqueue:
  assumes "in_order ms ws" "ws_inv ws"
  shows "in_order (ms @ [m]) (EnqueueMessage m ws)"
proof (cases "closing ws")
  case True
  with assms(1) show ?thesis by (simp add: in_order_def EnqueueMessage_def prefix_append)
next
  case open_ws: False
  show ?thesis
  proof (cases "send_queue ws")
    case Nil
    with assms open_ws show ?thesis
      by (auto simp: in_order_def EnqueueMessage_def TriggerBackpressureClose_def WriteNext_def
          Let_def ws_inv_def prefix_append)
  next
    case (Cons front rest)
    with assms open_ws show ?thesis
      by (auto simp: in_order_def EnqueueMessage_def TriggerBackpressureClose_def Let_def ws_inv_def
          prefix_append)
  qed
qed

lemma in_order_done:
  assumes "in_order ms ws" "ws_inv ws"
  shows "in_order ms (queue_step (WriteDone failed) ws)"
proof (cases "closing ws")
  case True
  with assms(1) show ?thesis
    by (auto simp: in_order_def OnWrite_def Let_def WriteNext_def split: list.splits)
next
  case False
  then show ?thesis
    using assms by (auto simp: in_order_def OnWrite_def Let_def WriteNext_def ws_inv_def split: list.splits)
qed

lemma queue_run_in_order:
  "ws_inv ws \<Longrightarrow> in_order ms ws \<Longrightarrow> in_order (ms @ enqueued_of ops) (fold queue_step ops ws)"
proof (induction ops arbitrary: ws ms)
  case (Cons c ops)
  have inv: "ws_inv (queue_step c ws)" using Cons.prems(1) by (rule send_machine.step_keeps)
  show ?case
  proof (cases c)
    case (Enqueue m)
    with Cons.prems have "in_order (ms @ [m]) (queue_step c ws)" by (simp add: in_order_enqueue)
    with Cons.IH [OF inv] Enqueue show ?thesis by fastforce
  next
    case (WriteDone failed)
    with Cons.prems have "in_order ms (queue_step c ws)" using in_order_done by blast
    with Cons.IH [OF inv] WriteDone show ?thesis by simp
  qed
qed simp

section \<open>Properties\<close>

text \<open>C30: In every run of a connection the queue stays within both limits, its byte count is exact, and
  at most one of the writes that were started is under way, also while the connection closes; while it is
  open, the write under way is the one of the front message, and there is one exactly when the queue is
  not empty.\<close>

theorem send_queue_bounded:
  "let ws = fold queue_step ops (make_WebSocketSession session n b)
   in length (send_queue ws) \<le> n \<and> queued_bytes ws \<le> b \<and>
      queued_bytes ws = sum_list (map length (send_queue ws)) \<and>
      length (pending_writes ws) \<le> 1 \<and> (closing ws \<or> pending_writes ws = take 1 (send_queue ws))"
proof -
  have limits: "max_queue_messages (queue_step c ws) = max_queue_messages ws \<and>
      max_queue_bytes (queue_step c ws) = max_queue_bytes ws" for c ws
    by (cases c) (simp_all add: OnWrite_def WriteNext_def Let_def split: list.split)
  have "max_queue_messages (fold queue_step cs ws) = max_queue_messages ws \<and>
      max_queue_bytes (fold queue_step cs ws) = max_queue_bytes ws" for cs ws
    by (induction cs arbitrary: ws) (simp_all add: limits)
  moreover have "ws_inv (fold queue_step ops (make_WebSocketSession session n b))"
    by (rule send_machine.run_keeps [OF ws_inv_init])
  ultimately show ?thesis by (auto simp: ws_inv_def Let_def make_WebSocketSession_def)
qed

text \<open>C16: Messages reach the stream in the order they were enqueued, none twice and none left out; on a
  connection that closed, what was handed to the stream is a prefix.\<close>

theorem messages_in_order:
  "let ws = fold queue_step ops (make_WebSocketSession session n b); out = written_of (stream_calls ws)
   in prefix out (enqueued_of ops) \<and> (closing ws \<or> out @ tl (send_queue ws) = enqueued_of ops)"
proof -
  have "in_order [] (make_WebSocketSession session n b)"
    by (simp add: in_order_def make_WebSocketSession_def)
  from queue_run_in_order [OF ws_inv_init this, of ops] show ?thesis by (auto simp: in_order_def Let_def)
qed

definition sample_session :: AuthSession where
  "sample_session = \<lparr>as_token = ''t'', as_user = \<lparr>au_user_id = 7, au_username = ''ann''\<rparr>, as_expires_at = 9\<rparr>"

text \<open>A message over a limit closes the connection with the policy code and empties the queue even
  while a write is under way: the buffer of that write is the front message, which is destroyed.\<close>

lemma overflow_frees_pending_write:
  assumes "ws_inv ws" "\<not> closing ws" "send_queue ws \<noteq> []" "length (send_queue ws) = max_queue_messages ws"
  shows "let ws' = EnqueueMessage m ws
    in pending_writes ws' = [hd (send_queue ws)] \<and> send_queue ws' = [] \<and> closing ws' \<and>
       last (stream_calls ws') = AsyncClose 1008 ''backpressure_exceeded''"
  using assms
  by (cases "send_queue ws") (simp_all add: EnqueueMessage_def TriggerBackpressureClose_def ws_inv_def policy_error_def Let_def)

lemma overflow_frees_pending_write_witness:
  "let ws = EnqueueMessage ''a'' (make_WebSocketSession sample_session 1 9); ws' = EnqueueMessage ''b'' ws
   in pending_writes ws' = [''a''] \<and> send_queue ws' = [] \<and> closing ws'"
  using overflow_frees_pending_write [of "EnqueueMessage ''a'' (make_WebSocketSession sample_session 1 9)" "''b''"]
    EnqueueMessage_inv [OF ws_inv_init, of "''a''" sample_session 1 9]
  by (simp add: EnqueueMessage_def WriteNext_def make_WebSocketSession_def Let_def)

end
