(* ===== verification/Observability.thy ===== *)
theory Observability
  imports Json
begin

text \<open>
  \<open>Observability\<close>: request counters (64-bit atomics that wrap around), trace ids, and the structured
  log on standard output. The JSON printer is a parameter; for the log it is \<open>try_dump\<close>, which is
  \<open>None\<close> when \<open>nlohmann::json::dump\<close> throws \<open>type_error.316\<close> (a string that is not UTF-8): the name
  of a logged event is the request target as the client sent it.
\<close>

record LogContext =
  lc_trace_id :: string
  lc_user_id :: "int option"
  lc_session_id :: "string option"
  lc_name :: string
  lc_latency_ms :: int

record MetricsSnapshot =
  ms_request_total :: "64 word"
  ms_request_errors :: "64 word"
  ms_websocket_active :: "64 word"
  ms_active_sessions :: "64 word"
  ms_queue_length :: "64 word"

record Observability =
  request_total :: "64 word"
  request_errors :: "64 word"
  websocket_active :: "64 word"
  trace_counter :: "64 word"
  stdout_lines :: "string list"

definition make_Observability :: Observability where
  "make_Observability = \<lparr>request_total = 0, request_errors = 0, websocket_active = 0,
     trace_counter = 0, stdout_lines = []\<rparr>"

text \<open>\<open>std::hex\<close> prints a signed count as its unsigned 64-bit pattern.\<close>

definition NextTraceId :: "time_ns \<Rightarrow> Observability \<Rightarrow> string \<times> Observability" where
  "NextTraceId now ob =
     (show_base 16 (nat (take_bit 64 now)) @ ''-'' @ show_base 16 (unat (trace_counter ob)),
      ob\<lparr>trace_counter := trace_counter ob + 1\<rparr>)"

definition IncrementRequest :: "Observability \<Rightarrow> Observability" where
  "IncrementRequest ob = ob\<lparr>request_total := request_total ob + 1\<rparr>"

definition IncrementError :: "Observability \<Rightarrow> Observability" where
  "IncrementError ob = ob\<lparr>request_errors := request_errors ob + 1\<rparr>"

definition SetWebsocketActive :: "nat \<Rightarrow> Observability \<Rightarrow> Observability" where
  "SetWebsocketActive n ob = ob\<lparr>websocket_active := word_of_nat n\<rparr>"

definition MetricsSnapshotOf :: "nat \<Rightarrow> nat \<Rightarrow> Observability \<Rightarrow> MetricsSnapshot" where
  "MetricsSnapshotOf active_sessions queue_length ob =
     \<lparr>ms_request_total = request_total ob, ms_request_errors = request_errors ob,
      ms_websocket_active = websocket_active ob,
      ms_active_sessions = word_of_nat active_sessions, ms_queue_length = word_of_nat queue_length\<rparr>"

definition log_json :: "LogContext \<Rightarrow> json" where
  "log_json ctx =
     (let j0 = json_set ''latencyMs'' (JInteger (lc_latency_ms ctx))
            (json_set ''eventName'' (JString (lc_name ctx))
              (json_set ''traceId'' (JString (lc_trace_id ctx)) JNull));
          j1 = (case lc_user_id ctx of None \<Rightarrow> j0 | Some u \<Rightarrow> json_set ''userId'' (JInteger u) j0);
          j2 = (case lc_session_id ctx of None \<Rightarrow> j1 | Some s \<Rightarrow> json_set ''sessionId'' (JString s) j1)
      in j2)"

definition Log :: "(json \<Rightarrow> string option) \<Rightarrow> LogContext \<Rightarrow> Observability \<Rightarrow> exn + Observability" where
  "Log try_dump ctx ob =
     (case try_dump (log_json ctx) of
        None \<Rightarrow> Inl (RuntimeError ''type_error.316'')
      | Some line \<Rightarrow> Inr (ob\<lparr>stdout_lines := stdout_lines ob @ [line]\<rparr>))"

text \<open>Two trace ids are equal only if the counters that made them are: the part after the dash is
  the counter.\<close>

lemma NextTraceId_counter:
  assumes "fst (NextTraceId now ob) = fst (NextTraceId now' ob')"
  shows "trace_counter ob = trace_counter ob'"
proof -
  have "show_base 16 (unat (trace_counter ob)) = show_base 16 (unat (trace_counter ob'))"
    using assms show_base_no_dash [of 16]
    by (simp add: NextTraceId_def append_Cons_eq_iff)
  then have "read_base 16 (show_base 16 (unat (trace_counter ob)))
      = read_base 16 (show_base 16 (unat (trace_counter ob')))" by simp
  then show ?thesis by (simp add: read_show_base word_unat_eq_iff)
qed

end
