(* ===== verification/Realtime.thy ===== *)
theory Realtime
  imports WsSend Observability
begin

text \<open>
  \<open>RealtimeCoordinator\<close> of \<open>realtime.cpp\<close>: which WebSocket session each user is reached through. The
  sessions live in \<open>ws_heap\<close> (the objects owned by \<open>shared_ptr\<close>s, by address); a \<open>weak_ptr\<close> is an
  address, and locking it is looking it up. The coordinator reports its size to \<open>Observability\<close>.
\<close>

record Entry =
  entry_session :: nat
  entry_raw :: nat

record RealtimeCoordinator =
  connections :: "(int, Entry) umap"
  observed :: bool

text \<open>The coordinator with what it points to.\<close>

record Network =
  coordinator :: RealtimeCoordinator
  ws_heap :: "(nat, WebSocketSession) umap"
  observability :: Observability

definition make_Network :: Network where
  "make_Network = \<lparr>coordinator = \<lparr>connections = [], observed = False\<rparr>, ws_heap = [],
     observability = make_Observability\<rparr>"

definition SetObservability :: "Network \<Rightarrow> Network" where
  "SetObservability net = net\<lparr>coordinator := (coordinator net)\<lparr>observed := True\<rparr>\<rparr>"

definition ActiveConnections :: "Network \<Rightarrow> nat" where
  "ActiveConnections net = um_size (connections (coordinator net))"

definition with_connections :: "(int, Entry) umap \<Rightarrow> Network \<Rightarrow> Network" where
  "with_connections cs net =
     (let net1 = net\<lparr>coordinator := (coordinator net)\<lparr>connections := cs\<rparr>\<rparr>
      in if observed (coordinator net1)
         then net1\<lparr>observability := SetWebsocketActive (um_size cs) (observability net1)\<rparr>
         else net1)"

definition Register :: "int \<Rightarrow> nat \<Rightarrow> Network \<Rightarrow> Network" where
  "Register user_id session net =
     with_connections
       (um_put user_id \<lparr>entry_session = session, entry_raw = session\<rparr> (connections (coordinator net))) net"

definition Unregister :: "int \<Rightarrow> nat \<Rightarrow> Network \<Rightarrow> Network" where
  "Unregister user_id session net =
     (case um_find (connections (coordinator net)) user_id of
        None \<Rightarrow> net
      | Some e \<Rightarrow>
          if entry_raw e = session
          then with_connections (um_erase user_id (connections (coordinator net))) net
          else net)"

definition lock_session :: "int \<Rightarrow> Network \<Rightarrow> (nat \<times> WebSocketSession) option" where
  "lock_session user_id net =
     (case um_find (connections (coordinator net)) user_id of
        None \<Rightarrow> None
      | Some e \<Rightarrow>
          (case um_find (ws_heap net) (entry_session e) of
             None \<Rightarrow> None
           | Some ws \<Rightarrow> Some (entry_session e, ws)))"

definition put_ws :: "nat \<Rightarrow> WebSocketSession \<Rightarrow> Network \<Rightarrow> Network" where
  "put_ws r ws net = net\<lparr>ws_heap := um_put r ws (ws_heap net)\<rparr>"

definition SendEventToUser :: "(json \<Rightarrow> string) \<Rightarrow> int \<Rightarrow> string \<Rightarrow> json \<Rightarrow> Network \<Rightarrow> Network" where
  "SendEventToUser dump user_id event payload net =
     (case lock_session user_id net of
        None \<Rightarrow> net
      | Some (r, ws) \<Rightarrow> put_ws r (SendServerEvent dump event payload ws) net)"

definition SendErrorToUser :: "(json \<Rightarrow> string) \<Rightarrow> int \<Rightarrow> string \<Rightarrow> string \<Rightarrow> Network \<Rightarrow> Network" where
  "SendErrorToUser dump user_id code message net =
     (case lock_session user_id net of
        None \<Rightarrow> net
      | Some (r, ws) \<Rightarrow> put_ws r (SendServerError dump code message ws) net)"

text \<open>The destructor: the session unregisters itself and its memory is gone.\<close>

definition DestroySession :: "nat \<Rightarrow> Network \<Rightarrow> Network" where
  "DestroySession r net =
     (case um_find (ws_heap net) r of
        None \<Rightarrow> net
      | Some ws \<Rightarrow>
          (let net1 = Unregister (au_user_id (as_user (ws_session ws))) r net
           in net1\<lparr>ws_heap := um_erase r (ws_heap net1)\<rparr>))"

section \<open>Invariant\<close>

text \<open>Every connection leads to a live session of that user, every live session keeps its queue
  invariant, and the gauge \<open>websocket_active\<close> is the number of connections.\<close>

definition entry_ok :: "Network \<Rightarrow> int \<Rightarrow> Entry \<Rightarrow> bool" where
  "entry_ok net u e \<longleftrightarrow> entry_raw e = entry_session e \<and>
     (case um_find (ws_heap net) (entry_session e) of None \<Rightarrow> False
      | Some ws \<Rightarrow> au_user_id (as_user (ws_session ws)) = u)"

definition net_inv :: "Network \<Rightarrow> bool" where
  "net_inv net \<longleftrightarrow>
     um_wf (connections (coordinator net)) \<and> um_wf (ws_heap net) \<and>
     (\<forall>u e. um_find (connections (coordinator net)) u = Some e \<longrightarrow> entry_ok net u e) \<and>
     (\<forall>r ws. um_find (ws_heap net) r = Some ws \<longrightarrow> ws_inv ws) \<and>
     (observed (coordinator net) \<longrightarrow>
        websocket_active (observability net) = word_of_nat (ActiveConnections net))"

lemma net_inv_init: "net_inv make_Network"
  by (simp add: net_inv_def make_Network_def ActiveConnections_def um_size_def make_Observability_def)

lemma net_inv_observed: "net_inv (SetObservability make_Network)"
  by (simp add: net_inv_def make_Network_def SetObservability_def ActiveConnections_def um_size_def
      make_Observability_def)

lemma with_connections_proj [simp]:
  "connections (coordinator (with_connections cs net)) = cs"
  "observed (coordinator (with_connections cs net)) = observed (coordinator net)"
  "ws_heap (with_connections cs net) = ws_heap net"
  by (simp_all add: with_connections_def Let_def)

lemma with_connections_gauge:
  "observed (coordinator net) \<Longrightarrow>
     websocket_active (observability (with_connections cs net)) = word_of_nat (um_size cs)"
  by (simp add: with_connections_def SetWebsocketActive_def)

lemma entry_ok_heap: "ws_heap net = ws_heap net' \<Longrightarrow> entry_ok net u e = entry_ok net' u e"
  by (simp add: entry_ok_def)

lemma with_connections_inv:
  assumes "net_inv net" "um_wf cs" "\<And>u e. um_find cs u = Some e \<Longrightarrow> entry_ok net u e"
  shows "net_inv (with_connections cs net)"
  using assms entry_ok_heap [of "with_connections cs net" net]
  by (auto simp: net_inv_def with_connections_gauge ActiveConnections_def)

lemma Register_inv [inv_intros]:
  assumes "net_inv net" "um_find (ws_heap net) r = Some ws" "au_user_id (as_user (ws_session ws)) = u"
  shows "net_inv (Register u r net)"
  unfolding Register_def
proof (rule with_connections_inv)
  show "net_inv net" by fact
  show "um_wf (um_put u \<lparr>entry_session = r, entry_raw = r\<rparr> (connections (coordinator net)))"
    using assms(1) by (simp add: net_inv_def)
  show "entry_ok net v e"
    if "um_find (um_put u \<lparr>entry_session = r, entry_raw = r\<rparr> (connections (coordinator net))) v = Some e"
    for v e
    using that assms by (auto simp: net_inv_def entry_ok_def split: if_splits)
qed

lemma Unregister_inv [inv_intros]:
  assumes "net_inv net"
  shows "net_inv (Unregister u r net)"
proof -
  have "net_inv (with_connections (um_erase u (connections (coordinator net))) net)"
    using assms by (intro with_connections_inv) (auto simp: net_inv_def split: if_splits)
  with assms show ?thesis by (simp add: Unregister_def split: option.split)
qed

lemma Unregister_heap [simp]: "ws_heap (Unregister u r net) = ws_heap net"
  by (simp add: Unregister_def split: option.splits)

lemma put_ws_inv [inv_intros]:
  assumes "net_inv net" "um_find (ws_heap net) r = Some old" "ws_session new = ws_session old" "ws_inv new"
  shows "net_inv (put_ws r new net)"
proof -
  have "entry_ok (put_ws r new net) u e" if "entry_ok net u e" for u e
    using that assms(2,3) by (auto simp: entry_ok_def put_ws_def split: option.splits)
  then show ?thesis
    using assms(1,4) by (auto simp: net_inv_def put_ws_def ActiveConnections_def)
qed

lemma lock_session_heap: "lock_session u net = Some (r, ws) \<Longrightarrow> um_find (ws_heap net) r = Some ws"
  by (auto simp: lock_session_def split: option.splits)

lemma lock_session_user:
  "net_inv net \<Longrightarrow> lock_session u net = Some (r, ws) \<Longrightarrow> au_user_id (as_user (ws_session ws)) = u"
  by (auto simp: net_inv_def lock_session_def entry_ok_def split: option.splits)

lemma lock_session_connected:
  assumes "net_inv net"
  shows "lock_session u net = None \<longleftrightarrow> um_find (connections (coordinator net)) u = None"
proof (cases "um_find (connections (coordinator net)) u")
  case None
  then show ?thesis by (simp add: lock_session_def)
next
  case (Some e)
  with assms have "entry_ok net u e" by (simp add: net_inv_def)
  with Some show ?thesis by (auto simp: lock_session_def entry_ok_def split: option.splits)
qed

lemma net_inv_ws: "net_inv net \<Longrightarrow> um_find (ws_heap net) r = Some ws \<Longrightarrow> ws_inv ws"
  by (auto simp: net_inv_def)

lemma SendEventToUser_inv [inv_intros]:
  assumes "net_inv net"
  shows "net_inv (SendEventToUser dump u ev p net)"
proof (cases "lock_session u net")
  case (Some rw)
  obtain r ws where rw: "rw = (r, ws)" by (cases rw)
  with Some have "um_find (ws_heap net) r = Some ws" by (simp add: lock_session_heap)
  with assms have "net_inv (put_ws r (SendServerEvent dump ev p ws) net)"
    by (intro put_ws_inv Send_inv net_inv_ws) simp_all
  with Some rw show ?thesis by (simp add: SendEventToUser_def)
qed (simp add: SendEventToUser_def assms)

lemma SendErrorToUser_inv [inv_intros]:
  assumes "net_inv net"
  shows "net_inv (SendErrorToUser dump u c m net)"
proof (cases "lock_session u net")
  case (Some rw)
  obtain r ws where rw: "rw = (r, ws)" by (cases rw)
  with Some have "um_find (ws_heap net) r = Some ws" by (simp add: lock_session_heap)
  with assms have "net_inv (put_ws r (SendServerError dump c m ws) net)"
    by (intro put_ws_inv Send_inv net_inv_ws) simp_all
  with Some rw show ?thesis by (simp add: SendErrorToUser_def)
qed (simp add: SendErrorToUser_def assms)

text \<open>After the destructor no connection leads to the freed session.\<close>

lemma Unregister_not_session:
  assumes "net_inv net" "um_find (ws_heap net) r = Some ws" "au_user_id (as_user (ws_session ws)) = u"
    and "um_find (connections (coordinator (Unregister u r net))) v = Some e"
  shows "entry_session e \<noteq> r"
proof
  assume r: "entry_session e = r"
  have old: "um_find (connections (coordinator net)) v = Some e"
    using assms(4) by (auto simp: Unregister_def split: option.splits if_splits)
  with assms(1) have ok: "entry_ok net v e" by (simp add: net_inv_def)
  with r assms(2,3) have "v = u" "entry_raw e = r" by (auto simp: entry_ok_def)
  with assms(4) old show False by (auto simp: Unregister_def)
qed

lemma DestroySession_inv [inv_intros]:
  assumes "net_inv net"
  shows "net_inv (DestroySession r net)"
proof (cases "um_find (ws_heap net) r")
  case None
  with assms show ?thesis by (simp add: DestroySession_def)
next
  case (Some ws)
  let ?u = "au_user_id (as_user (ws_session ws))"
  let ?n = "Unregister ?u r net"
  have inv: "net_inv ?n" using assms by (rule Unregister_inv)
  have "entry_ok (?n\<lparr>ws_heap := um_erase r (ws_heap ?n)\<rparr>) v e"
    if "um_find (connections (coordinator ?n)) v = Some e" for v e
  proof -
    have "entry_ok ?n v e" using inv that by (simp add: net_inv_def)
    moreover have "entry_session e \<noteq> r" using Unregister_not_session [OF assms Some refl that] .
    ultimately show ?thesis by (auto simp: entry_ok_def)
  qed
  with inv Some show ?thesis
    by (auto simp: DestroySession_def net_inv_def Let_def ActiveConnections_def)
qed

section \<open>Delivery\<close>

lemma Register_lock:
  "um_find (ws_heap net) r = Some ws \<Longrightarrow> lock_session u (Register u r net) = Some (r, ws)"
  by (simp add: lock_session_def Register_def)

lemma Unregister_other:
  "um_find (connections (coordinator net)) u = Some e \<Longrightarrow> entry_raw e \<noteq> r \<Longrightarrow> Unregister u r net = net"
  by (simp add: Unregister_def)

lemma SendEventToUser_heap:
  "um_find (ws_heap (SendEventToUser dump u ev p net)) r =
     (case um_find (ws_heap net) r of None \<Rightarrow> None
      | Some ws \<Rightarrow> Some (if map_option fst (lock_session u net) = Some r
                         then SendServerEvent dump ev p ws else ws))"
  by (auto simp: SendEventToUser_def put_ws_def dest: lock_session_heap split: option.splits)

lemma SendErrorToUser_heap:
  "um_find (ws_heap (SendErrorToUser dump u c m net)) r =
     (case um_find (ws_heap net) r of None \<Rightarrow> None
      | Some ws \<Rightarrow> Some (if map_option fst (lock_session u net) = Some r
                         then SendServerError dump c m ws else ws))"
  by (auto simp: SendErrorToUser_def put_ws_def dest: lock_session_heap split: option.splits)

lemma Send_connections [simp]:
  "connections (coordinator (SendEventToUser dump u ev p net)) = connections (coordinator net)"
  "connections (coordinator (SendErrorToUser dump u c m net)) = connections (coordinator net)"
  by (simp_all add: SendEventToUser_def SendErrorToUser_def put_ws_def split: option.splits)

section \<open>Properties\<close>

text \<open>C22: When a user connects again, the new connection gets the events, and the end of the old one does
  not take it away: after the old session's destructor the user is still reached through the new one.\<close>

theorem newest_connection_kept:
  assumes "net_inv net" "um_find (ws_heap net) old = Some ws1" "um_find (ws_heap net) new = Some ws2"
    and "old \<noteq> new" "au_user_id (as_user (ws_session ws1)) = u" "au_user_id (as_user (ws_session ws2)) = u"
  shows "lock_session u (DestroySession old (Register u new net)) = Some (new, ws2)"
proof -
  let ?e = "\<lparr>entry_session = new, entry_raw = new\<rparr>"
  have conn: "um_find (connections (coordinator (Register u new net))) u = Some ?e" by (simp add: Register_def)
  have "Unregister u old (Register u new net) = Register u new net"
    by (rule Unregister_other [OF conn]) (use assms(4) in simp)
  moreover have "um_find (ws_heap (Register u new net)) old = Some ws1" using assms(2) by (simp add: Register_def)
  ultimately have "DestroySession old (Register u new net) =
      (Register u new net)\<lparr>ws_heap := um_erase old (ws_heap (Register u new net))\<rparr>"
    using assms(5) by (simp add: DestroySession_def Let_def)
  then show ?thesis using conn assms(3,4) by (simp add: lock_session_def) (simp add: Register_def)
qed

definition sample_ws :: WebSocketSession where
  "sample_ws = make_WebSocketSession sample_session 8 100"

theorem newest_connection_kept_witness:
  "lock_session 7 (DestroySession 0 (Register 7 1 (make_Network\<lparr>ws_heap := [(0, sample_ws), (1, sample_ws)]\<rparr>)))
    = Some (1, sample_ws)"
proof (rule newest_connection_kept)
  have "ws_inv sample_ws" by (simp add: sample_ws_def ws_inv_init)
  then show "net_inv (make_Network\<lparr>ws_heap := [(0, sample_ws), (1, sample_ws)]\<rparr>)"
    by (simp add: net_inv_def make_Network_def um_wf_def ActiveConnections_def um_size_def um_find_def)
qed (simp_all add: make_Network_def um_find_def, simp_all add: sample_ws_def sample_session_def make_WebSocketSession_def)

text \<open>An event for a user changes nothing but the queue of the one session the user is connected
  through: every other session, and every registration, stays as it is.\<close>

lemma event_reaches_one_session:
  "connections (coordinator (SendEventToUser dump u ev p net)) = connections (coordinator net) \<and>
   um_find (ws_heap (SendEventToUser dump u ev p net)) r =
     map_option (\<lambda>ws. if map_option fst (lock_session u net) = Some r then SendServerEvent dump ev p ws else ws)
       (um_find (ws_heap net) r)"
  by (simp add: SendEventToUser_heap split: option.split)

end
