(* ===== verification/Backend.thy ===== *)
theory Backend
  imports SessionTrace Realtime
begin

text \<open>
  The two parts a \<open>SessionManager\<close> calls, put together: the \<open>RealtimeCoordinator\<close> with its WebSocket
  sessions, and the \<open>ResultService\<close>. They provide the interface \<open>event_sink\<close>, so every run of the
  session manager over them keeps the queue invariants of all connections and the rating ledger.
\<close>

record Backend =
  network :: Network
  result_service :: ResultService

definition backend_send :: "(json \<Rightarrow> string) \<Rightarrow> int \<Rightarrow> string \<Rightarrow> json \<Rightarrow> Backend \<Rightarrow> Backend" where
  "backend_send dump u event payload b = b\<lparr>network := SendEventToUser dump u event payload (network b)\<rparr>"

definition backend_finalize :: "MatchResultRecord \<Rightarrow> SessionParticipant list \<Rightarrow> Backend \<Rightarrow> Backend" where
  "backend_finalize r ps b = b\<lparr>result_service := snd (FinalizeResult r ps (result_service b))\<rparr>"

definition backend_found :: "Backend \<Rightarrow> string \<Rightarrow> MatchResultRecord option" where
  "backend_found b sid = FindResult sid (repository (result_service b))"

definition backend_inv :: "Backend \<Rightarrow> bool" where
  "backend_inv b \<longleftrightarrow> net_inv (network b) \<and> ledger_inv (result_service b)"

interpretation backend: event_sink "backend_send dump" backend_finalize backend_found backend_inv
  for dump
  by unfold_locales
    (auto simp: backend_send_def backend_finalize_def backend_found_def backend_inv_def FinalizeResult_find
      SendEventToUser_inv FinalizeResult_ledger)

section \<open>Properties\<close>

lemma results_of_ended:
  assumes "results_match (backend_found b) sm"
  shows "{sid. backend_found b sid \<noteq> None} = session_name ` {n. \<exists>ctx. um_find (contexts sm) n = Some ctx \<and> ended ctx}"
    (is "?found = session_name ` ?ended")
proof -
  have "backend_found b sid \<noteq> None \<Longrightarrow> \<exists>n. sid = session_name n" for sid
    using assms by (simp add: results_match_def)
  then have "{sid. backend_found b sid \<noteq> None} = session_name ` {n. backend_found b (session_name n) \<noteq> None}"
    by (force simp del: not_None_eq)
  then show ?thesis by (simp only: results_match_iff [OF assms])
qed

text \<open>In every run over the real coordinator and result service: the stored results are those of the
  ended sessions, each holding the final state of its session; the wins and the losses of all players
  each add up to the number of ended sessions; and no connection breaks its queue invariant.\<close>

lemma ended_sessions_are_rated:
  "let g = fold (session_step (backend_send dump) backend_finalize) ops
         (make_SessionManager interval k, \<lparr>network = SetObservability make_Network, result_service = make_ResultService\<rparr>);
       n = int (card {n. \<exists>ctx. um_find (contexts (fst g)) n = Some ctx \<and> ended ctx});
       es = rating_entries (rating_service (result_service (snd g)))
   in results_match (backend_found (snd g)) (fst g) \<and> total_of re_wins es = n \<and> total_of re_losses es = n \<and>
      net_inv (network (snd g))"
proof -
  let ?b = "\<lparr>network = SetObservability make_Network, result_service = make_ResultService\<rparr>"
  let ?g = "fold (session_step (backend_send dump) backend_finalize) ops (make_SessionManager interval k, ?b)"
  have "results_match (backend_found ?b) (make_SessionManager interval k)"
    by (simp add: results_match_def backend_found_def FindResult_def make_SessionManager_def make_ResultService_def)
  moreover have "backend_inv ?b" by (simp add: backend_inv_def net_inv_observed ledger_inv_init)
  ultimately have inv: "backend_inv (snd ?g)" "results_match (backend_found (snd ?g)) (fst ?g)"
    using backend.run_results [of "(make_SessionManager interval k, ?b)" dump ops]
    by (simp_all add: sm_inv_init Let_def)
  let ?repo = "repository (result_service (snd ?g))"
  have "ResultCount ?repo = card {sid. FindResult sid ?repo \<noteq> None}"
    using inv(1) by (intro ResultCount_card) (simp add: backend_inv_def ledger_inv_def)
  also have "{sid. FindResult sid ?repo \<noteq> None} = {sid. backend_found (snd ?g) sid \<noteq> None}"
    by (simp add: backend_found_def)
  also have "card \<dots> = card {n. \<exists>ctx. um_find (contexts (fst ?g)) n = Some ctx \<and> ended ctx}"
    unfolding results_of_ended [OF inv(2)] by (rule card_image) (simp add: inj_on_def)
  finally show ?thesis
    using inv by (simp add: backend_inv_def ledger_inv_def Let_def)
qed

end
