(* ===== verification/Matchmaking.thy ===== *)
theory Matchmaking
  imports MatchQueue Backend
begin

text \<open>
  The match queue on the real session manager and coordinator: the three calls it makes, and the
  proof that they provide what the queue relies on.
\<close>

type_synonym game = "SessionManager \<times> Backend"

definition game_in_session :: "game \<Rightarrow> int \<Rightarrow> bool" where
  "game_in_session g u = IsUserInSession u (fst g)"

definition game_create :: "SessionParticipant list \<Rightarrow> game \<Rightarrow> game" where
  "game_create ps g = (snd (CreateSession ps (fst g)), snd g)"

definition game_send_error :: "(json \<Rightarrow> string) \<Rightarrow> int \<Rightarrow> string \<Rightarrow> string \<Rightarrow> game \<Rightarrow> game" where
  "game_send_error dump u code message g =
     (fst g, (snd g)\<lparr>network := SendErrorToUser dump u code message (network (snd g))\<rparr>)"

definition game_good :: "game \<Rightarrow> bool" where
  "game_good g \<longleftrightarrow> sm_inv (fst g) \<and> backend_inv (snd g) \<and> results_match (backend_found (snd g)) (fst g)"

lemma free_can_create: "free game_in_session ps g \<longleftrightarrow> can_create ps (fst g)"
  by (simp add: free_def can_create_def game_in_session_def)

lemma game_create_step:
  "can_create ps (fst g) \<Longrightarrow> game_create ps g = session_step (backend_send dump) backend_finalize (CreateOp ps) g"
  by (simp add: game_create_def)

text \<open>The session steps keep \<open>game_good\<close>.\<close>

lemma game_session_step:
  assumes "game_good g"
  shows "game_good (session_step (backend_send dump) backend_finalize op g)"
  using assms session_step_inv [of g "backend_send dump" backend_finalize op]
    backend.step_good [of g dump op] backend.step_results [of g dump op]
  by (simp add: game_good_def)

interpretation game: session_directory game_in_session game_create "game_send_error dump" game_good
  for dump
proof
  fix g ps u v c m
  show "game_in_session (game_create ps g) u \<longleftrightarrow> u \<in> set (map sp_user_id ps) \<or> game_in_session g u"
    by (simp add: game_in_session_def game_create_def IsUserInSession_create)
  show "game_good (game_create ps g)" if "game_good g" "free game_in_session ps g"
    using game_session_step [OF that(1), of dump "CreateOp ps"] that(2)
    by (simp add: free_can_create game_create_def)
  show "game_in_session (game_send_error dump v c m g) u \<longleftrightarrow> game_in_session g u"
    by (simp add: game_in_session_def game_send_error_def)
  show "game_good (game_send_error dump v c m g)" if "game_good g"
  proof -
    have "backend_found ((snd g)\<lparr>network := n\<rparr>) = backend_found (snd g)" for n
      by (simp add: backend_found_def fun_eq_iff)
    with that show ?thesis
      by (simp add: game_good_def game_send_error_def backend_inv_def SendErrorToUser_inv)
  qed
qed

end
