(* ===== verification/Reconnect.thy ===== *)
theory Reconnect
  imports Auth Json
begin

text \<open>
  \<open>ReconnectService\<close> of \<open>reconnect.cpp\<close>: resume tokens and the snapshots they stand for. The random
  bytes of \<open>GenerateToken\<close> are an argument. The token table laws give rotation: after a resync the
  new token is good, the old one is not, and no other token is touched.
\<close>

record ResumeSnapshot =
  rs_user :: AuthUser
  rs_token :: string
  rs_snapshot_version :: int
  rs_snapshot :: json
  rs_issued_at :: time_ns

record ReconnectService =
  tokens :: "(string, ResumeSnapshot) umap"

definition make_ReconnectService :: ReconnectService where
  "make_ReconnectService = \<lparr>tokens = []\<rparr>"

definition GenerateResumeToken :: "byte list \<Rightarrow> string" where
  "GenerateResumeToken rnd = BytesToHex (take 16 rnd)"

definition find_resume :: "ReconnectService \<Rightarrow> string \<Rightarrow> ResumeSnapshot option" where
  "find_resume rc t = um_find (tokens rc) t"

definition store_resume :: "string \<Rightarrow> ResumeSnapshot \<Rightarrow> ReconnectService \<Rightarrow> ReconnectService" where
  "store_resume t r rc = rc\<lparr>tokens := um_put t r (tokens rc)\<rparr>"

definition erase_resume :: "string \<Rightarrow> ReconnectService \<Rightarrow> ReconnectService" where
  "erase_resume t rc = rc\<lparr>tokens := um_erase t (tokens rc)\<rparr>"

definition IssueToken ::
  "byte list \<Rightarrow> time_ns \<Rightarrow> AuthUser \<Rightarrow> int \<Rightarrow> json \<Rightarrow> string option \<Rightarrow> ReconnectService
     \<Rightarrow> string \<times> ReconnectService" where
  "IssueToken rnd now user snapshot_version snapshot previous rc =
     (let rc1 = (case previous of None \<Rightarrow> rc | Some t \<Rightarrow> erase_resume t rc);
          token = GenerateResumeToken rnd;
          record = \<lparr>rs_user = user, rs_token = token, rs_snapshot_version = snapshot_version,
            rs_snapshot = snapshot, rs_issued_at = now\<rparr>
      in (token, store_resume token record rc1))"

definition ValidateResume :: "string \<Rightarrow> AuthUser \<Rightarrow> ReconnectService \<Rightarrow> ResumeSnapshot option" where
  "ValidateResume token user rc =
     (case find_resume rc token of None \<Rightarrow> None
      | Some r \<Rightarrow> if au_user_id (rs_user r) \<noteq> au_user_id user then None else Some r)"

interpretation resume_tokens: token_table find_resume store_resume erase_resume
  by unfold_locales (simp_all add: find_resume_def store_resume_def erase_resume_def)

lemma IssueToken_rotation:
  assumes "IssueToken rnd now user v snap (Some old) rc = (new, rc')"
  shows "\<exists>r. find_resume rc' new = Some r \<and> rs_user r = user \<and> rs_snapshot r = snap"
    and "old \<noteq> new \<Longrightarrow> find_resume rc' old = None"
    and "t \<noteq> old \<Longrightarrow> t \<noteq> new \<Longrightarrow> find_resume rc' t = find_resume rc t"
  using assms
  by (auto simp: IssueToken_def Let_def resume_tokens.rotate_new resume_tokens.rotate_old
      resume_tokens.rotate_other)

lemma IssueToken_first:
  assumes "IssueToken rnd now user v snap None rc = (new, rc')"
  shows "find_resume rc' t = (if t = new
      then Some \<lparr>rs_user = user, rs_token = new, rs_snapshot_version = v, rs_snapshot = snap,
        rs_issued_at = now\<rparr> else find_resume rc t)"
  using assms by (auto simp: IssueToken_def Let_def resume_tokens.lookup_store)

end
