(* ===== verification/Numbers.thy ===== *)
theory Numbers
  imports Hex
begin

text \<open>
  Reading numbers and query strings: \<open>std::stoul\<close> and \<open>std::stoi\<close> of the C++ library as the server
  uses them (base 10; white space, a sign, digits; the position after the last digit), and the two
  helpers of \<open>http_session.cpp\<close>. A minus sign is legal for \<open>stoul\<close> and negates modulo \<open>2^64\<close>.
\<close>

definition is_digit :: "char \<Rightarrow> bool" where
  "is_digit c \<longleftrightarrow> digit_value c < 10"

text \<open>The sign, the digits and the number of characters read.\<close>

definition scan_number :: "string \<Rightarrow> bool \<times> string \<times> nat" where
  "scan_number s =
     (let body = dropWhile is_stream_space s;
          negative = (case body of [] \<Rightarrow> False | c # _ \<Rightarrow> CHR ''-'' = c);
          signed_body = (case body of [] \<Rightarrow> False | c # _ \<Rightarrow> CHR ''-'' = c \<or> CHR ''+'' = c);
          rest = (if signed_body then tl body else body);
          digits = takeWhile is_digit rest
      in (negative, digits, length s - length rest + length digits))"

definition stoul :: "string \<Rightarrow> exn + nat \<times> nat" where
  "stoul s =
     (let (negative, digits, idx) = scan_number s; n = read_base 10 digits
      in if digits = [] then Inl InvalidArgument
         else if n \<ge> 2 ^ 64 then Inl OutOfRange
         else Inr (if negative then (2 ^ 64 - n) mod 2 ^ 64 else n, idx))"

definition stoi :: "string \<Rightarrow> exn + int" where
  "stoi s =
     (let (negative, digits, idx) = scan_number s;
          n = (if negative then - int (read_base 10 digits) else int (read_base 10 digits))
      in if digits = [] then Inl InvalidArgument
         else if n < - (2 ^ 31) \<or> n \<ge> 2 ^ 31 then Inl OutOfRange
         else Inr n)"

definition ParsePositiveInt :: "string \<Rightarrow> nat option" where
  "ParsePositiveInt s =
     (case stoul s of
        Inl e \<Rightarrow> None
      | Inr (parsed, idx) \<Rightarrow> if idx \<noteq> length s then None else Some parsed)"

text \<open>The loop of \<open>ParseQueryParams\<close>: cut at the ampersands; a part with an equals sign is a
  parameter, and \<open>emplace\<close> keeps the first value of a key.\<close>

definition emplace :: "'k \<Rightarrow> 'v \<Rightarrow> ('k, 'v) umap \<Rightarrow> ('k, 'v) umap" where
  "emplace k v m = (if um_find m k = None then um_put k v m else m)"

definition query_pair :: "string \<Rightarrow> (string, string) umap \<Rightarrow> (string, string) umap" where
  "query_pair pair params =
     (if CHR ''='' \<in> set pair
      then emplace (takeWhile (\<lambda>c. c \<noteq> CHR ''='') pair) (tl (dropWhile (\<lambda>c. c \<noteq> CHR ''='') pair)) params
      else params)"

function query_loop :: "string \<Rightarrow> (string, string) umap \<Rightarrow> (string, string) umap" where
  "query_loop query params =
     (if query = [] then params
      else
        (let pair = takeWhile (\<lambda>c. c \<noteq> CHR ''&'') query;
             rest = dropWhile (\<lambda>c. c \<noteq> CHR ''&'') query;
             params1 = query_pair pair params
         in if rest = [] then params1 else query_loop (tl rest) params1))"
  by pat_completeness auto
termination
proof (relation "measure (\<lambda>(query, params). length query)")
  fix query :: string and params :: "(string, string) umap" and pair rest params1
  assume "query \<noteq> []" and rest: "rest = dropWhile (\<lambda>c. c \<noteq> CHR ''&'') query" and "rest \<noteq> []"
  have "length rest \<le> length query" unfolding rest by (rule length_dropWhile_le)
  with \<open>rest \<noteq> []\<close> show "((tl rest, params1), query, params) \<in> measure (\<lambda>(query, params). length query)"
    by (cases rest) simp_all
qed simp

declare query_loop.simps [simp del]

definition ParseQueryParams :: "string \<Rightarrow> (string, string) umap" where
  "ParseQueryParams query = query_loop query []"

section \<open>Facts\<close>

lemma digit_char_digit: "d < 10 \<Longrightarrow> is_digit (digit_char d)"
  by (simp add: is_digit_def digit_value_char)

lemma show_nat_digits: "\<forall>c \<in> set (show_nat n). is_digit c"
proof -
  have "\<forall>c \<in> set (show_base 10 m). is_digit c" for m
  proof (induction m rule: less_induct)
    case (less m)
    show ?case
    proof (cases "m < 10")
      case True
      then show ?thesis by (simp add: show_base.simps [of 10 m] digit_char_digit)
    next
      case False
      then show ?thesis using less.IH [of "m div 10"]
        by (simp add: show_base.simps [of 10 m] digit_char_digit)
    qed
  qed
  then show ?thesis by (simp add: show_nat_def)
qed

lemma separators_not_digits:
  "list_all (\<lambda>c. digit_value c = 16) [CHR '' '', CHR 0x09, CHR 0x0A, CHR 0x0B, CHR 0x0C, CHR 0x0D, CHR ''-'', CHR ''+'']"
  by code_simp

lemma digit_not_space: "is_digit c \<Longrightarrow> \<not> is_stream_space c \<and> c \<noteq> CHR ''-'' \<and> c \<noteq> CHR ''+''"
  using separators_not_digits by (auto simp: is_digit_def is_stream_space_def)

lemma scan_digits:
  assumes "s \<noteq> []" "\<forall>c \<in> set s. is_digit c"
  shows "scan_number s = (False, s, length s)"
proof -
  obtain c cs where s: "s = c # cs" using assms(1) by (cases s) auto
  with assms(2) digit_not_space [of c] have "dropWhile is_stream_space s = s" "c \<noteq> CHR ''-''" "c \<noteq> CHR ''+''"
    by auto
  moreover have "takeWhile is_digit s = s" using assms(2) by (simp add: takeWhile_eq_all_conv)
  ultimately show ?thesis using s by (auto simp: scan_number_def Let_def)
qed

text \<open>A printed number is read back.\<close>

lemma stoul_show_nat: "n < 2 ^ 64 \<Longrightarrow> stoul (show_nat n) = Inr (n, length (show_nat n))"
  using scan_digits [OF _ show_nat_digits, of n] read_show_base [of 10 n]
  by (simp add: stoul_def show_nat_def)

text \<open>A minus sign before the digits is read and negates.\<close>

lemma minus_not_space: "\<not> is_stream_space CHR ''-''"
  by code_simp

lemma scan_minus_digits:
  assumes "\<forall>c \<in> set s. is_digit c"
  shows "scan_number (CHR ''-'' # s) = (True, s, Suc (length s))"
proof -
  have "takeWhile is_digit s = s" using assms by (simp add: takeWhile_eq_all_conv)
  then have "length (takeWhile is_digit s) = length s" by (rule arg_cong)
  with assms show ?thesis by (simp only: scan_number_def Let_def) (simp add: minus_not_space)
qed

lemma stoul_minus_show_nat:
  "stoul (CHR ''-'' # show_nat n) =
     (if n < 2 ^ 64 then Inr ((2 ^ 64 - n) mod 2 ^ 64, Suc (length (show_nat n))) else Inl OutOfRange)"
  using scan_minus_digits [OF show_nat_digits, of n] read_show_base [of 10 n]
  by (simp add: stoul_def show_nat_def)

lemma ParsePositiveInt_range: "ParsePositiveInt s = Some n \<Longrightarrow> n < 2 ^ 64"
  by (auto simp: ParsePositiveInt_def stoul_def Let_def split_beta split: if_splits sum.splits)

section \<open>Properties\<close>

text \<open>C39: A page number printed in decimal is read back as itself, and a number that does not fit into
  64 bits is refused instead of wrapping around. A minus sign is not refused: it negates modulo \<open>2^64\<close>,
  so \<open>page=-1\<close> asks for page \<open>2^64 - 1\<close>.\<close>

theorem page_number_round_trip:
  "ParsePositiveInt (show_nat n) = (if n < 2 ^ 64 then Some n else None) \<and>
   ParsePositiveInt (CHR ''-'' # show_nat n) = (if n < 2 ^ 64 then Some ((2 ^ 64 - n) mod 2 ^ 64) else None)"
proof -
  have "\<not> n < 2 ^ 64 \<Longrightarrow> stoul (show_nat n) = Inl OutOfRange"
    using scan_digits [OF _ show_nat_digits, of n] read_show_base [of 10 n]
    by (simp add: stoul_def show_nat_def)
  then show ?thesis
    by (simp add: ParsePositiveInt_def stoul_show_nat stoul_minus_show_nat)
qed

end
