(* ===== verification/ServerApp.thy ===== *)
theory ServerApp
  imports Matchmaking Reconnect Numbers
begin

text \<open>
  \<open>ServerApp\<close> of \<open>app.cpp\<close>: the configuration read from the environment, and the services the
  constructor builds and shares. \<open>Server\<close> is the state of the whole process; the coordinator and the
  rating service exist once and are shared, as the \<open>shared_ptr\<close>s are.
\<close>

record AppConfig =
  port :: nat
  db_host :: string
  db_port :: nat
  db_user :: string
  db_password :: string
  db_name :: string
  redis_host :: string
  redis_port :: nat
  log_level :: string
  auth_token_ttl_seconds :: nat
  login_rate_window_seconds :: nat
  login_rate_limit_max :: nat
  ws_queue_limit_messages :: nat
  ws_queue_limit_bytes :: nat
  match_queue_timeout_seconds :: nat
  session_tick_interval_ms :: nat
  ops_token :: string

section \<open>Configuration\<close>

text \<open>\<open>getenv\<close> is the process environment.\<close>

definition get_env :: "(string \<Rightarrow> string option) \<Rightarrow> string \<Rightarrow> string \<Rightarrow> string" where
  "get_env getenv key def = (case getenv key of None \<Rightarrow> def | Some val \<Rightarrow> val)"

definition env_short :: "(string \<Rightarrow> string option) \<Rightarrow> string \<Rightarrow> string \<Rightarrow> exn + nat" where
  "env_short getenv key def =
     (case stoi (get_env getenv key def) of Inl e \<Rightarrow> Inl e | Inr n \<Rightarrow> Inr (nat (n mod 2 ^ 16)))"

definition env_size :: "(string \<Rightarrow> string option) \<Rightarrow> string \<Rightarrow> string \<Rightarrow> exn + nat" where
  "env_size getenv key def =
     (case stoul (get_env getenv key def) of Inl e \<Rightarrow> Inl e | Inr (n, idx) \<Rightarrow> Inr n)"

definition bind_exn :: "exn + 'a \<Rightarrow> ('a \<Rightarrow> exn + 'b) \<Rightarrow> exn + 'b" where
  "bind_exn r k = (case r of Inl e \<Rightarrow> Inl e | Inr a \<Rightarrow> k a)"

definition LoadConfigFromEnv :: "(string \<Rightarrow> string option) \<Rightarrow> exn + AppConfig" where
  "LoadConfigFromEnv getenv =
     bind_exn (env_short getenv ''SERVER_PORT'' ''8080'') (\<lambda>server_port.
     bind_exn (env_short getenv ''DB_PORT'' ''3306'') (\<lambda>db_port_value.
     bind_exn (env_short getenv ''REDIS_PORT'' ''6379'') (\<lambda>redis_port_value.
     bind_exn (env_size getenv ''AUTH_TOKEN_TTL_SECONDS'' ''3600'') (\<lambda>ttl.
     bind_exn (env_size getenv ''LOGIN_RATE_LIMIT_WINDOW'' ''60'') (\<lambda>window.
     bind_exn (env_size getenv ''LOGIN_RATE_LIMIT_MAX'' ''5'') (\<lambda>limit.
     bind_exn (env_size getenv ''WS_QUEUE_LIMIT_MESSAGES'' ''8'') (\<lambda>messages.
     bind_exn (env_size getenv ''WS_QUEUE_LIMIT_BYTES'' ''65536'') (\<lambda>bytes.
     bind_exn (env_size getenv ''MATCH_QUEUE_TIMEOUT_SECONDS'' ''10'') (\<lambda>queue_timeout.
     bind_exn (env_size getenv ''SESSION_TICK_INTERVAL_MS'' ''100'') (\<lambda>interval.
     Inr \<lparr>port = server_port, db_host = get_env getenv ''DB_HOST'' ''mariadb'',
       db_port = db_port_value, db_user = get_env getenv ''DB_USER'' ''app'',
       db_password = get_env getenv ''DB_PASSWORD'' ''app_pass'',
       db_name = get_env getenv ''DB_NAME'' ''app_db'',
       redis_host = get_env getenv ''REDIS_HOST'' ''redis'', redis_port = redis_port_value,
       log_level = get_env getenv ''LOG_LEVEL'' ''info'', auth_token_ttl_seconds = ttl,
       login_rate_window_seconds = window, login_rate_limit_max = limit,
       ws_queue_limit_messages = messages, ws_queue_limit_bytes = bytes,
       match_queue_timeout_seconds = queue_timeout, session_tick_interval_ms = interval,
       ops_token = get_env getenv ''OPS_TOKEN'' []\<rparr>))))))))))"

section \<open>The server\<close>

record Server =
  app_config :: AppConfig
  auth_service :: AuthService
  reconnect_service :: ReconnectService
  session_manager :: SessionManager
  backend :: Backend
  match_queue :: MatchQueueService
  next_address :: nat

definition make_ServerApp :: "AppConfig \<Rightarrow> Server" where
  "make_ServerApp cfg =
     \<lparr>app_config = cfg,
      auth_service = make_AuthService
        \<lparr>token_ttl = to_int64 (int (auth_token_ttl_seconds cfg)),
         login_window = to_int64 (int (login_rate_window_seconds cfg)),
         login_max_attempts = login_rate_limit_max cfg\<rparr>,
      reconnect_service = make_ReconnectService,
      session_manager = make_SessionManager (to_int64 (int (session_tick_interval_ms cfg))) 5,
      backend = \<lparr>network = SetObservability make_Network, result_service = make_ResultService\<rparr>,
      match_queue = make_MatchQueueService (to_int64 (int (match_queue_timeout_seconds cfg))),
      next_address = 0\<rparr>"

definition game_of :: "Server \<Rightarrow> game" where
  "game_of sv = (session_manager sv, backend sv)"

definition with_game :: "game \<Rightarrow> Server \<Rightarrow> Server" where
  "with_game g sv = sv\<lparr>session_manager := fst g, backend := snd g\<rparr>"

definition with_network :: "Network \<Rightarrow> Server \<Rightarrow> Server" where
  "with_network net sv = sv\<lparr>backend := (backend sv)\<lparr>network := net\<rparr>\<rparr>"

definition with_ratings :: "RatingService \<Rightarrow> Server \<Rightarrow> Server" where
  "with_ratings rs sv = sv\<lparr>backend := (backend sv)\<lparr>result_service :=
     (result_service (backend sv))\<lparr>rating_service := rs\<rparr>\<rparr>\<rparr>"

abbreviation net_of :: "Server \<Rightarrow> Network" where
  "net_of sv \<equiv> network (backend sv)"

abbreviation ratings_of :: "Server \<Rightarrow> RatingService" where
  "ratings_of sv \<equiv> rating_service (result_service (backend sv))"

section \<open>Invariant\<close>

definition server_inv :: "Server \<Rightarrow> bool" where
  "server_inv sv \<longleftrightarrow> auth_inv (auth_service sv) \<and> game_good (game_of sv) \<and> mq_inv (match_queue sv) \<and>
     apart game_in_session (match_queue sv) (game_of sv) \<and>
     (\<forall>r. um_find (ws_heap (net_of sv)) r \<noteq> None \<longrightarrow> r < next_address sv)"

lemma game_good_init: "game_good (game_of (make_ServerApp cfg))"
proof -
  have "results_match (backend_found (backend (make_ServerApp cfg))) (session_manager (make_ServerApp cfg))"
    by (simp add: results_match_def make_ServerApp_def backend_found_def FindResult_def
        make_SessionManager_def make_ResultService_def)
  moreover have "sm_inv (session_manager (make_ServerApp cfg))"
    by (simp add: make_ServerApp_def sm_inv_init)
  moreover have "backend_inv (backend (make_ServerApp cfg))"
    by (simp add: make_ServerApp_def backend_inv_def net_inv_observed ledger_inv_init)
  ultimately show ?thesis by (simp add: game_good_def game_of_def)
qed

lemma server_inv_init: "server_inv (make_ServerApp cfg)"
proof -
  have "apart game_in_session (match_queue (make_ServerApp cfg)) (game_of (make_ServerApp cfg))"
    by (simp add: apart_def make_ServerApp_def queue_users_def make_MatchQueueService_def)
  moreover have "um_find (ws_heap (net_of (make_ServerApp cfg))) r = None" for r
    by (simp add: make_ServerApp_def make_Network_def SetObservability_def)
  ultimately show ?thesis
    using game_good_init [of cfg]
    by (simp add: server_inv_def) (simp add: make_ServerApp_def auth_inv_init mq_inv_init)
qed

end
