(* ===== verification/AppLifecycle.thy ===== *)
theory AppLifecycle
  imports ServerApp
begin

text \<open>
  The life of the process around the services: \<open>Listener\<close> and the methods \<open>Run\<close>, \<open>RunWorkers\<close> and \<open>Stop\<close>
  of \<open>ServerApp\<close> (\<open>app.cpp\<close>). What the acceptor answers to its four calls is an argument, an error being
  the text of its exception. A listener has an address (its place in \<open>listeners\<close>), because the handler
  of a pending accept keeps it alive. The threads inside \<open>ioc_.run()\<close> are the main thread (\<open>in_run\<close>)
  and the workers that can be joined; they leave it when the context is stopped or when a handler throws.
\<close>

section \<open>The listener\<close>

record AcceptorCalls =
  ac_open :: "string option"
  ac_reuse_address :: "string option"
  ac_bind :: "string option"
  ac_listen :: "string option"

record Listener =
  acceptor_open :: bool
  accept_pending :: bool

text \<open>The constructor throws at the first call that fails.\<close>

definition make_Listener :: "AcceptorCalls \<Rightarrow> string + Listener" where
  "make_Listener calls =
     (case ac_open calls of Some e \<Rightarrow> Inl e
      | None \<Rightarrow> (case ac_reuse_address calls of Some e \<Rightarrow> Inl e
      | None \<Rightarrow> (case ac_bind calls of Some e \<Rightarrow> Inl e
      | None \<Rightarrow> (case ac_listen calls of Some e \<Rightarrow> Inl e
      | None \<Rightarrow> Inr \<lparr>acceptor_open = True, accept_pending = False\<rparr>))))"

definition DoAccept :: "Listener \<Rightarrow> Listener" where
  "DoAccept l = l\<lparr>accept_pending := True\<rparr>"

definition StopListener :: "Listener \<Rightarrow> Listener" where
  "StopListener l = l\<lparr>acceptor_open := False\<rparr>"

text \<open>The handler of an accept: whether it starts an \<open>HttpSession\<close>, and the listener after it.\<close>

definition OnAccept :: "bool \<Rightarrow> Listener \<Rightarrow> bool \<times> Listener" where
  "OnAccept failed l =
     (let l0 = l\<lparr>accept_pending := False\<rparr>
      in (\<not> failed, if acceptor_open l0 then DoAccept l0 else l0))"

section \<open>The process\<close>

record AppLife =
  life_port :: nat
  running :: bool
  work_guard :: bool
  ioc_stopped :: bool
  listeners :: "Listener list"
  listener :: "nat option"
  workers :: "bool list"
  in_run :: bool
  served :: nat
  terminated :: bool
  cout_lines :: "string list"
  cerr_lines :: "string list"

definition make_AppLife :: "AppConfig \<Rightarrow> AppLife" where
  "make_AppLife cfg = \<lparr>life_port = port cfg, running = False, work_guard = True, ioc_stopped = False,
     listeners = [], listener = None, workers = [], in_run = False, served = 0, terminated = False,
     cout_lines = [], cerr_lines = []\<rparr>"

definition msg_server_started :: string where \<comment> \<open>server started: port\<close>
  "msg_server_started = utf8 [0xC11C, 0xBC84, 0x20, 0xC2DC, 0xC791, 0x3A, 0x20, 0xD3EC, 0xD2B8, 0x20]"

definition msg_run_exception :: string where \<comment> \<open>exception while the server runs:\<close>
  "msg_run_exception = utf8 [0xC11C, 0xBC84, 0x20, 0xC2E4, 0xD589, 0x20, 0xC911, 0x20, 0xC608, 0xC678, 0x3A, 0x20]"

text \<open>One thread less than the hardware has, because the calling thread runs the context too.\<close>

definition RunWorkers :: "nat \<Rightarrow> AppLife \<Rightarrow> AppLife" where
  "RunWorkers hardware_concurrency st =
     (let thread_count = max 1 hardware_concurrency
      in st\<lparr>workers := workers st @ replicate (thread_count - 1) True\<rparr>)"

text \<open>The \<open>catch\<close> of \<open>Run\<close>: it is reached by an exception of the constructor and by one that leaves a
  handler on the main thread.\<close>

definition RunCatch :: "string \<Rightarrow> AppLife \<Rightarrow> AppLife" where
  "RunCatch what st = st\<lparr>in_run := False, cerr_lines := cerr_lines st @ [msg_run_exception @ what]\<rparr>"

text \<open>\<open>Run\<close> up to \<open>ioc_.run()\<close>, which returns at once on a stopped context.\<close>

definition RunApp :: "AcceptorCalls \<Rightarrow> nat \<Rightarrow> AppLife \<Rightarrow> AppLife" where
  "RunApp calls hardware_concurrency st =
     (let st0 = st\<lparr>running := True\<rparr>
      in case make_Listener calls of
           Inl what \<Rightarrow> RunCatch what st0
         | Inr l \<Rightarrow>
             (let st1 = st0\<lparr>listeners := listeners st0 @ [DoAccept l], listener := Some (length (listeners st0)),
                    cout_lines := cout_lines st0 @ [msg_server_started @ show_nat (life_port st0)]\<rparr>;
                  st2 = RunWorkers hardware_concurrency st1
              in st2\<lparr>in_run := \<not> ioc_stopped st2\<rparr>))"

definition StopApp :: "AppLife \<Rightarrow> AppLife" where
  "StopApp st =
     (if \<not> running st then st
      else st\<lparr>running := False, work_guard := False,
        listeners := (case listener st of None \<Rightarrow> listeners st
          | Some i \<Rightarrow> (listeners st)[i := StopListener (listeners st ! i)]),
        ioc_stopped := True, in_run := False, workers := map (\<lambda>joinable. False) (workers st)\<rparr>)"

text \<open>The destructor, when \<open>main\<close> returns after \<open>Run\<close>.\<close>

definition DestroyApp :: "AppLife \<Rightarrow> AppLife" where
  "DestroyApp st = StopApp st"

text \<open>The executor runs a handler only on a thread inside \<open>run()\<close>. A handler that throws ends \<open>Run\<close> on the
  main thread; on a worker nothing catches it, and the process is terminated.\<close>

definition has_thread :: "AppLife \<Rightarrow> bool" where
  "has_thread st \<longleftrightarrow> \<not> ioc_stopped st \<and> (in_run st \<or> True \<in> set (workers st))"

definition AcceptCompleted :: "nat \<Rightarrow> bool \<Rightarrow> AppLife \<Rightarrow> AppLife" where
  "AcceptCompleted i failed st =
     (if has_thread st \<and> i < length (listeners st) \<and> accept_pending (listeners st ! i)
      then (let (starts, l) = OnAccept failed (listeners st ! i)
            in st\<lparr>listeners := (listeners st)[i := l], served := served st + of_bool starts\<rparr>)
      else st)"

definition HandlerThrew :: "bool \<Rightarrow> string \<Rightarrow> AppLife \<Rightarrow> AppLife" where
  "HandlerThrew on_main what st =
     (if \<not> has_thread st then st
      else if on_main then (if in_run st then RunCatch what st else st)
      else if True \<in> set (workers st) then st\<lparr>terminated := True\<rparr>
      else st)"

text \<open>The SIGINT handler of \<open>main.cpp\<close> only prints that it prepares the end.\<close>

definition msg_sigint :: string where \<comment> \<open>SIGINT received, preparing to end\<close>
  "msg_sigint = utf8 [
     0x53, 0x49, 0x47, 0x49, 0x4E, 0x54, 0x20, 0xC218, 0xC2E0, 0x2C, 0x20, 0xC885,
     0xB8CC, 0xB97C, 0x20, 0xC900, 0xBE44, 0xD569, 0xB2C8, 0xB2E4]"

definition OnSigint :: "AppLife \<Rightarrow> AppLife" where
  "OnSigint st = st\<lparr>cout_lines := cout_lines st @ [msg_sigint]\<rparr>"

text \<open>\<open>main\<close> up to \<open>ioc_.run()\<close>; an exception of the configuration leaves it.\<close>

definition main_program ::
  "(string \<Rightarrow> string option) \<Rightarrow> AcceptorCalls \<Rightarrow> nat \<Rightarrow> exn + Server \<times> AppLife" where
  "main_program getenv calls hardware_concurrency =
     (case LoadConfigFromEnv getenv of
        Inl e \<Rightarrow> Inl e
      | Inr config \<Rightarrow> Inr (make_ServerApp config, RunApp calls hardware_concurrency (make_AppLife config)))"

datatype life_op =
    RunOp AcceptorCalls nat
  | StopAppOp
  | AcceptOp nat bool
  | ThrowOp bool string
  | SigintOp
  | MainReturns

fun life_step :: "life_op \<Rightarrow> AppLife \<Rightarrow> AppLife" where
  "life_step op st =
     (if terminated st then st
      else case op of
          RunOp calls hw \<Rightarrow> RunApp calls hw st
        | StopAppOp \<Rightarrow> StopApp st
        | AcceptOp i failed \<Rightarrow> AcceptCompleted i failed st
        | ThrowOp on_main what \<Rightarrow> HandlerThrew on_main what st
        | SigintOp \<Rightarrow> OnSigint st
        | MainReturns \<Rightarrow> if running st \<and> \<not> in_run st then DestroyApp st else st)"

section \<open>Invariant\<close>

text \<open>An open acceptor has an accept pending; the current listener of a running process is open.\<close>

definition life_inv :: "AppLife \<Rightarrow> bool" where
  "life_inv st \<longleftrightarrow>
     (\<forall>l \<in> set (listeners st). acceptor_open l \<longrightarrow> accept_pending l) \<and>
     (\<forall>i. listener st = Some i \<longrightarrow>
        i < length (listeners st) \<and> (ioc_stopped st \<or> acceptor_open (listeners st ! i))) \<and>
     (running st \<or> ioc_stopped st \<or> (listeners st = [] \<and> workers st = [] \<and> \<not> in_run st)) \<and>
     (work_guard st \<longleftrightarrow> \<not> ioc_stopped st)"

lemma life_inv_init: "life_inv (make_AppLife cfg)"
  by (simp add: life_inv_def make_AppLife_def)

lemma RunCatch_inv: "life_inv st \<Longrightarrow> life_inv (RunCatch what st)"
  by (auto simp: life_inv_def RunCatch_def)

lemma RunApp_inv: "life_inv st \<Longrightarrow> life_inv (RunApp calls hw st)"
  by (auto simp: life_inv_def RunApp_def RunWorkers_def RunCatch_def make_Listener_def DoAccept_def Let_def
      nth_append split: option.splits)

lemma StopApp_inv: "life_inv st \<Longrightarrow> life_inv (StopApp st)"
  by (auto simp: life_inv_def StopApp_def StopListener_def split: option.splits
      dest!: set_update_subset_insert [THEN subsetD])

lemma AcceptCompleted_inv:
  assumes inv: "life_inv st"
  shows "life_inv (AcceptCompleted i failed st)"
proof (cases "has_thread st \<and> i < length (listeners st) \<and> accept_pending (listeners st ! i)")
  case True
  let ?l = "listeners st ! i" and ?l' = "snd (OnAccept failed (listeners st ! i))"
  have "acceptor_open ?l' = acceptor_open ?l" "acceptor_open ?l' \<longrightarrow> accept_pending ?l'"
    by (simp_all add: OnAccept_def DoAccept_def Let_def)
  with inv True show ?thesis
    by (auto simp: life_inv_def AcceptCompleted_def split_beta nth_list_update split: option.splits
        dest!: set_update_subset_insert [THEN subsetD])
qed (use inv in \<open>auto simp: AcceptCompleted_def\<close>)

lemma HandlerThrew_inv: "life_inv st \<Longrightarrow> life_inv (HandlerThrew on_main what st)"
  by (simp add: HandlerThrew_def RunCatch_inv) (simp add: life_inv_def)

lemma OnSigint_inv: "life_inv st \<Longrightarrow> life_inv (OnSigint st)"
  by (simp add: life_inv_def OnSigint_def)

lemma life_step_inv: "life_inv st \<Longrightarrow> life_inv (life_step op st)"
  by (simp add: DestroyApp_def RunApp_inv StopApp_inv AcceptCompleted_inv HandlerThrew_inv OnSigint_inv split: life_op.split)

interpretation life_machine: machine life_step life_inv
  by unfold_locales (rule life_step_inv)

text \<open>A stopped context stays stopped and serves nobody: \<open>Run\<close> never restarts it.\<close>

lemma stopped_step:
  "ioc_stopped st \<and> served st = n \<Longrightarrow> ioc_stopped (life_step op st) \<and> served (life_step op st) = n"
  by (simp add: RunApp_def RunCatch_def RunWorkers_def StopApp_def DestroyApp_def AcceptCompleted_def HandlerThrew_def
      OnSigint_def has_thread_def Let_def split: life_op.split sum.split)

interpretation stopped_life: machine life_step "\<lambda>st. ioc_stopped st \<and> served st = n" for n
  by unfold_locales (rule stopped_step)

section \<open>Properties\<close>

text \<open>C27: Accepting never ceases while the server runs: whatever accepts failed and whatever else happened,
  as long as the context is not stopped the current listener is open and an accept is pending on it, so
  the next connection is served (if a thread is left to run the handler).\<close>

theorem accept_loop_survives:
  assumes "st = fold life_step ops (make_AppLife cfg)" "listener st = Some i" "\<not> ioc_stopped st"
    and "has_thread st"
  shows "acceptor_open (listeners st ! i) \<and> accept_pending (listeners st ! i) \<and>
    served (AcceptCompleted i False st) = served st + 1 \<and>
    listeners (AcceptCompleted i failed st) = listeners st"
proof -
  have inv: "life_inv st" using assms(1) life_machine.run_keeps [OF life_inv_init] by simp
  then have i: "i < length (listeners st)" "acceptor_open (listeners st ! i)"
    using assms(2,3) by (simp_all add: life_inv_def)
  with inv have pending: "accept_pending (listeners st ! i)" by (simp add: life_inv_def)
  have "(listeners st)[i := (listeners st ! i)\<lparr>accept_pending := True\<rparr>] = listeners st"
    using pending by (intro list_update_same_conv [THEN iffD2] i) (cases "listeners st ! i", simp)
  with i pending assms(4) show ?thesis
    by (simp add: AcceptCompleted_def OnAccept_def DoAccept_def Let_def)
qed

definition sample_calls :: AcceptorCalls where
  "sample_calls = \<lparr>ac_open = None, ac_reuse_address = None, ac_bind = None, ac_listen = None\<rparr>"

definition sample_life_config :: AppConfig where
  "sample_life_config = \<lparr>port = 8080, db_host = [], db_port = 3306, db_user = [], db_password = [], db_name = [],
     redis_host = [], redis_port = 6379, log_level = [], auth_token_ttl_seconds = 3600, login_rate_window_seconds = 60,
     login_rate_limit_max = 5, ws_queue_limit_messages = 8, ws_queue_limit_bytes = 65536,
     match_queue_timeout_seconds = 10, session_tick_interval_ms = 100, ops_token = []\<rparr>"

theorem accept_loop_survives_witness:
  "served (AcceptCompleted 0 False (fold life_step [RunOp sample_calls 4, AcceptOp 0 True, AcceptOp 0 False]
     (make_AppLife sample_life_config))) = 2"
proof -
  let ?st = "fold life_step [RunOp sample_calls 4, AcceptOp 0 True, AcceptOp 0 False] (make_AppLife sample_life_config)"
  have "listener ?st = Some 0" "\<not> ioc_stopped ?st" "has_thread ?st" "served ?st = 1"
    by (simp_all add: sample_calls_def make_AppLife_def RunApp_def RunWorkers_def make_Listener_def
        AcceptCompleted_def OnAccept_def DoAccept_def has_thread_def Let_def)
  with accept_loop_survives [OF refl, of "[RunOp sample_calls 4, AcceptOp 0 True, AcceptOp 0 False]" sample_life_config 0] show ?thesis by simp
qed

text \<open>C28: \<open>Stop\<close> is final: it joins every worker and closes the listener, and after it no connection is
  served any more, whatever follows, even another \<open>Run\<close> that opens a new listener: the context is never
  restarted.\<close>

theorem stop_is_final:
  assumes "running st"
  shows "True \<notin> set (workers (StopApp st)) \<and> \<not> has_thread (StopApp st) \<and>
    (case listener st of None \<Rightarrow> True
     | Some i \<Rightarrow> i < length (listeners st) \<longrightarrow> \<not> acceptor_open (listeners (StopApp st) ! i)) \<and>
    served (fold life_step ops (StopApp st)) = served st"
proof -
  have "ioc_stopped (StopApp st) \<and> served (StopApp st) = served st" using assms by (simp add: StopApp_def)
  then have "served (fold life_step ops (StopApp st)) = served st" using stopped_life.run_keeps by blast
  then show ?thesis using assms by (simp add: StopApp_def StopListener_def has_thread_def split: option.split)
qed

theorem stop_is_final_witness:
  "served (fold life_step [RunOp sample_calls 4, AcceptOp 1 False]
     (StopApp (AcceptCompleted 0 False (RunApp sample_calls 4 (make_AppLife sample_life_config))))) = 1"
proof -
  let ?st = "AcceptCompleted 0 False (RunApp sample_calls 4 (make_AppLife sample_life_config))"
  have "running ?st" "served ?st = 1"
    by (simp_all add: sample_calls_def make_AppLife_def RunApp_def RunWorkers_def make_Listener_def
        AcceptCompleted_def OnAccept_def DoAccept_def has_thread_def Let_def)
  with stop_is_final [of ?st "[RunOp sample_calls 4, AcceptOp 1 False]"] show ?thesis by simp
qed

end
