(* ===== verification/Contract.thy ===== *)
theory Contract
  imports SessionTrace ApiResponse
begin

text \<open>
  The message contract of the server (\<open>design/protocol/contract.md\<close>) as schemas over JSON, and the proof
  that every event a session sends has the schema of its name. The locale \<open>typed_sink\<close> is what a
  receiver of session events may rely on.
\<close>

section \<open>Schemas\<close>

text \<open>An object of schema \<open>SRecord\<close> has exactly the listed members, one of \<open>SOpen\<close> at least those.\<close>

datatype schema =
    SNull
  | SExactly bool
  | SInt
  | SUnsigned
  | SText
  | SOneOf "string list"
  | SListOf schema
  | SRecord "(string \<times> schema) list"
  | SOpen "(string \<times> schema) list"

fun conforms :: "schema \<Rightarrow> json \<Rightarrow> bool" where
  "conforms SNull j \<longleftrightarrow> (case j of JNull \<Rightarrow> True | _ \<Rightarrow> False)"
| "conforms (SExactly b) j \<longleftrightarrow> (case j of JBool c \<Rightarrow> c = b | _ \<Rightarrow> False)"
| "conforms SInt j \<longleftrightarrow> is_number_integer j"
| "conforms SUnsigned j \<longleftrightarrow> is_number_unsigned j"
| "conforms SText j \<longleftrightarrow> is_string j"
| "conforms (SOneOf ss) j \<longleftrightarrow> (case j of JString s \<Rightarrow> s \<in> set ss | _ \<Rightarrow> False)"
| "conforms (SListOf s) j \<longleftrightarrow> (case j of JArray js \<Rightarrow> list_all (conforms s) js | _ \<Rightarrow> False)"
| "conforms (SRecord fs) j \<longleftrightarrow>
     (case j of JObject m \<Rightarrow> dom m = set (map fst fs) | _ \<Rightarrow> False) \<and>
     list_all (\<lambda>(k, s). conforms s (json_at j k)) fs"
| "conforms (SOpen fs) j \<longleftrightarrow>
     (case j of JObject m \<Rightarrow> set (map fst fs) \<subseteq> dom m | _ \<Rightarrow> False) \<and>
     list_all (\<lambda>(k, s). conforms s (json_at j k)) fs"

lemma conforms_record [simp]:
  "conforms (SRecord fs) (json_obj kvs) \<longleftrightarrow>
     fst ` set kvs = fst ` set fs \<and> list_all (\<lambda>(k, s). conforms s (json_at (json_obj kvs) k)) fs"
  by (simp add: dom_map_of_conv_image_fst) (simp add: json_obj_def dom_map_of_conv_image_fst)

declare conforms.simps(8) [simp del]

section \<open>The events of a session\<close>

definition player_schema :: schema where
  "player_schema = SRecord [(''userId'', SInt), (''position'', SInt), (''lastSequence'', SUnsigned)]"

definition user_schema :: schema where
  "user_schema = SRecord [(''userId'', SInt), (''username'', SText)]"

definition session_events :: "(string \<times> schema) list" where
  "session_events =
     [(''session.created'', SRecord [(''sessionId'', SText), (''createdAt'', SText),
         (''participants'', SListOf user_schema)]),
      (''session.started'', SRecord [(''sessionId'', SText), (''tick'', SInt), (''tickIntervalMs'', SInt),
         (''state'', SRecord [(''tick'', SInt), (''players'', SListOf player_schema)])]),
      (''session.state'', SRecord [(''sessionId'', SText), (''tick'', SInt),
         (''players'', SListOf player_schema), (''issuedAt'', SText)]),
      (''session.ended'', SRecord [(''sessionId'', SText), (''reason'', SOneOf [''completed'']),
         (''result'', SRecord [(''winnerUserId'', SInt), (''ticks'', SInt)])])]"

definition has_schema :: "(string \<times> schema) list \<Rightarrow> string \<Rightarrow> json \<Rightarrow> bool" where
  "has_schema table e p \<longleftrightarrow> (case map_of table e of None \<Rightarrow> False | Some s \<Rightarrow> conforms s p)"

lemma players_conform: "list_all (conforms player_schema) (players_json ps)"
  by (simp add: players_json_def player_json_def player_schema_def list_all_iff)

lemma snapshot_members [simp]:
  "json_at (Snapshot sim) ''tick'' = JInteger (current_tick sim)"
  "json_at (Snapshot sim) ''players'' = JArray (players_json (players sim))"
  by (simp_all add: Snapshot_def)

lemma session_payloads:
  "has_schema session_events ''session.created'' (created_payload now ctx)"
  "has_schema session_events ''session.started'' (started_payload i ctx)"
  "has_schema session_events ''session.state'' (state_payload now ctx)"
  "has_schema session_events ''session.ended'' (ended_payload ctx)"
  by (simp_all add: has_schema_def session_events_def created_payload_def started_payload_def state_payload_def
      ended_payload_def BuildStatePayload_def user_schema_def players_conform [unfolded list_all_iff] list_all_iff Let_def)

section \<open>Receivers of session events\<close>

locale typed_sink =
  fixes send :: "int \<Rightarrow> string \<Rightarrow> json \<Rightarrow> 's \<Rightarrow> 's"
    and finalize :: "MatchResultRecord \<Rightarrow> SessionParticipant list \<Rightarrow> 's \<Rightarrow> 's"
    and typed :: "'s \<Rightarrow> bool"
  assumes send_typed: "has_schema session_events e p \<Longrightarrow> typed s \<Longrightarrow> typed (send u e p s)"
    and finalize_typed: "typed s \<Longrightarrow> typed (finalize r ps s)"
begin

lemma broadcast_typed:
  assumes "has_schema session_events e p" "typed s"
  shows "typed (BroadcastToParticipants send ctx e p s)"
proof -
  have "typed s \<Longrightarrow> typed (fold (\<lambda>q. send (sp_user_id q) e p) qs s)" for qs
    by (induction qs arbitrary: s) (simp_all add: send_typed [OF assms(1)])
  with assms(2) show ?thesis by (simp add: BroadcastToParticipants_def)
qed

lemma start_typed: "typed s \<Longrightarrow> typed (snd (RunStart send now n (sm, s)))"
  by (rule RunStart_cases [of send now n sm s]) (simp_all add: broadcast_typed session_payloads)

lemma timer_typed:
  assumes "sm_inv sm" "typed s" "RunTimer send finalize now ended_at n (sm, s) = Inr w'"
  shows "typed (snd w')"
  using assms(1)
  by (cases rule: RunTimer_cases [where send = send and finalize = finalize and now = now
        and ended_at = ended_at and n = n and s = s])
    (use assms(2,3) in \<open>auto simp: broadcast_typed finalize_typed session_payloads\<close>)

lemma step_typed:
  assumes "sm_inv (fst w)" "typed (snd w)"
  shows "typed (snd (session_step send finalize op w))"
proof (cases op)
  case (StartOp n now)
  then show ?thesis using start_typed [of "snd w" now n "fst w"] assms(2) by simp
next
  case (TimerOp n now ended_at)
  then show ?thesis
    using timer_typed [of "fst w" "snd w" now ended_at n] assms by (auto split: sum.split)
qed (simp_all add: assms)

lemma run_typed:
  assumes "sm_inv (fst w)" "typed (snd w)"
  shows "typed (snd (fold (session_step send finalize) ops w))"
  using assms by (induction ops arbitrary: w) (simp_all add: session_step_inv step_typed)

end

interpretation typed_log: typed_sink log_send log_finalize "list_all (\<lambda>(u, e, p). has_schema session_events e p)"
  by unfold_locales (simp_all add: log_send_def log_finalize_def)

section \<open>The events of all runs\<close>

text \<open>Every event that any run of the session manager sends has one of the four names of the contract, and
  its payload has exactly the members and kinds that the contract gives for this name.\<close>

lemma session_events_typed:
  "list_all (\<lambda>(u, e, p). has_schema session_events e p)
     (snd (fold (session_step log_send log_finalize) ops (make_SessionManager interval k, [])))"
  by (rule typed_log.run_typed) (simp_all add: sm_inv_init)

end
