(* ===== verification/WsSession.thy ===== *)
theory WsSession
  imports ServerApp
begin

text \<open>
  The handlers of \<open>WebSocketSession\<close> (\<open>websocket_session.cpp\<close>) on the state of the server: \<open>Run\<close>,
  reading and dispatching a message, resync, and session input. \<open>parse\<close> (\<open>None\<close> when
  \<open>nlohmann::json::parse\<close> throws) and \<open>dump\<close> are parameters; so are the random bytes and the clock
  readings of a handler. Every value printed here comes from the parser or is built from ASCII
  constants, so \<open>dump\<close> does not throw on it.
\<close>

definition BuildSnapshot :: "time_ns \<Rightarrow> WebSocketSession \<Rightarrow> json" where
  "BuildSnapshot now ws =
     json_obj [(''version'', JInteger (snapshot_version ws)), (''state'', JString ''auth_only''),
       (''issuedAt'', JString (ToIsoString now)),
       (''user'', json_obj [(''userId'', JInteger (au_user_id (as_user (ws_session ws)))),
          (''username'', JString (au_username (as_user (ws_session ws))))])]"

definition DoRead :: "WebSocketSession \<Rightarrow> WebSocketSession" where
  "DoRead ws =
     (if closing ws then ws
      else ws\<lparr>pending_read := True, stream_calls := stream_calls ws @ [AsyncRead]\<rparr>)"

definition ws_at :: "nat \<Rightarrow> Server \<Rightarrow> WebSocketSession option" where
  "ws_at r sv = um_find (ws_heap (net_of sv)) r"

definition put_ws_at :: "nat \<Rightarrow> WebSocketSession \<Rightarrow> Server \<Rightarrow> Server" where
  "put_ws_at r ws sv = with_network (put_ws r ws (net_of sv)) sv"

definition RunSession ::
  "(json \<Rightarrow> string) \<Rightarrow> byte list \<Rightarrow> time_ns \<Rightarrow> time_ns \<Rightarrow> nat \<Rightarrow> Server \<Rightarrow> Server" where
  "RunSession dump rnd snapshot_now issue_now r sv =
     (case ws_at r sv of
        None \<Rightarrow> sv
      | Some ws \<Rightarrow>
          (let user = as_user (ws_session ws);
               ws1 = ws\<lparr>ws_snapshot := BuildSnapshot snapshot_now ws\<rparr>;
               (token, rc) = IssueToken rnd issue_now user (snapshot_version ws1) (ws_snapshot ws1) None
                 (reconnect_service sv);
               ws2 = ws1\<lparr>resume_token := token\<rparr>;
               sv1 = put_ws_at r ws2 (sv\<lparr>reconnect_service := rc\<rparr>);
               sv2 = with_network (Register (au_user_id user) r (net_of sv1)) sv1
           in put_ws_at r (DoRead (SendAuthState dump ws2)) sv2))"

definition HandleResyncRequest ::
  "(json \<Rightarrow> string) \<Rightarrow> byte list \<Rightarrow> time_ns \<Rightarrow> time_ns \<Rightarrow> json \<Rightarrow> nat \<Rightarrow> WebSocketSession \<Rightarrow> ReconnectService
     \<Rightarrow> WebSocketSession \<times> ReconnectService" where
  "HandleResyncRequest dump rnd snapshot_now issue_now message seq ws rc =
     (let token = get_string (json_at message ''resumeToken''); user = as_user (ws_session ws)
      in case ValidateResume token user rc of
           None \<Rightarrow> (SendError dump ''invalid_resume_token'' msg_resume_token_invalid seq ws, rc)
         | Some r \<Rightarrow>
             (let ws1 = ws\<lparr>ws_snapshot := BuildSnapshot snapshot_now ws\<rparr>;
                  (new_token, rc1) = IssueToken rnd issue_now user (snapshot_version ws1)
                    (ws_snapshot ws1) (Some token) rc;
                  ws2 = ws1\<lparr>resume_token := new_token\<rparr>
              in (SendResyncState dump seq ws2, rc1)))"

definition input_of_message :: "json \<Rightarrow> WebSocketSession \<Rightarrow> SessionInput" where
  "input_of_message message ws =
     \<lparr>si_session_id = get_string (json_at message ''sessionId''),
      si_user_id = au_user_id (as_user (ws_session ws)),
      si_sequence = get_uint64 (json_at message ''sequence''),
      si_target_tick = get_int (json_at message ''targetTick''),
      si_delta = get_int (json_at message ''delta'')\<rparr>"

definition HandleSessionInput ::
  "(json \<Rightarrow> string) \<Rightarrow> json \<Rightarrow> nat \<Rightarrow> WebSocketSession \<Rightarrow> SessionManager \<Rightarrow> WebSocketSession \<times> SessionManager"
where
  "HandleSessionInput dump message seq ws sm =
     (if \<not> json_contains message ''sessionId'' \<or> \<not> json_contains message ''sequence''
         \<or> \<not> json_contains message ''targetTick'' \<or> \<not> json_contains message ''delta''
      then (SendError dump ''bad_request'' msg_fields_missing seq ws, sm)
      else if \<not> is_string (json_at message ''sessionId'')
         \<or> \<not> is_number_unsigned (json_at message ''sequence'')
         \<or> \<not> is_number_integer (json_at message ''targetTick'')
         \<or> \<not> is_number_integer (json_at message ''delta'')
      then (SendError dump ''bad_request'' msg_fields_malformed seq ws, sm)
      else
        (let (e, sm1) = SubmitInput (input_of_message message ws) sm
         in case e of
              None \<Rightarrow> (ws, sm1)
            | Some (code, message) \<Rightarrow> (SendError dump code message seq ws, sm1)))"

text \<open>\<open>HandleMessage\<close>: the part of \<open>OnRead\<close> that looks at a parsed message.\<close>

definition message_seq :: "json \<Rightarrow> nat" where
  "message_seq message =
     (case json_find message ''seq'' of
        None \<Rightarrow> 0
      | Some j \<Rightarrow> if is_number_unsigned j then get_uint64 j else 0)"

definition HandleEcho :: "(json \<Rightarrow> string) \<Rightarrow> json option \<Rightarrow> nat \<Rightarrow> WebSocketSession \<Rightarrow> WebSocketSession" where
  "HandleEcho dump payload seq ws =
     (case payload of
        None \<Rightarrow> SendError dump ''bad_request'' msg_payload_missing seq ws
      | Some p \<Rightarrow>
          if \<not> is_object p then SendError dump ''bad_request'' msg_payload_missing seq ws
          else if \<not> json_contains p ''message'' \<or> \<not> is_string (json_at p ''message'')
          then SendError dump ''bad_request'' msg_message_required seq ws
          else SendEcho dump p seq ws)"

definition HandleMessage ::
  "(json \<Rightarrow> string) \<Rightarrow> byte list \<Rightarrow> time_ns \<Rightarrow> time_ns \<Rightarrow> json \<Rightarrow> WebSocketSession \<Rightarrow> ReconnectService
     \<Rightarrow> SessionManager \<Rightarrow> WebSocketSession \<times> ReconnectService \<times> SessionManager" where
  "HandleMessage dump rnd snapshot_now issue_now message ws rc sm =
     (let seq = message_seq message; type_it = json_find message ''t'';
          event_it = json_find message ''event''; payload_it = json_find message ''p''
      in case type_it of
           None \<Rightarrow> (SendError dump ''bad_request'' msg_bad_format seq ws, rc, sm)
         | Some t \<Rightarrow>
             if \<not> is_string t then (SendError dump ''bad_request'' msg_bad_format seq ws, rc, sm)
             else (case event_it of
                 None \<Rightarrow> (SendError dump ''bad_request'' msg_unknown_type seq ws, rc, sm)
               | Some ev \<Rightarrow>
                   if get_string t = ''event'' \<and> is_string ev
                   then
                     (if get_string ev = ''echo'' then (HandleEcho dump payload_it seq ws, rc, sm)
                      else if get_string ev = ''resync_request'' then
                        (case payload_it of
                           None \<Rightarrow> (SendError dump ''invalid_resume_token'' msg_resume_token_required seq ws, rc, sm)
                         | Some p \<Rightarrow>
                             if \<not> is_object p \<or> \<not> json_contains p ''resumeToken''
                                \<or> \<not> is_string (json_at p ''resumeToken'')
                             then (SendError dump ''invalid_resume_token'' msg_resume_token_required seq ws, rc, sm)
                             else (let (ws1, rc1) = HandleResyncRequest dump rnd snapshot_now issue_now p seq ws rc
                                   in (ws1, rc1, sm)))
                      else if get_string ev = ''session.input'' then
                        (case payload_it of
                           None \<Rightarrow> (SendError dump ''bad_request'' msg_payload_missing seq ws, rc, sm)
                         | Some p \<Rightarrow>
                             if \<not> is_object p
                             then (SendError dump ''bad_request'' msg_payload_missing seq ws, rc, sm)
                             else (let (ws1, sm1) = HandleSessionInput dump p seq ws sm in (ws1, rc, sm1)))
                      else (SendError dump ''bad_request'' msg_unknown_event seq ws, rc, sm))
                   else (SendError dump ''bad_request'' msg_unknown_type seq ws, rc, sm)))"

definition OnRead ::
  "(string \<Rightarrow> json option) \<Rightarrow> (json \<Rightarrow> string) \<Rightarrow> bool \<Rightarrow> string \<Rightarrow> byte list \<Rightarrow> time_ns \<Rightarrow> time_ns \<Rightarrow> nat
     \<Rightarrow> Server \<Rightarrow> Server" where
  "OnRead parse dump failed data rnd snapshot_now issue_now r sv =
     (case ws_at r sv of
        None \<Rightarrow> sv
      | Some ws \<Rightarrow>
          (let ws0 = ws\<lparr>pending_read := False\<rparr>
           in if failed \<or> closing ws0 then put_ws_at r ws0 sv
              else case parse data of
                None \<Rightarrow> put_ws_at r (DoRead (SendError dump ''bad_request'' msg_json_parse 0 ws0)) sv
              | Some message \<Rightarrow>
                  (let (ws1, rc, sm) = HandleMessage dump rnd snapshot_now issue_now message ws0
                         (reconnect_service sv) (session_manager sv)
                   in put_ws_at r (DoRead ws1) (sv\<lparr>reconnect_service := rc, session_manager := sm\<rparr>))))"

text \<open>The completion of a write, and the destructor.\<close>

definition WriteCompleted :: "bool \<Rightarrow> nat \<Rightarrow> Server \<Rightarrow> Server" where
  "WriteCompleted failed r sv =
     (case ws_at r sv of None \<Rightarrow> sv | Some ws \<Rightarrow> put_ws_at r (OnWrite failed ws) sv)"

definition SessionDestroyed :: "nat \<Rightarrow> Server \<Rightarrow> Server" where
  "SessionDestroyed r sv = with_network (DestroySession r (net_of sv)) sv"

section \<open>Preservation\<close>

lemma DoRead_inv [inv_intros]: "ws_inv ws \<Longrightarrow> ws_inv (DoRead ws)"
  by (simp add: DoRead_def ws_inv_def)

lemma DoRead_session [simp]: "ws_session (DoRead ws) = ws_session ws"
  by (simp add: DoRead_def)

lemma ws_inv_fields [simp]:
  "ws_inv (ws\<lparr>pending_read := b\<rparr>) = ws_inv ws"
  "ws_inv (ws\<lparr>ws_snapshot := j\<rparr>) = ws_inv ws"
  "ws_inv (ws\<lparr>resume_token := t\<rparr>) = ws_inv ws"
  by (simp_all add: ws_inv_def)

lemma HandleEcho_inv: "ws_inv ws \<Longrightarrow> ws_inv (HandleEcho dump p seq ws)"
  by (simp add: HandleEcho_def Send_inv split: option.split)

lemma HandleResync_inv: "ws_inv ws \<Longrightarrow> ws_inv (fst (HandleResyncRequest dump rnd n1 n2 m seq ws rc))"
  by (simp add: HandleResyncRequest_def Let_def split_beta Send_inv split: option.split)

lemma HandleSessionInput_inv:
  "ws_inv ws \<Longrightarrow> ws_inv (fst (HandleSessionInput dump m seq ws sm))"
  by (simp add: HandleSessionInput_def Let_def split_beta Send_inv split: option.split)

lemma HandleSessionInput_sm:
  "snd (HandleSessionInput dump m seq ws sm) = sm \<or>
     snd (HandleSessionInput dump m seq ws sm) = snd (SubmitInput (input_of_message m ws) sm)"
  by (simp add: HandleSessionInput_def Let_def split_beta split: option.split)

lemma HandleMessage_inv:
  "ws_inv ws \<Longrightarrow> ws_inv (fst (HandleMessage dump rnd n1 n2 m ws rc sm))"
  by (simp add: HandleMessage_def Let_def split_beta Send_inv HandleEcho_inv HandleResync_inv
      HandleSessionInput_inv split: option.split)

lemma Handlers_session [simp]:
  "ws_session (HandleEcho dump p seq ws) = ws_session ws"
  "ws_session (fst (HandleResyncRequest dump rnd n1 n2 m seq ws rc)) = ws_session ws"
  "ws_session (fst (HandleSessionInput dump m seq ws sm)) = ws_session ws"
  by (simp_all add: HandleEcho_def HandleResyncRequest_def HandleSessionInput_def Let_def split_beta
      split: option.split)

lemma HandleMessage_session [simp]:
  "ws_session (fst (HandleMessage dump rnd n1 n2 m ws rc sm)) = ws_session ws"
  by (simp add: HandleMessage_def Let_def split_beta split: option.split)

lemma HandleMessage_sm:
  "snd (snd (HandleMessage dump rnd n1 n2 m ws rc sm)) = sm \<or>
     (\<exists>input. snd (snd (HandleMessage dump rnd n1 n2 m ws rc sm)) = snd (SubmitInput input sm))"
proof -
  have "snd (HandleSessionInput dump p seq ws sm) = sm \<or>
      (\<exists>input. snd (HandleSessionInput dump p seq ws sm) = snd (SubmitInput input sm))" for p seq
    using HandleSessionInput_sm by blast
  then show ?thesis
    by (simp add: HandleMessage_def Let_def split_beta split: option.split)
qed

section \<open>Properties\<close>

text \<open>C23: A resync with a valid resume token rotates it: the session holds a new token that is valid for its
  user, the old one is good for nobody any more, and every other token stays as it was.\<close>

theorem resync_rotates_token:
  assumes "old = get_string (json_at m ''resumeToken'')" "user = as_user (ws_session ws)"
    and "ValidateResume old user rc = Some snap" "GenerateResumeToken rnd \<noteq> old"
  shows "let (ws', rc') = HandleResyncRequest dump rnd n1 n2 m seq ws rc; new = GenerateResumeToken rnd
    in resume_token ws' = new \<and> map_option rs_user (ValidateResume new user rc') = Some user \<and>
       ValidateResume old anyone rc' = None \<and>
       (t = old \<or> t = new \<or> find_resume rc' t = find_resume rc t)"
proof -
  let ?i = "IssueToken rnd n2 user (snapshot_version ws) (BuildSnapshot n1 ws) (Some old) rc"
  have fst_i: "fst (IssueToken rnd n2 u v j p rc) = GenerateResumeToken rnd" for u v j p rc
    by (simp add: IssueToken_def Let_def)
  then have i: "?i = (GenerateResumeToken rnd, snd ?i)" by (simp add: prod_eq_iff)
  note rot = IssueToken_rotation [OF i]
  from assms have h: "HandleResyncRequest dump rnd n1 n2 m seq ws rc =
      (SendResyncState dump seq (ws\<lparr>ws_snapshot := BuildSnapshot n1 ws, resume_token := GenerateResumeToken rnd\<rparr>), snd ?i)"
    unfolding assms(1,2) by (simp add: HandleResyncRequest_def Let_def split_beta fst_i)
  obtain r where r: "find_resume (snd ?i) (GenerateResumeToken rnd) = Some r" "rs_user r = user"
    using rot(1) by blast
  show ?thesis
    using rot(2) rot(3) [of t] r assms(4)
    by (auto simp: h ValidateResume_def SendResyncState_def)
qed

theorem resync_rotates_token_witness:
  "let old = GenerateResumeToken [1]; user = as_user sample_session;
       rc = snd (IssueToken [1] 0 user 1 JNull None make_ReconnectService);
       (ws', rc') = HandleResyncRequest (\<lambda>j. []) [2] 0 0 (json_obj [(''resumeToken'', JString old)]) 1
         (make_WebSocketSession sample_session 8 100) rc
   in resume_token ws' = GenerateResumeToken [2] \<and> ValidateResume old user rc' = None"
proof -
  let ?old = "GenerateResumeToken [1]" and ?user = "as_user sample_session"
  let ?rc = "snd (IssueToken [1] 0 ?user 1 JNull None make_ReconnectService)"
  let ?m = "json_obj [(''resumeToken'', JString ?old)]" and ?ws = "make_WebSocketSession sample_session 8 100"
  have "ValidateResume ?old ?user ?rc \<noteq> None"
    by (simp add: ValidateResume_def IssueToken_def Let_def find_resume_def store_resume_def)
  then obtain snap where "ValidateResume ?old ?user ?rc = Some snap" by blast
  moreover have "GenerateResumeToken [2] \<noteq> ?old" unfolding GenerateResumeToken_def BytesToHex_inject by simp
  ultimately show ?thesis
    using resync_rotates_token [of ?old ?m ?user ?ws ?rc snap "[2]" "\<lambda>j. []" 0 0 1 ?user ?old]
    by (simp add: make_WebSocketSession_def split_beta Let_def)
qed

text \<open>The sender of an echo cannot be forged: the payload is sent back with the \<open>userId\<close> of the
  connection, also when the client put another one there, and all other members unchanged.\<close>

lemma echo_names_sender:
  assumes "is_object p" "json_contains p ''message''" "is_string (json_at p ''message'')"
    and "message = json_obj [(''t'', JString ''event''), (''event'', JString ''echo''), (''seq'', JUnsigned n), (''p'', p)]"
  shows "\<exists>p'. HandleMessage dump rnd n1 n2 message ws rc sm =
      (EnqueueMessage (dump (ToWsJson \<lparr>env_type = ''event'', env_event = ''echo'', env_seq = n, env_payload = p'\<rparr>)) ws, rc, sm) \<and>
    json_at p' ''userId'' = JInteger (au_user_id (as_user (ws_session ws))) \<and>
    (k = ''userId'' \<or> json_find p' k = json_find p k)"
proof -
  obtain m where p: "p = JObject m" using assms(1) by (cases p) simp_all
  show ?thesis
    using assms
    by (intro exI [of _ "json_set ''userId'' (JInteger (au_user_id (as_user (ws_session ws)))) p"])
      (auto simp: HandleMessage_def Let_def message_seq_def HandleEcho_def SendEcho_def p json_at_def)
qed

lemma echo_names_sender_witness:
  "\<exists>p'. HandleMessage (\<lambda>j. []) [] 0 0 (json_obj [(''t'', JString ''event''), (''event'', JString ''echo''), (''seq'', JUnsigned 4),
      (''p'', json_obj [(''message'', JString ''hi''), (''userId'', JInteger 99)])]) (make_WebSocketSession sample_session 8 100)
      make_ReconnectService (make_SessionManager 100 5) =
      (EnqueueMessage [] (make_WebSocketSession sample_session 8 100), make_ReconnectService, make_SessionManager 100 5) \<and>
    json_at p' ''userId'' = JInteger 7"
  using echo_names_sender [of "json_obj [(''message'', JString ''hi''), (''userId'', JInteger 99)]" _ 4 "\<lambda>j. []" "[]" 0 0
      "make_WebSocketSession sample_session 8 100" make_ReconnectService "make_SessionManager 100 5" "''message''"]
  by (auto simp: make_WebSocketSession_def sample_session_def)

end
