(* ===== verification/HttpSession.thy ===== *)
theory HttpSession
  imports WsSession
begin

text \<open>
  \<open>HttpSession\<close> of \<open>http_session.cpp\<close>: one definition per endpoint, the dispatch of \<open>HandleRequest\<close>,
  \<open>SendResponse\<close> with its counters and log line, and the WebSocket upgrade. A connection serves one
  request. \<open>parse\<close>, \<open>dump\<close>, \<open>pbkdf\<close>, the random bytes and the clock readings are parameters;
  \<open>try_dump\<close> is the printer of the log, which throws on a request target that is not UTF-8. An
  exception that leaves the handler leaves the thread that runs the executor.
\<close>

datatype http_method = GetMethod | PostMethod | OtherMethod

record HttpRequest =
  hr_method :: http_method
  hr_target :: string
  hr_body :: string
  hr_authorization :: "string option"
  hr_ops_token :: "string option"
  hr_upgrade :: bool
  hr_remote_ip :: "string option"

record HttpResponse =
  rp_status :: nat
  rp_body :: string

text \<open>The clock readings of one request, in the order of the code.\<close>

record Readings =
  rd_start :: time_ns
  rd_trace :: time_ns
  rd_validate :: time_ns
  rd_service :: time_ns
  rd_expires :: time_ns
  rd_stamp :: time_ns
  rd_end :: time_ns

text \<open>The parameters of a handler that are not the program's.\<close>

record Platform =
  pf_parse :: "string \<Rightarrow> json option"
  pf_dump :: "json \<Rightarrow> string"
  pf_try_dump :: "json \<Rightarrow> string option"
  pf_pbkdf :: pbkdf2

section \<open>Parts of a request\<close>

definition ParseBearer :: "string \<Rightarrow> string" where
  "ParseBearer header_value =
     (if length header_value \<le> length ''Bearer '' then []
      else if take (length ''Bearer '') header_value \<noteq> ''Bearer '' then []
      else drop (length ''Bearer '') header_value)"

definition ExtractAuthSession :: "HttpRequest \<Rightarrow> time_ns \<Rightarrow> Server \<Rightarrow> AuthSession option \<times> Server" where
  "ExtractAuthSession req now sv =
     (case hr_authorization req of
        None \<Rightarrow> (None, sv)
      | Some header \<Rightarrow>
          (let token = ParseBearer header
           in if token = [] then (None, sv)
              else (let (s, au) = ValidateToken now token (auth_service sv)
                    in (s, sv\<lparr>auth_service := au\<rparr>))))"

definition RemoteIp :: "HttpRequest \<Rightarrow> string" where
  "RemoteIp req = (case hr_remote_ip req of None \<Rightarrow> ''unknown'' | Some ip \<Rightarrow> ip)"

definition target_path :: "string \<Rightarrow> string" where
  "target_path target = takeWhile (\<lambda>c. c \<noteq> CHR ''?'') target"

definition target_query :: "string \<Rightarrow> string" where
  "target_query target = tl (dropWhile (\<lambda>c. c \<noteq> CHR ''?'') target)"

definition success :: "Platform \<Rightarrow> Readings \<Rightarrow> nat \<Rightarrow> json \<Rightarrow> HttpResponse" where
  "success pf rd status data =
     \<lparr>rp_status = status, rp_body = pf_dump pf (MakeSuccessEnvelope (rd_stamp rd) data)\<rparr>"

definition failure :: "Platform \<Rightarrow> Readings \<Rightarrow> nat \<Rightarrow> string \<Rightarrow> string \<Rightarrow> HttpResponse" where
  "failure pf rd status code message =
     \<lparr>rp_status = status, rp_body = pf_dump pf (MakeErrorEnvelope (rd_stamp rd) code message)\<rparr>"

section \<open>Endpoints\<close>

definition HandleHealth :: "Platform \<Rightarrow> Readings \<Rightarrow> HttpResponse" where
  "HandleHealth pf rd = success pf rd 200
     (json_obj [(''status'', JString ''ok''), (''version'', JString ''v1.0.0'')])"

definition current_metrics :: "Server \<Rightarrow> MetricsSnapshot" where
  "current_metrics sv = MetricsSnapshotOf (ActiveSessionCount (session_manager sv))
     (QueueLength (match_queue sv)) (observability (net_of sv))"

definition HandleMetrics :: "Platform \<Rightarrow> Readings \<Rightarrow> Server \<Rightarrow> HttpResponse" where
  "HandleMetrics pf rd sv =
     (let m = current_metrics sv
      in success pf rd 200 (json_obj
        [(''requests'', json_obj [(''total'', JUnsigned (unat (ms_request_total m))),
            (''errors'', JUnsigned (unat (ms_request_errors m)))]),
         (''connections'', json_obj [(''websocket'', JUnsigned (unat (ms_websocket_active m)))]),
         (''sessions'', json_obj [(''active'', JUnsigned (unat (ms_active_sessions m)))]),
         (''queue'', json_obj [(''length'', JUnsigned (unat (ms_queue_length m)))])]))"

definition HandleOpsStatus :: "Platform \<Rightarrow> Readings \<Rightarrow> HttpRequest \<Rightarrow> Server \<Rightarrow> HttpResponse" where
  "HandleOpsStatus pf rd req sv =
     (let header_token = (case hr_ops_token req of None \<Rightarrow> [] | Some t \<Rightarrow> t)
      in if ops_token (app_config sv) = [] \<or> header_token \<noteq> ops_token (app_config sv)
         then failure pf rd 401 ''unauthorized'' msg_ops_token
         else
           (let m = current_metrics sv
            in success pf rd 200 (json_obj
              [(''activeSessions'', JUnsigned (unat (ms_active_sessions m))),
               (''queueLength'', JUnsigned (unat (ms_queue_length m))),
               (''activeWebsocket'', JUnsigned (unat (ms_websocket_active m))),
               (''errorCount'', JUnsigned (unat (ms_request_errors m)))])))"

text \<open>The credentials in a body; \<open>None\<close> stands for the exceptions of the parser and of the checks.\<close>

definition credentials_of :: "Platform \<Rightarrow> HttpRequest \<Rightarrow> (string \<times> string) option" where
  "credentials_of pf req =
     (case pf_parse pf (hr_body req) of
        None \<Rightarrow> None
      | Some body \<Rightarrow>
          if \<not> json_contains body ''username'' \<or> \<not> json_contains body ''password''
             \<or> \<not> is_string (json_at body ''username'') \<or> \<not> is_string (json_at body ''password'')
          then None
          else Some (get_string (json_at body ''username''), get_string (json_at body ''password'')))"

definition HandleRegister ::
  "Platform \<Rightarrow> Readings \<Rightarrow> byte list \<Rightarrow> HttpRequest \<Rightarrow> Server \<Rightarrow> HttpResponse \<times> Server" where
  "HandleRegister pf rd rnd req sv =
     (case credentials_of pf req of
        None \<Rightarrow> (failure pf rd 400 ''bad_request'' msg_json_body, sv)
      | Some (username, password) \<Rightarrow>
          (case RegisterUser (pf_pbkdf pf) rnd username password (auth_service sv) of
             (Inl (code, message), au) \<Rightarrow>
               (failure pf rd (if code = ''bad_request'' then 400 else 409) code message,
                sv\<lparr>auth_service := au\<rparr>)
           | (Inr user, au) \<Rightarrow>
               (success pf rd 201 (json_obj [(''userId'', JInteger (au_user_id user)),
                  (''username'', JString (au_username user))]),
                with_ratings (EnsureUser (au_user_id user) (au_username user) (ratings_of sv))
                  (sv\<lparr>auth_service := au\<rparr>))))"

definition HandleLogin ::
  "Platform \<Rightarrow> Readings \<Rightarrow> byte list \<Rightarrow> HttpRequest \<Rightarrow> Server \<Rightarrow> HttpResponse \<times> Server" where
  "HandleLogin pf rd rnd req sv =
     (case credentials_of pf req of
        None \<Rightarrow> (failure pf rd 400 ''bad_request'' msg_json_body, sv)
      | Some (username, password) \<Rightarrow>
          (case Login (pf_pbkdf pf) rnd (rd_service rd) username password (RemoteIp req) (auth_service sv) of
             (Inl (code, message), au) \<Rightarrow>
               (failure pf rd (if code = ''rate_limited'' then 429 else 401) code message,
                sv\<lparr>auth_service := au\<rparr>)
           | (Inr session, au) \<Rightarrow>
               (let user = as_user session
                in (success pf rd 200 (json_obj [(''token'', JString (as_token session)),
                      (''expiresAt'', JString (ToIsoString (as_expires_at session))),
                      (''user'', json_obj [(''userId'', JInteger (au_user_id user)),
                         (''username'', JString (au_username user))])]),
                    with_ratings (EnsureUser (au_user_id user) (au_username user) (ratings_of sv))
                      (sv\<lparr>auth_service := au\<rparr>)))))"

text \<open>The endpoints for users that are logged in.\<close>

definition with_session ::
  "Platform \<Rightarrow> Readings \<Rightarrow> HttpRequest \<Rightarrow> (AuthSession \<Rightarrow> Server \<Rightarrow> HttpResponse \<times> Server) \<Rightarrow> Server
     \<Rightarrow> HttpResponse \<times> Server" where
  "with_session pf rd req handler sv =
     (case ExtractAuthSession req (rd_validate rd) sv of
        (None, sv1) \<Rightarrow> (failure pf rd 401 ''unauthorized'' msg_auth_required, sv1)
      | (Some session, sv1) \<Rightarrow> handler session sv1)"

definition HandleLogout :: "Platform \<Rightarrow> Readings \<Rightarrow> AuthSession \<Rightarrow> Server \<Rightarrow> HttpResponse \<times> Server" where
  "HandleLogout pf rd session sv =
     (success pf rd 200 (json_obj [(''loggedOut'', JBool True)]),
      sv\<lparr>auth_service := snd (Logout (as_token session) (auth_service sv))\<rparr>)"

text \<open>The mode and the timeout in a body, \<open>None\<close> for the exceptions.\<close>

definition join_request :: "Platform \<Rightarrow> HttpRequest \<Rightarrow> AppConfig \<Rightarrow> (string \<times> int) option" where
  "join_request pf req cfg =
     (case pf_parse pf (hr_body req) of
        None \<Rightarrow> None
      | Some body \<Rightarrow>
          if \<not> json_contains body ''mode'' \<or> \<not> is_string (json_at body ''mode'') then None
          else if get_string (json_at body ''mode'') \<noteq> ''normal'' then None
          else if json_contains body ''timeoutSeconds'' then
            (if \<not> is_number_unsigned (json_at body ''timeoutSeconds'') then None
             else Some (get_string (json_at body ''mode''),
                    to_int64 (int (get_uint64 (json_at body ''timeoutSeconds'')))))
          else Some (get_string (json_at body ''mode''), to_int64 (int (match_queue_timeout_seconds cfg))))"

definition HandleJoin ::
  "Platform \<Rightarrow> Readings \<Rightarrow> HttpRequest \<Rightarrow> AuthSession \<Rightarrow> Server \<Rightarrow> HttpResponse \<times> Server" where
  "HandleJoin pf rd req session sv =
     (case join_request pf req (app_config sv) of
        None \<Rightarrow> (failure pf rd 400 ''bad_request'' msg_mode_timeout, sv)
      | Some (mode, timeout) \<Rightarrow>
          (case Join (game_in_session (game_of sv)) (rd_service rd) (as_user session) timeout (match_queue sv) of
             (Some (code, message), q) \<Rightarrow>
               (failure pf rd (if code = ''queue_duplicate'' then 409 else 400) code message,
                sv\<lparr>match_queue := q\<rparr>)
           | (None, q) \<Rightarrow>
               (success pf rd 200 (json_obj [(''queued'', JBool True), (''mode'', JString mode),
                  (''expiresAt'', JString (ToIsoString (add_seconds (rd_expires rd) timeout)))]),
                sv\<lparr>match_queue := q\<rparr>)))"

definition HandleCancel :: "Platform \<Rightarrow> Readings \<Rightarrow> AuthSession \<Rightarrow> Server \<Rightarrow> HttpResponse \<times> Server" where
  "HandleCancel pf rd session sv =
     (case Cancel (au_user_id (as_user session)) (match_queue sv) of
        (Some (code, message), q) \<Rightarrow> (failure pf rd 404 code message, sv\<lparr>match_queue := q\<rparr>)
      | (None, q) \<Rightarrow> (success pf rd 200 (json_obj [(''canceled'', JBool True)]), sv\<lparr>match_queue := q\<rparr>))"

definition parse_or_flag :: "(string, string) umap \<Rightarrow> string \<Rightarrow> nat \<Rightarrow> nat \<Rightarrow> nat \<Rightarrow> nat option" where
  "parse_or_flag params key dest lo hi =
     (case um_find params key of
        None \<Rightarrow> Some dest
      | Some s \<Rightarrow>
          (case ParsePositiveInt s of
             None \<Rightarrow> None
           | Some parsed \<Rightarrow> if parsed < lo \<or> parsed > hi then None else Some parsed))"

definition entry_json :: "64 word \<Rightarrow> 64 word \<Rightarrow> nat \<Rightarrow> RatingSummary \<Rightarrow> json" where
  "entry_json page sz i e =
     json_obj [(''rank'', JInteger (to_int32 (uint ((page - 1) * sz + word_of_nat i + 1)))),
       (''userId'', JInteger (sum_user_id e)), (''username'', JString (sum_username e)),
       (''rating'', JInteger (sum_rating e)), (''wins'', JInteger (sum_wins e)),
       (''losses'', JInteger (sum_losses e)), (''matches'', JInteger (summary_matches e))]"

definition HandleLeaderboard ::
  "Platform \<Rightarrow> Readings \<Rightarrow> string \<Rightarrow> Server \<Rightarrow> exn + HttpResponse" where
  "HandleLeaderboard pf rd query sv =
     (let params = ParseQueryParams query;
          page = parse_or_flag params ''page'' 1 1 (2 ^ 64 - 1);
          sz = parse_or_flag params ''size'' 10 1 50
      in case (page, sz) of
           (Some p, Some n) \<Rightarrow>
             (case GetLeaderboard (word_of_nat p) (word_of_nat n) (ratings_of sv) of
                Inl e \<Rightarrow> Inl e
              | Inr data \<Rightarrow>
                  Inr (success pf rd 200 (json_obj [(''page'', JUnsigned p), (''size'', JUnsigned n),
                    (''total'', JUnsigned (unat (lb_total data))),
                    (''entries'', JArray (map (\<lambda>(i, e). entry_json (word_of_nat p) (word_of_nat n) i e)
                       (enumerate 0 (lb_entries data))))])))
         | _ \<Rightarrow> Inr (failure pf rd 400 ''leaderboard_range'' msg_leaderboard_range))"

definition HandleProfile :: "Platform \<Rightarrow> Readings \<Rightarrow> AuthSession \<Rightarrow> Server \<Rightarrow> HttpResponse \<times> Server" where
  "HandleProfile pf rd session sv =
     (let user = as_user session; summary = GetSummary (au_user_id user) (ratings_of sv);
          rating = (case summary of None \<Rightarrow> 1000 | Some s \<Rightarrow> sum_rating s);
          wins = (case summary of None \<Rightarrow> 0 | Some s \<Rightarrow> sum_wins s);
          losses = (case summary of None \<Rightarrow> 0 | Some s \<Rightarrow> sum_losses s)
      in (success pf rd 200 (json_obj [(''userId'', JInteger (au_user_id user)),
            (''username'', JString (au_username user)), (''rating'', JInteger rating),
            (''wins'', JInteger wins), (''losses'', JInteger losses),
            (''matches'', JInteger (wins + losses))]), sv))"

section \<open>Dispatch\<close>

definition with_observability :: "Observability \<Rightarrow> Server \<Rightarrow> Server" where
  "with_observability ob sv = with_network ((net_of sv)\<lparr>observability := ob\<rparr>) sv"

definition Dispatch ::
  "Platform \<Rightarrow> Readings \<Rightarrow> byte list \<Rightarrow> HttpRequest \<Rightarrow> Server \<Rightarrow> exn + HttpResponse \<times> Server" where
  "Dispatch pf rd rnd req sv =
     (let get = (hr_method req = GetMethod); post = (hr_method req = PostMethod);
          path = target_path (hr_target req)
      in if get \<and> path = ''/api/health'' then Inr (HandleHealth pf rd, sv)
         else if get \<and> path = ''/metrics'' then Inr (HandleMetrics pf rd sv, sv)
         else if get \<and> path = ''/ops/status'' then Inr (HandleOpsStatus pf rd req sv, sv)
         else if post \<and> path = ''/api/auth/register'' then Inr (HandleRegister pf rd rnd req sv)
         else if post \<and> path = ''/api/auth/login'' then Inr (HandleLogin pf rd rnd req sv)
         else if post \<and> path = ''/api/auth/logout'' then
           Inr (with_session pf rd req (HandleLogout pf rd) sv)
         else if post \<and> path = ''/api/queue/join'' then
           Inr (with_session pf rd req (HandleJoin pf rd req) sv)
         else if post \<and> path = ''/api/queue/cancel'' then
           Inr (with_session pf rd req (HandleCancel pf rd) sv)
         else if get \<and> path = ''/api/leaderboard'' then
           (case HandleLeaderboard pf rd (target_query (hr_target req)) sv of
              Inl e \<Rightarrow> Inl e | Inr res \<Rightarrow> Inr (res, sv))
         else if get \<and> path = ''/api/profile'' then
           Inr (with_session pf rd req (HandleProfile pf rd) sv)
         else Inr (failure pf rd 404 ''not_found'' msg_not_found, sv))"

text \<open>\<open>SendResponse\<close>: \<open>started\<close> is \<open>request_start_\<close>. Handlers that respond inside a \<open>try\<close> block call it
  again from the \<open>catch\<close> when the log throws, and then the log throws out of the handler.\<close>

definition SendResponse ::
  "Platform \<Rightarrow> Readings \<Rightarrow> string \<Rightarrow> time_ns \<Rightarrow> HttpRequest \<Rightarrow> HttpResponse \<Rightarrow> Server
     \<Rightarrow> exn + HttpResponse \<times> Server" where
  "SendResponse pf rd trace_id started req res sv =
     (let ob = observability (net_of sv);
          ob1 = (if rp_status res \<ge> 400 then IncrementError ob else ob);
          latency = (rd_end rd - started) sdiv ns_per_ms
      in case Log (pf_try_dump pf) \<lparr>lc_trace_id = trace_id, lc_user_id = None, lc_session_id = None,
                lc_name = hr_target req, lc_latency_ms = latency\<rparr> ob1 of
           Inl e \<Rightarrow> Inl e
         | Inr ob2 \<Rightarrow> Inr (res, with_observability ob2 sv))"

definition HandleRequest ::
  "Platform \<Rightarrow> Readings \<Rightarrow> byte list \<Rightarrow> HttpRequest \<Rightarrow> Server \<Rightarrow> exn + HttpResponse \<times> Server" where
  "HandleRequest pf rd rnd req sv =
     (let (trace_id, ob) = NextTraceId (rd_trace rd) (observability (net_of sv));
          sv1 = with_observability (IncrementRequest ob) sv
      in case Dispatch pf rd rnd req sv1 of
           Inl e \<Rightarrow> Inl e
         | Inr (res, sv2) \<Rightarrow> SendResponse pf rd trace_id (rd_start rd) req res sv2)"

section \<open>WebSocket upgrade\<close>

text \<open>\<open>accept_ok\<close>: \<open>ws.accept\<close> does not throw. The new session object gets the next address.\<close>

definition AcceptWebSocket ::
  "Platform \<Rightarrow> Readings \<Rightarrow> byte list \<Rightarrow> AuthSession \<Rightarrow> Server \<Rightarrow> Server" where
  "AcceptWebSocket pf rd rnd session sv =
     (let r = next_address sv;
          ws = make_WebSocketSession session (ws_queue_limit_messages (app_config sv))
                 (ws_queue_limit_bytes (app_config sv));
          sv1 = (put_ws_at r ws sv)\<lparr>next_address := r + 1\<rparr>
      in RunSession (pf_dump pf) rnd (rd_service rd) (rd_stamp rd) r sv1)"

definition HandleWebSocket ::
  "Platform \<Rightarrow> Readings \<Rightarrow> byte list \<Rightarrow> bool \<Rightarrow> HttpRequest \<Rightarrow> Server
     \<Rightarrow> exn + HttpResponse option \<times> Server" where
  "HandleWebSocket pf rd rnd accept_ok req sv =
     (case ExtractAuthSession req (rd_validate rd) sv of
        (None, sv1) \<Rightarrow>
          (case SendResponse pf rd [] 0 req (failure pf rd 401 ''unauthorized'' msg_ws_auth_required) sv1 of
             Inl e \<Rightarrow> Inl e | Inr (res, sv2) \<Rightarrow> Inr (Some res, sv2))
      | (Some session, sv1) \<Rightarrow>
          Inr (None, if accept_ok then AcceptWebSocket pf rd rnd session sv1 else sv1))"

definition OnHttpRead ::
  "Platform \<Rightarrow> Readings \<Rightarrow> byte list \<Rightarrow> bool \<Rightarrow> HttpRequest \<Rightarrow> Server
     \<Rightarrow> exn + HttpResponse option \<times> Server" where
  "OnHttpRead pf rd rnd accept_ok req sv =
     (if hr_upgrade req then HandleWebSocket pf rd rnd accept_ok req sv
      else case HandleRequest pf rd rnd req sv of
             Inl e \<Rightarrow> Inl e | Inr (res, sv1) \<Rightarrow> Inr (Some res, sv1))"

section \<open>Facts\<close>

lemma ExtractAuthSession_frame [simp]:
  "match_queue (snd (ExtractAuthSession req now sv)) = match_queue sv"
  "session_manager (snd (ExtractAuthSession req now sv)) = session_manager sv"
  "backend (snd (ExtractAuthSession req now sv)) = backend sv"
  "users (auth_service (snd (ExtractAuthSession req now sv))) = users (auth_service sv)"
  by (simp_all add: ExtractAuthSession_def ValidateToken_def Let_def split_beta split: option.split)

lemma with_session_network:
  assumes "\<And>s sv. net_of (snd (h s sv)) = net_of sv"
  shows "net_of (snd (with_session pf rd req h sv)) = net_of sv"
  using assms ExtractAuthSession_frame(3) [of req "rd_validate rd" sv]
  by (cases "ExtractAuthSession req (rd_validate rd) sv") (simp add: with_session_def split: option.split)

lemma handler_network:
  "net_of (snd (HandleRegister pf rd rnd req sv)) = net_of sv"
  "net_of (snd (HandleLogin pf rd rnd req sv)) = net_of sv"
  "net_of (snd (HandleLogout pf rd s sv)) = net_of sv"
  "net_of (snd (HandleJoin pf rd req s sv)) = net_of sv"
  "net_of (snd (HandleCancel pf rd s sv)) = net_of sv"
  "net_of (snd (HandleProfile pf rd s sv)) = net_of sv"
  by (simp_all add: HandleRegister_def HandleLogin_def HandleLogout_def HandleJoin_def HandleCancel_def
      HandleProfile_def with_ratings_def Let_def split: option.split prod.split sum.split)

lemma Dispatch_network:
  assumes "Dispatch pf rd rnd req sv = Inr (res, sv')"
  shows "net_of sv' = net_of sv"
proof -
  note handlers = handler_network(1,2) [of pf rd rnd req sv]
    with_session_network [where h = "HandleLogout pf rd" and pf = pf and rd = rd and req = req and sv = sv, OF handler_network(3)]
    with_session_network [where h = "HandleJoin pf rd req" and pf = pf and rd = rd and req = req and sv = sv, OF handler_network(4)]
    with_session_network [where h = "HandleCancel pf rd" and pf = pf and rd = rd and req = req and sv = sv, OF handler_network(5)]
    with_session_network [where h = "HandleProfile pf rd" and pf = pf and rd = rd and req = req and sv = sv, OF handler_network(6)]
  from assms handlers show ?thesis
    unfolding Dispatch_def Let_def by (auto split: if_splits sum.splits)
qed

text \<open>A request that carries no valid token: at most the expired token it carries is dropped.\<close>

lemma ExtractAuthSession_refuses:
  assumes "\<not> (\<exists>token s. hr_authorization req = Some (''Bearer '' @ token) \<and> token \<noteq> [] \<and>
      um_find (auth_sessions (auth_service sv)) token = Some s \<and> now \<le> as_expires_at s)"
  shows "\<exists>logins. ExtractAuthSession req now sv = (None, sv\<lparr>auth_service := (auth_service sv)\<lparr>auth_sessions := logins\<rparr>\<rparr>) \<and>
    (\<forall>t. um_find logins t = (if t \<noteq> [] \<and> hr_authorization req = Some (''Bearer '' @ t) then None
       else um_find (auth_sessions (auth_service sv)) t))"
proof -
  let ?ss = "auth_sessions (auth_service sv)"
  have same: "ExtractAuthSession req now sv = (None, sv) \<Longrightarrow>
      \<forall>t. t \<noteq> [] \<longrightarrow> hr_authorization req = Some (''Bearer '' @ t) \<longrightarrow> um_find ?ss t = None \<Longrightarrow> ?thesis"
    by (intro exI [of _ ?ss]) auto
  show ?thesis
  proof (cases "\<exists>token. hr_authorization req = Some (''Bearer '' @ token) \<and> token \<noteq> []")
    case False
    have "ParseBearer h = []" if "hr_authorization req = Some h" for h
    proof (rule ccontr)
      assume "ParseBearer h \<noteq> []"
      then have "take 7 h = ''Bearer ''" "7 < length h" by (auto simp: ParseBearer_def eval_nat_numeral split: if_splits)
      then have "h = ''Bearer '' @ drop 7 h" "drop 7 h \<noteq> []" by (metis append_take_drop_id, simp)
      with False that show False by metis
    qed
    with False show ?thesis by (intro same) (auto simp: ExtractAuthSession_def Let_def split: option.split)
  next
    case True
    then obtain token where token: "hr_authorization req = Some (''Bearer '' @ token)" "token \<noteq> []" by blast
    then have x: "ExtractAuthSession req now sv = (let (s, au) = ValidateToken now token (auth_service sv) in (s, sv\<lparr>auth_service := au\<rparr>))"
      by (simp add: ExtractAuthSession_def ParseBearer_def)
    show ?thesis
    proof (cases "um_find ?ss token")
      case None
      then show ?thesis using token x by (intro same) (auto simp: ValidateToken_def find_session_def)
    next
      case (Some s)
      with assms token have "as_expires_at s < now" by (simp add: not_le)
      then show ?thesis using token x Some
        by (intro exI [of _ "um_erase token ?ss"]) (auto simp: ValidateToken_def find_session_def erase_session_def)
    qed
  qed
qed

lemma log_json_name: "json_find (log_json ctx) ''eventName'' = Some (JString (lc_name ctx))"
  by (simp add: log_json_def Let_def split: option.split)

section \<open>Properties\<close>

text \<open>Sample arguments for the witnesses: a printer of the members with the names below, which refuses strings that
  are not ASCII as the real one refuses those that are not UTF-8, and so on.\<close>

definition member_names :: "string list" where
  "member_names = [''t'', ''seq'', ''event'', ''p'', ''userId'', ''username'', ''resumeToken'', ''snapshotVersion'',
     ''traceId'', ''eventName'', ''latencyMs'', ''sessionId'']"

primrec sample_printable :: "json \<Rightarrow> bool" where
  "sample_printable JNull = True"
| "sample_printable (JBool b) = True"
| "sample_printable (JInteger n) = True"
| "sample_printable (JUnsigned n) = True"
| "sample_printable (JFloat x) = True"
| "sample_printable (JString s) = ascii s"
| "sample_printable (JArray js) = list_all id (map sample_printable js)"
| "sample_printable (JObject m) =
     list_all (\<lambda>k. case (map_option sample_printable \<circ> m) k of None \<Rightarrow> True | Some b \<Rightarrow> b) member_names"

primrec sample_print :: "json \<Rightarrow> string" where
  "sample_print JNull = ''null''"
| "sample_print (JBool b) = (if b then ''true'' else ''false'')"
| "sample_print (JInteger n) = (if n < 0 then ''-'' else []) @ show_nat (nat \<bar>n\<bar>)"
| "sample_print (JUnsigned n) = show_nat n"
| "sample_print (JFloat x) = ''0.0''"
| "sample_print (JString s) = [CHR 0x22] @ s @ [CHR 0x22]"
| "sample_print (JArray js) = ''['' @ concat (map (\<lambda>t. t @ '','') (map sample_print js)) @ '']''"
| "sample_print (JObject m) = ''{'' @ concat (map (\<lambda>k. case (map_option sample_print \<circ> m) k of None \<Rightarrow> []
     | Some t \<Rightarrow> [CHR 0x22] @ k @ [CHR 0x22] @ '':'' @ t @ '','') member_names) @ ''}''"

definition sample_try_print :: "json \<Rightarrow> string option" where
  "sample_try_print j = (if sample_printable j then Some (sample_print j) else None)"

lemma sample_try_print_name:
  "json_find j ''eventName'' = Some (JString s) \<Longrightarrow> \<not> ascii s \<Longrightarrow> sample_try_print j = None"
  by (cases j) (simp_all add: sample_try_print_def member_names_def)

definition sample_platform :: "(json \<Rightarrow> string option) \<Rightarrow> Platform" where
  "sample_platform printer = \<lparr>pf_parse = (\<lambda>s. None), pf_dump = (\<lambda>j. ''body''), pf_try_dump = printer,
     pf_pbkdf = sample_pbkdf\<rparr>"

definition sample_readings :: Readings where
  "sample_readings = \<lparr>rd_start = 1, rd_trace = 1, rd_validate = 1, rd_service = 1, rd_expires = 1,
     rd_stamp = 1, rd_end = 1\<rparr>"

definition sample_request :: "http_method \<Rightarrow> string \<Rightarrow> HttpRequest" where
  "sample_request m target = \<lparr>hr_method = m, hr_target = target, hr_body = [], hr_authorization = None,
     hr_ops_token = None, hr_upgrade = False, hr_remote_ip = None\<rparr>"

definition sample_config :: AppConfig where
  "sample_config = \<lparr>port = 8080, db_host = [], db_port = 3306, db_user = [], db_password = [], db_name = [],
     redis_host = [], redis_port = 6379, log_level = ''info'', auth_token_ttl_seconds = 3600,
     login_rate_window_seconds = 60, login_rate_limit_max = 5, ws_queue_limit_messages = 8,
     ws_queue_limit_bytes = 65536, match_queue_timeout_seconds = 10, session_tick_interval_ms = 100,
     ops_token = []\<rparr>"

text \<open>C38: A request of a logged-in user's endpoint that carries no valid login token (no header, not of the form
  \<open>Bearer\<close> token, an unknown token, or one past its expiry time) is answered 401, and the server stays as it is
  in every part: accounts, rate limits, queue, sessions, connections, results, ratings, resume tokens and the other
  logins; only the token that the request carries, which has expired then, is dropped.\<close>

theorem protected_endpoints_need_token:
  assumes "\<not> (\<exists>token s. hr_authorization req = Some (''Bearer '' @ token) \<and> token \<noteq> [] \<and>
      um_find (auth_sessions (auth_service sv)) token = Some s \<and> rd_validate rd \<le> as_expires_at s)"
    and "hr_method req = PostMethod \<and> target_path (hr_target req) \<in>
           {''/api/auth/logout'', ''/api/queue/join'', ''/api/queue/cancel''} \<or>
         hr_method req = GetMethod \<and> target_path (hr_target req) = ''/api/profile''"
  shows "\<exists>logins. Dispatch pf rd rnd req sv = Inr (failure pf rd 401 ''unauthorized'' msg_auth_required,
      sv\<lparr>auth_service := (auth_service sv)\<lparr>auth_sessions := logins\<rparr>\<rparr>) \<and>
    (\<forall>t. um_find logins t = (if t \<noteq> [] \<and> hr_authorization req = Some (''Bearer '' @ t) then None
       else um_find (auth_sessions (auth_service sv)) t))"
proof -
  obtain logins sv1 where x: "ExtractAuthSession req (rd_validate rd) sv = (None, sv1)"
    "sv1 = sv\<lparr>auth_service := (auth_service sv)\<lparr>auth_sessions := logins\<rparr>\<rparr>"
    "\<forall>t. um_find logins t = (if t \<noteq> [] \<and> hr_authorization req = Some (''Bearer '' @ t) then None
       else um_find (auth_sessions (auth_service sv)) t)"
    using ExtractAuthSession_refuses [OF assms(1)] by blast
  have gate: "with_session pf rd req h sv = (failure pf rd 401 ''unauthorized'' msg_auth_required, sv1)" for h
    by (simp add: with_session_def x(1))
  have "Dispatch pf rd rnd req sv = Inr (failure pf rd 401 ''unauthorized'' msg_auth_required, sv1)"
    using assms(2) by (auto simp: Dispatch_def gate Let_def)
  with x(2,3) show ?thesis by blast
qed

text \<open>A server with two logins, one of which has expired; the request carries the token of that one.\<close>

theorem protected_endpoints_need_token_witness:
  "let old = sample_session\<lparr>as_expires_at := 0\<rparr>;
       sv = (make_ServerApp sample_config)\<lparr>auth_service := (auth_service (make_ServerApp sample_config))
         \<lparr>auth_sessions := [(''old'', old), (''t'', sample_session)]\<rparr>\<rparr>;
       req = (sample_request PostMethod ''/api/queue/join'')\<lparr>hr_authorization := Some ''Bearer old''\<rparr>;
       pf = sample_platform sample_try_print
   in \<exists>logins. Dispatch pf sample_readings [] req sv = Inr (failure pf sample_readings 401 ''unauthorized'' msg_auth_required,
        sv\<lparr>auth_service := (auth_service sv)\<lparr>auth_sessions := logins\<rparr>\<rparr>) \<and>
      um_find logins ''old'' = None \<and> um_find logins ''t'' = Some sample_session"
proof -
  let ?old = "sample_session\<lparr>as_expires_at := 0\<rparr>" and ?pf = "sample_platform sample_try_print"
  let ?sv = "(make_ServerApp sample_config)\<lparr>auth_service := (auth_service (make_ServerApp sample_config))
    \<lparr>auth_sessions := [(''old'', ?old), (''t'', sample_session)]\<rparr>\<rparr>"
  let ?req = "(sample_request PostMethod ''/api/queue/join'')\<lparr>hr_authorization := Some ''Bearer old''\<rparr>"
  have absent: "\<not> (\<exists>token s. hr_authorization ?req = Some (''Bearer '' @ token) \<and> token \<noteq> [] \<and>
      um_find (auth_sessions (auth_service ?sv)) token = Some s \<and> rd_validate sample_readings \<le> as_expires_at s)"
    by (auto simp: um_find_def sample_readings_def)
  have path: "hr_method ?req = PostMethod \<and> target_path (hr_target ?req) \<in>
        {''/api/auth/logout'', ''/api/queue/join'', ''/api/queue/cancel''} \<or>
      hr_method ?req = GetMethod \<and> target_path (hr_target ?req) = ''/api/profile''"
    by (simp add: sample_request_def target_path_def)
  obtain logins where l: "Dispatch ?pf sample_readings [] ?req ?sv =
      Inr (failure ?pf sample_readings 401 ''unauthorized'' msg_auth_required,
        ?sv\<lparr>auth_service := (auth_service ?sv)\<lparr>auth_sessions := logins\<rparr>\<rparr>)"
    "\<forall>t. um_find logins t = (if t \<noteq> [] \<and> hr_authorization ?req = Some (''Bearer '' @ t) then None
       else um_find (auth_sessions (auth_service ?sv)) t)"
    using protected_endpoints_need_token [OF absent path, of ?pf "[]"] by (elim exE conjE) (rule that)
  have "um_find logins ''old'' = None" "um_find logins ''t'' = Some sample_session"
    using l(2) by (simp_all add: um_find_def)
  with l(1) show ?thesis unfolding Let_def by blast
qed

text \<open>C40: A request whose target the log printer rejects (it is not UTF-8) makes an exception leave the
  handler, whatever the path and the method, and so does a WebSocket upgrade with such a target that is refused
  because it carries no valid login token: the log line is written for every response, outside any handler for its
  exception. (An upgrade that is accepted writes no such line.)\<close>

theorem unprintable_target_throws:
  assumes "\<forall>j. json_find j ''eventName'' = Some (JString (hr_target req)) \<longrightarrow> pf_try_dump pf j = None"
    and "\<not> hr_upgrade req \<or> fst (ExtractAuthSession req (rd_validate rd) sv) = None"
  shows "\<exists>e. OnHttpRead pf rd rnd accept_ok req sv = Inl e"
proof -
  have send: "SendResponse pf rd t start req res sv' = Inl (RuntimeError ''type_error.316'')" for t start res sv'
    using assms(1) log_json_name [of "\<lparr>lc_trace_id = t, lc_user_id = None, lc_session_id = None,
        lc_name = hr_target req, lc_latency_ms = (rd_end rd - start) sdiv ns_per_ms\<rparr>"]
    by (simp add: SendResponse_def Log_def Let_def)
  show ?thesis
  proof (cases "hr_upgrade req")
    case False
    then show ?thesis by (simp add: send OnHttpRead_def HandleRequest_def split_beta Let_def split: sum.split)
  next
    case True
    obtain sv1 where "ExtractAuthSession req (rd_validate rd) sv = (None, sv1)"
      using assms(2) True by (cases "ExtractAuthSession req (rd_validate rd) sv") simp
    with True show ?thesis by (simp add: send OnHttpRead_def HandleWebSocket_def)
  qed
qed

text \<open>The byte 255, which no UTF-8 text contains, as the target.\<close>

theorem unprintable_target_throws_witness:
  "\<exists>e. OnHttpRead (sample_platform sample_try_print) sample_readings [] True (sample_request GetMethod [CHR 0xFF])
     (make_ServerApp sample_config) = Inl e"
proof (rule unprintable_target_throws)
  have "\<not> ascii [CHR 0xFF]" by (simp add: ascii_def)
  then show "\<forall>j. json_find j ''eventName'' = Some (JString (hr_target (sample_request GetMethod [CHR 0xFF]))) \<longrightarrow>
      pf_try_dump (sample_platform sample_try_print) j = None"
    using sample_try_print_name by (simp add: sample_platform_def sample_request_def)
qed (simp add: sample_request_def)

end
