(* ===== verification/ServerInvariant.thy ===== *)
theory ServerInvariant
  imports HttpSession
begin

text \<open>
  The invariant of the whole server under every handler: HTTP requests, WebSocket events, the timers
  of the queue and of the sessions.
\<close>

section \<open>Changing one part\<close>

lemma with_proj [simp]:
  "auth_service (with_network n sv) = auth_service sv"
  "match_queue (with_network n sv) = match_queue sv"
  "session_manager (with_network n sv) = session_manager sv"
  "reconnect_service (with_network n sv) = reconnect_service sv"
  "app_config (with_network n sv) = app_config sv"
  "next_address (with_network n sv) = next_address sv"
  "net_of (with_network n sv) = n"
  "result_service (backend (with_network n sv)) = result_service (backend sv)"
  "auth_service (with_ratings rs sv) = auth_service sv"
  "match_queue (with_ratings rs sv) = match_queue sv"
  "session_manager (with_ratings rs sv) = session_manager sv"
  "app_config (with_ratings rs sv) = app_config sv"
  "next_address (with_ratings rs sv) = next_address sv"
  "net_of (with_ratings rs sv) = net_of sv"
  "repository (result_service (backend (with_ratings rs sv))) = repository (result_service (backend sv))"
  "ratings_of (with_ratings rs sv) = rs"
  by (simp_all add: with_network_def with_ratings_def)

text \<open>The invariant, part by part.\<close>

lemma server_inv_iff:
  "server_inv sv \<longleftrightarrow>
     auth_inv (auth_service sv) \<and> sm_inv (session_manager sv) \<and> net_inv (net_of sv) \<and>
     ledger_inv (result_service (backend sv)) \<and>
     results_match (\<lambda>sid. FindResult sid (repository (result_service (backend sv)))) (session_manager sv) \<and>
     mq_inv (match_queue sv) \<and>
     (\<forall>u \<in> set (queue_users (match_queue sv)). \<not> IsUserInSession u (session_manager sv)) \<and>
     (\<forall>r. um_find (ws_heap (net_of sv)) r \<noteq> None \<longrightarrow> r < next_address sv)"
  by (auto simp: server_inv_def game_good_def game_of_def backend_inv_def backend_found_def apart_def
      game_in_session_def fun_eq_iff cong: results_match_def)

lemma server_inv_net: "server_inv sv \<Longrightarrow> net_inv (net_of sv)"
  by (simp add: server_inv_iff)

lemma server_inv_fresh: "server_inv sv \<Longrightarrow> \<forall>r. um_find (ws_heap (net_of sv)) r \<noteq> None \<longrightarrow> r < next_address sv"
  by (simp add: server_inv_iff)

lemma put_ws_at_proj [simp]:
  "net_of (put_ws_at r ws sv) = put_ws r ws (net_of sv)"
  "next_address (put_ws_at r ws sv) = next_address sv"
  "auth_service (put_ws_at r ws sv) = auth_service sv"
  "match_queue (put_ws_at r ws sv) = match_queue sv"
  "session_manager (put_ws_at r ws sv) = session_manager sv"
  "result_service (backend (put_ws_at r ws sv)) = result_service (backend sv)"
  by (simp_all add: put_ws_at_def)

lemma server_inv_auth:
  "server_inv sv \<Longrightarrow> auth_inv au \<Longrightarrow> server_inv (sv\<lparr>auth_service := au\<rparr>)"
  by (simp add: server_inv_iff)

lemma server_inv_network:
  "server_inv sv \<Longrightarrow> net_inv net \<Longrightarrow> (\<forall>r. um_find (ws_heap net) r \<noteq> None \<longrightarrow> r < next_address sv) \<Longrightarrow>
     server_inv (with_network net sv)"
  by (simp add: server_inv_iff)

lemma server_inv_ratings:
  "server_inv sv \<Longrightarrow> server_inv (with_ratings (EnsureUser u name (ratings_of sv)) sv)"
  using ledger_EnsureUser [of "result_service (backend sv)" u name]
  by (simp add: server_inv_iff) (simp add: with_ratings_def)

lemma server_inv_reconnect: "server_inv (sv\<lparr>reconnect_service := rc\<rparr>) = server_inv sv"
  by (simp add: server_inv_iff)

lemma net_inv_observability:
  "net_inv net \<Longrightarrow> websocket_active ob = websocket_active (observability net) \<Longrightarrow>
     net_inv (net\<lparr>observability := ob\<rparr>)"
proof -
  assume "net_inv net" "websocket_active ob = websocket_active (observability net)"
  moreover have "entry_ok (net\<lparr>observability := ob\<rparr>) = entry_ok net"
    by (simp add: entry_ok_def fun_eq_iff)
  ultimately show ?thesis by (simp add: net_inv_def ActiveConnections_def)
qed

lemma server_inv_observability:
  "server_inv sv \<Longrightarrow> websocket_active ob = websocket_active (observability (net_of sv)) \<Longrightarrow>
     server_inv (with_observability ob sv)"
  unfolding with_observability_def
  by (rule server_inv_network) (simp_all add: server_inv_iff net_inv_observability)

lemma server_inv_put_ws:
  assumes "server_inv sv" "ws_at r sv = Some old" "ws_session new = ws_session old" "ws_inv new"
  shows "server_inv (put_ws_at r new sv)"
  unfolding put_ws_at_def
proof (rule server_inv_network)
  show "server_inv sv" by fact
  show "net_inv (put_ws r new (net_of sv))"
    using assms by (intro put_ws_inv) (simp_all add: server_inv_iff ws_at_def)
  show "\<forall>q. um_find (ws_heap (put_ws r new (net_of sv))) q \<noteq> None \<longrightarrow> q < next_address sv"
    using assms(1,2) by (auto simp: server_inv_iff put_ws_def ws_at_def)
qed

text \<open>An input submitted by a WebSocket handler, and the second half of one.\<close>

lemma input_users [simp]:
  "user_to_session (snd (SubmitInput input sm)) = user_to_session sm"
  "user_to_session (snd (RunInput n input sm)) = user_to_session sm"
  by (simp_all add: SubmitInput_def RunInput_def SubmitOnStrand_def Let_def split_beta split: sum.split option.split)

lemma server_inv_sessions:
  assumes "server_inv sv" "fst (session_step (backend_send undefined) backend_finalize op (game_of sv)) = sm"
    and "snd (session_step (backend_send undefined) backend_finalize op (game_of sv)) = backend sv"
    and "user_to_session sm = user_to_session (session_manager sv)"
  shows "server_inv (sv\<lparr>session_manager := sm\<rparr>)"
proof -
  have "game_good (session_step (backend_send undefined) backend_finalize op (game_of sv))"
    using assms(1) by (intro game_session_step) (simp add: server_inv_def)
  with assms(2,3) have "game_good (sm, backend sv)" by (metis prod.collapse)
  then show ?thesis
    using assms(1,4) by (simp add: server_inv_def game_of_def apart_def game_in_session_def IsUserInSession_def)
qed

lemma server_inv_submit:
  "server_inv sv \<Longrightarrow> server_inv (sv\<lparr>session_manager := snd (SubmitInput input (session_manager sv))\<rparr>)"
  by (erule server_inv_sessions [where op = "SubmitOp input"]) (simp_all add: game_of_def)

lemma server_inv_task:
  "server_inv sv \<Longrightarrow> server_inv (sv\<lparr>session_manager := snd (RunInput n input (session_manager sv))\<rparr>)"
  by (erule server_inv_sessions [where op = "TaskOp n input"]) (simp_all add: game_of_def)

section \<open>WebSocket handlers\<close>

lemma ws_at_inv: "server_inv sv \<Longrightarrow> ws_at r sv = Some ws \<Longrightarrow> ws_inv ws"
  by (auto simp: server_inv_iff ws_at_def dest: net_inv_ws)

lemma ws_at_update [simp]:
  "ws_at r (sv\<lparr>reconnect_service := rc\<rparr>) = ws_at r sv"
  "ws_at r (sv\<lparr>session_manager := sm\<rparr>) = ws_at r sv"
  "ws_at r (put_ws_at q ws sv) = (if r = q then Some ws else ws_at r sv)"
  by (simp_all add: ws_at_def put_ws_at_def put_ws_def)

lemma OnRead_inv [inv_intros]:
  assumes "server_inv sv"
  shows "server_inv (OnRead parse dump failed data rnd n1 n2 r sv)"
proof (cases "ws_at r sv")
  case None
  with assms show ?thesis by (simp add: OnRead_def)
next
  case (Some ws)
  let ?ws0 = "ws\<lparr>pending_read := False\<rparr>"
  have inv0: "ws_inv ?ws0" using ws_at_inv [OF assms Some] by simp
  show ?thesis
  proof (cases "failed \<or> closing ws")
    case True
    with Some assms inv0 show ?thesis by (simp add: OnRead_def server_inv_put_ws)
  next
    case running: False
    show ?thesis
    proof (cases "parse data")
      case None
      have "server_inv (put_ws_at r (DoRead (SendError dump ''bad_request'' msg_json_parse 0 ?ws0)) sv)"
        using assms Some inv0 by (intro server_inv_put_ws) (simp_all add: DoRead_inv Send_inv)
      with Some running None show ?thesis by (simp add: OnRead_def)
    next
      case (Some message)
      let ?h = "HandleMessage dump rnd n1 n2 message ?ws0 (reconnect_service sv) (session_manager sv)"
      let ?sv = "sv\<lparr>reconnect_service := fst (snd ?h), session_manager := snd (snd ?h)\<rparr>"
      have rc: "server_inv (sv\<lparr>reconnect_service := fst (snd ?h)\<rparr>)" using assms by (simp add: server_inv_reconnect)
      from HandleMessage_sm [of dump rnd n1 n2 message ?ws0 "reconnect_service sv" "session_manager sv"]
      have "server_inv ?sv"
      proof (elim disjE exE)
        assume "snd (snd ?h) = session_manager sv"
        then show ?thesis using rc by simp
      next
        fix input assume "snd (snd ?h) = snd (SubmitInput input (session_manager sv))"
        then show ?thesis using server_inv_submit [OF rc, of input] by simp
      qed
      then have "server_inv (put_ws_at r (DoRead (fst ?h)) ?sv)"
        using \<open>ws_at r sv = Some ws\<close> inv0
        by (intro server_inv_put_ws) (simp_all add: DoRead_inv HandleMessage_inv)
      with \<open>ws_at r sv = Some ws\<close> running Some show ?thesis
        by (simp add: OnRead_def split_beta Let_def)
    qed
  qed
qed

lemma WriteCompleted_inv [inv_intros]:
  "server_inv sv \<Longrightarrow> server_inv (WriteCompleted failed r sv)"
  by (auto simp: WriteCompleted_def OnWrite_inv dest: ws_at_inv split: option.split intro!: server_inv_put_ws)

lemma DestroySession_heap:
  "um_find (ws_heap (DestroySession r net)) q \<noteq> None \<Longrightarrow> um_find (ws_heap net) q \<noteq> None"
  by (auto simp: DestroySession_def Let_def split: option.splits if_splits)

lemma SessionDestroyed_inv [inv_intros]:
  assumes "server_inv sv"
  shows "server_inv (SessionDestroyed r sv)"
  unfolding SessionDestroyed_def
proof (rule server_inv_network)
  show "net_inv (DestroySession r (net_of sv))"
    using assms by (intro DestroySession_inv) (simp add: server_inv_iff)
  show "\<forall>q. um_find (ws_heap (DestroySession r (net_of sv))) q \<noteq> None \<longrightarrow> q < next_address sv"
    using assms DestroySession_heap by (auto simp: server_inv_iff)
qed fact

lemma new_ws_net:
  assumes "net_inv net" "um_find (ws_heap net) r = None" "ws_inv ws"
  shows "net_inv (put_ws r ws net)"
proof -
  have "entry_ok (put_ws r ws net) u e" if "entry_ok net u e" for u e
    using that assms(2) by (auto simp: entry_ok_def put_ws_def split: option.splits)
  then show ?thesis using assms by (auto simp: net_inv_def put_ws_def ActiveConnections_def)
qed

lemma RunSession_inv [inv_intros]:
  assumes "server_inv sv"
  shows "server_inv (RunSession dump rnd n1 n2 r sv)"
proof (cases "ws_at r sv")
  case None
  with assms show ?thesis by (simp add: RunSession_def)
next
  case (Some ws)
  let ?u = "au_user_id (as_user (ws_session ws))"
  let ?ws1 = "ws\<lparr>ws_snapshot := BuildSnapshot n1 ws\<rparr>"
  let ?t = "IssueToken rnd n2 (as_user (ws_session ws)) (snapshot_version ?ws1) (ws_snapshot ?ws1) None
    (reconnect_service sv)"
  let ?ws2 = "?ws1\<lparr>resume_token := fst ?t\<rparr>"
  let ?sv1 = "put_ws_at r ?ws2 (sv\<lparr>reconnect_service := snd ?t\<rparr>)"
  let ?sv2 = "with_network (Register ?u r (net_of ?sv1)) ?sv1"
  have inv2: "ws_inv ?ws2" using ws_at_inv [OF assms Some] by simp
  have sv1: "server_inv ?sv1"
    by (rule server_inv_put_ws) (use assms Some inv2 in \<open>simp_all add: server_inv_reconnect\<close>)
  have at1: "um_find (ws_heap (net_of ?sv1)) r = Some ?ws2" by (simp add: put_ws_at_def put_ws_def)
  have sv2: "server_inv ?sv2"
  proof (rule server_inv_network [OF sv1])
    show "net_inv (Register ?u r (net_of ?sv1))"
      using at1 by (intro Register_inv [OF server_inv_net [OF sv1], where ws = ?ws2]) simp_all
    show "\<forall>q. um_find (ws_heap (Register ?u r (net_of ?sv1))) q \<noteq> None \<longrightarrow> q < next_address ?sv1"
      using server_inv_fresh [OF sv1] by (simp only: Register_def with_connections_proj)
  qed
  have at2: "ws_at r ?sv2 = Some ?ws2" using at1 by (simp add: ws_at_def Register_def)
  have "ws_inv (DoRead (SendAuthState dump ?ws2))" using inv2 by (intro DoRead_inv Send_inv)
  then have "server_inv (put_ws_at r (DoRead (SendAuthState dump ?ws2)) ?sv2)"
    by (rule server_inv_put_ws [OF sv2 at2, rotated]) simp
  with Some show ?thesis by (simp add: RunSession_def Let_def split_beta)
qed

end
