(* ===== verification/ServerSteps.thy ===== *)
theory ServerSteps
  imports ServerInvariant
begin

text \<open>
  The server as a step relation: one step is one handler that the executor runs. Every reachable state
  satisfies \<open>server_inv\<close>, and the only exception that leaves a handler is the one of the log printer.
\<close>

section \<open>HTTP handlers keep the invariant\<close>

lemma ExtractAuthSession_inv [inv_intros]:
  "server_inv sv \<Longrightarrow> server_inv (snd (ExtractAuthSession req now sv))"
proof -
  assume inv: "server_inv sv"
  then have "server_inv (sv\<lparr>auth_service := snd (ValidateToken now t (auth_service sv))\<rparr>)" for t
    by (intro server_inv_auth ValidateToken_inv) (simp_all add: server_inv_iff)
  with inv show ?thesis
    by (simp add: ExtractAuthSession_def Let_def split_beta split: option.split)
qed

lemma HandleRegister_inv [inv_intros]:
  assumes inv: "server_inv sv"
  shows "server_inv (snd (HandleRegister pf rd rnd req sv))"
proof (cases "credentials_of pf req")
  case None
  with inv show ?thesis by (simp add: HandleRegister_def)
next
  case (Some up)
  obtain u p where up: "up = (u, p)" by (cases up)
  let ?r = "RegisterUser (pf_pbkdf pf) rnd u p (auth_service sv)"
  have au: "server_inv (sv\<lparr>auth_service := snd ?r\<rparr>)"
    using inv by (intro server_inv_auth RegisterUser_inv) (simp_all add: server_inv_iff)
  show ?thesis
  proof (cases "fst ?r")
    case (Inl e)
    with au Some up show ?thesis by (cases ?r; cases e) (simp add: HandleRegister_def)
  next
    case (Inr user)
    have "server_inv (with_ratings (EnsureUser (au_user_id user) (au_username user) (ratings_of sv))
        (sv\<lparr>auth_service := snd ?r\<rparr>))"
      using server_inv_ratings [OF au, of "au_user_id user" "au_username user"] by simp
    with Inr Some up show ?thesis by (cases ?r) (simp add: HandleRegister_def)
  qed
qed

lemma HandleLogin_inv [inv_intros]:
  assumes inv: "server_inv sv"
  shows "server_inv (snd (HandleLogin pf rd rnd req sv))"
proof (cases "credentials_of pf req")
  case None
  with inv show ?thesis by (simp add: HandleLogin_def)
next
  case (Some up)
  obtain u p where up: "up = (u, p)" by (cases up)
  let ?r = "Login (pf_pbkdf pf) rnd (rd_service rd) u p (RemoteIp req) (auth_service sv)"
  have au: "server_inv (sv\<lparr>auth_service := snd ?r\<rparr>)"
    using inv by (intro server_inv_auth Login_inv) (simp_all add: server_inv_iff)
  show ?thesis
  proof (cases "fst ?r")
    case (Inl e)
    with au Some up show ?thesis by (cases ?r; cases e) (simp add: HandleLogin_def)
  next
    case (Inr s)
    have "server_inv (with_ratings (EnsureUser (au_user_id (as_user s)) (au_username (as_user s)) (ratings_of sv))
        (sv\<lparr>auth_service := snd ?r\<rparr>))"
      using server_inv_ratings [OF au, of "au_user_id (as_user s)" "au_username (as_user s)"] by simp
    with Inr Some up show ?thesis by (cases ?r) (simp add: HandleLogin_def Let_def)
  qed
qed

lemma with_session_inv:
  assumes "server_inv sv" "\<And>s sv. server_inv sv \<Longrightarrow> server_inv (snd (h s sv))"
  shows "server_inv (snd (with_session pf rd req h sv))"
  using ExtractAuthSession_inv [OF assms(1), of req "rd_validate rd"] assms(2)
  by (cases "ExtractAuthSession req (rd_validate rd) sv") (simp add: with_session_def split: option.split)

lemma HandleLogout_inv [inv_intros]:
  "server_inv sv \<Longrightarrow> server_inv (snd (HandleLogout pf rd s sv))"
  unfolding HandleLogout_def snd_conv
  by (intro server_inv_auth Logout_inv) (simp_all add: server_inv_iff)

lemma server_inv_queue:
  "server_inv sv \<Longrightarrow> mq_inv q \<Longrightarrow> apart game_in_session q (game_of sv) \<Longrightarrow> server_inv (sv\<lparr>match_queue := q\<rparr>)"
  by (simp add: server_inv_def game_of_def)

lemma HandleJoin_inv [inv_intros]:
  assumes "server_inv sv"
  shows "server_inv (snd (HandleJoin pf rd req s sv))"
proof -
  have "server_inv (sv\<lparr>match_queue := snd (Join (game_in_session (game_of sv)) now user timeout (match_queue sv))\<rparr>)"
    for now user timeout
    using assms by (intro server_inv_queue Join_inv game.join_apart) (simp_all add: server_inv_def)
  with assms show ?thesis
    by (simp add: HandleJoin_def split_beta Let_def split: option.split prod.split)
qed

lemma HandleCancel_inv [inv_intros]:
  assumes "server_inv sv"
  shows "server_inv (snd (HandleCancel pf rd s sv))"
proof -
  have "server_inv (sv\<lparr>match_queue := snd (Cancel u (match_queue sv))\<rparr>)" for u
    using assms by (intro server_inv_queue Cancel_inv game.cancel_apart) (simp_all add: server_inv_def)
  then show ?thesis
    by (simp add: HandleCancel_def split: option.split prod.split) (metis snd_conv)
qed

lemma Dispatch_inv:
  "server_inv sv \<Longrightarrow> Dispatch pf rd rnd req sv = Inr (res, sv') \<Longrightarrow> server_inv sv'"
proof -
  assume inv: "server_inv sv" and run: "Dispatch pf rd rnd req sv = Inr (res, sv')"
  have profile: "server_inv (snd (HandleProfile pf rd s sv))" if "server_inv sv" for s sv
    using that by (simp add: HandleProfile_def Let_def)
  have sessions: "server_inv (snd (with_session pf rd req (HandleLogout pf rd) sv))"
    "server_inv (snd (with_session pf rd req (HandleJoin pf rd req) sv))"
    "server_inv (snd (with_session pf rd req (HandleCancel pf rd) sv))"
    "server_inv (snd (with_session pf rd req (HandleProfile pf rd) sv))"
    by (rule with_session_inv [OF inv], intro inv_intros profile, assumption)+
  note handlers = HandleRegister_inv [OF inv, of pf rd rnd req] HandleLogin_inv [OF inv, of pf rd rnd req] sessions
  from run inv handlers show ?thesis
    unfolding Dispatch_def Let_def
    by (auto split: if_splits sum.splits)
qed

lemma websocket_active_counters [simp]:
  "websocket_active (IncrementError ob) = websocket_active ob"
  "websocket_active (IncrementRequest ob) = websocket_active ob"
  "websocket_active (snd (NextTraceId now ob)) = websocket_active ob"
  by (simp_all add: IncrementError_def IncrementRequest_def NextTraceId_def)

lemma SendResponse_inv:
  "server_inv sv \<Longrightarrow> SendResponse pf rd t start req res sv = Inr (res', sv') \<Longrightarrow> server_inv sv'"
  by (auto simp: SendResponse_def Let_def Log_def split: option.splits sum.splits if_splits
      intro!: server_inv_observability)

lemma HandleRequest_inv:
  assumes "server_inv sv" "HandleRequest pf rd rnd req sv = Inr (res, sv')"
  shows "server_inv sv'"
proof -
  let ?ob = "snd (NextTraceId (rd_trace rd) (observability (net_of sv)))"
  have "server_inv (with_observability (IncrementRequest ?ob) sv)"
    using assms(1) by (intro server_inv_observability) simp_all
  with assms(2) show ?thesis
    by (auto simp: HandleRequest_def split_beta Let_def split: sum.splits
        intro: SendResponse_inv dest: Dispatch_inv)
qed

lemma AcceptWebSocket_inv [inv_intros]:
  assumes inv: "server_inv sv"
  shows "server_inv (AcceptWebSocket pf rd rnd session sv)"
proof -
  let ?ws = "make_WebSocketSession session (ws_queue_limit_messages (app_config sv))
    (ws_queue_limit_bytes (app_config sv))"
  have "um_find (ws_heap (net_of sv)) (next_address sv) = None"
    using server_inv_fresh [OF inv] by blast
  then have net: "net_inv (put_ws (next_address sv) ?ws (net_of sv))"
    using inv by (intro new_ws_net server_inv_net ws_inv_init)
  have "server_inv ((put_ws_at (next_address sv) ?ws sv)\<lparr>next_address := next_address sv + 1\<rparr>)"
    using inv net server_inv_fresh [OF inv]
    by (simp add: server_inv_iff) (auto simp: put_ws_def less_SucI)
  then show ?thesis by (simp add: AcceptWebSocket_def Let_def RunSession_inv)
qed

lemma HandleWebSocket_inv:
  assumes "server_inv sv" "HandleWebSocket pf rd rnd ok req sv = Inr (res, sv')"
  shows "server_inv sv'"
proof -
  let ?x = "ExtractAuthSession req (rd_validate rd) sv"
  have x: "server_inv (snd ?x)" using assms(1) by (rule ExtractAuthSession_inv)
  from assms(2) show ?thesis
  proof (cases "fst ?x")
    case None
    then have "?x = (None, snd ?x)" by (cases ?x) simp
    with assms(2) obtain r where
      "SendResponse pf rd [] 0 req (failure pf rd 401 ''unauthorized'' msg_ws_auth_required) (snd ?x) = Inr (r, sv')"
      by (auto simp: HandleWebSocket_def split: sum.splits prod.splits option.splits)
    with x show ?thesis by (rule SendResponse_inv)
  next
    case (Some s)
    then have "?x = (Some s, snd ?x)" by (cases ?x) simp
    with assms(2) have "sv' = (if ok then AcceptWebSocket pf rd rnd s (snd ?x) else snd ?x)"
      by (auto simp: HandleWebSocket_def split: prod.splits option.splits)
    with x show ?thesis by (simp add: AcceptWebSocket_inv)
  qed
qed

lemma OnHttpRead_inv:
  "server_inv sv \<Longrightarrow> OnHttpRead pf rd rnd ok req sv = Inr (res, sv') \<Longrightarrow> server_inv sv'"
  by (auto simp: OnHttpRead_def split: if_splits sum.splits intro: HandleWebSocket_inv HandleRequest_inv)

section \<open>Timers and strands\<close>

definition StrandStart :: "(json \<Rightarrow> string) \<Rightarrow> time_ns \<Rightarrow> nat \<Rightarrow> Server \<Rightarrow> Server" where
  "StrandStart dump now n sv = with_game (RunStart (backend_send dump) now n (game_of sv)) sv"

definition TickTimer :: "(json \<Rightarrow> string) \<Rightarrow> time_ns \<Rightarrow> time_ns \<Rightarrow> nat \<Rightarrow> Server \<Rightarrow> exn + Server" where
  "TickTimer dump now ended_at n sv =
     (case RunTimer (backend_send dump) backend_finalize now ended_at n (game_of sv) of
        Inl e \<Rightarrow> Inl e | Inr g \<Rightarrow> Inr (with_game g sv))"

definition QueueTimer :: "(json \<Rightarrow> string) \<Rightarrow> bool \<Rightarrow> time_ns \<Rightarrow> Server \<Rightarrow> Server" where
  "QueueTimer dump failed now sv =
     (let (q, g) = OnTick game_create (game_send_error dump) failed now (match_queue sv) (game_of sv)
      in (with_game g sv)\<lparr>match_queue := q\<rparr>)"

text \<open>\<open>OnRead\<close> blocks in \<open>SubmitInput\<close> until the task on the strand of the session has run. When other
  tasks come in between, this is what is left of the handler: the task on the session that the lookup
  found, the answer, and the next read.\<close>

definition InputTask :: "(json \<Rightarrow> string) \<Rightarrow> nat \<Rightarrow> nat \<Rightarrow> SessionInput \<Rightarrow> nat \<Rightarrow> Server \<Rightarrow> Server" where
  "InputTask dump r n input seq sv =
     (case ws_at r sv of
        None \<Rightarrow> sv
      | Some ws \<Rightarrow>
          (let (e, sm) = RunInput n input (session_manager sv); ws0 = ws\<lparr>pending_read := False\<rparr>;
               ws1 = (case e of None \<Rightarrow> ws0 | Some (code, message) \<Rightarrow> SendError dump code message seq ws0)
           in put_ws_at r (DoRead ws1) (sv\<lparr>session_manager := sm\<rparr>)))"

lemma InputTask_inv [inv_intros]:
  assumes "server_inv sv"
  shows "server_inv (InputTask dump r n input seq sv)"
proof (cases "ws_at r sv")
  case None
  with assms show ?thesis by (simp add: InputTask_def)
next
  case (Some ws)
  let ?run = "RunInput n input (session_manager sv)" and ?ws0 = "ws\<lparr>pending_read := False\<rparr>"
  let ?ws1 = "case fst ?run of None \<Rightarrow> ?ws0 | Some (code, message) \<Rightarrow> SendError dump code message seq ?ws0"
  have "ws_inv ?ws0" using ws_at_inv [OF assms Some] by simp
  then have "ws_inv ?ws1" "ws_session ?ws1 = ws_session ws" by (simp_all add: Send_inv split: option.split)
  then have "server_inv (put_ws_at r (DoRead ?ws1) (sv\<lparr>session_manager := snd ?run\<rparr>))"
    using Some by (intro server_inv_put_ws [OF server_inv_task [OF assms]]) (simp_all add: DoRead_inv)
  with Some show ?thesis by (simp add: InputTask_def split_beta Let_def)
qed

lemma ws_heap_send [simp]:
  "um_find (ws_heap (network (backend_send dump u e p b))) r = None \<longleftrightarrow> um_find (ws_heap (network b)) r = None"
  "network (backend_finalize rec ps b) = network b"
  by (simp_all add: backend_send_def backend_finalize_def SendEventToUser_heap split: option.split)

lemma ws_heap_broadcast [simp]:
  "um_find (ws_heap (network (BroadcastToParticipants (backend_send dump) ctx e p b))) r = None \<longleftrightarrow>
     um_find (ws_heap (network b)) r = None"
proof -
  have "um_find (ws_heap (network (fold (\<lambda>q. backend_send dump (sp_user_id q) e p) qs b))) r = None \<longleftrightarrow>
      um_find (ws_heap (network b)) r = None" for qs
    by (induction qs arbitrary: b) simp_all
  then show ?thesis by (simp add: BroadcastToParticipants_def)
qed

text \<open>A new game state with the same addresses and no more users in sessions.\<close>

lemma server_inv_game:
  assumes "server_inv sv" "game_good g"
    and "\<forall>u. game_in_session g u \<longrightarrow> game_in_session (game_of sv) u"
    and "\<forall>r. um_find (ws_heap (network (snd g))) r \<noteq> None \<longrightarrow> um_find (ws_heap (net_of sv)) r \<noteq> None"
  shows "server_inv (with_game g sv)"
  using assms by (auto simp: server_inv_def with_game_def game_of_def apart_def)

lemma StrandStart_inv [inv_intros]:
  assumes inv: "server_inv sv"
  shows "server_inv (StrandStart dump now n sv)"
  unfolding StrandStart_def
proof (rule server_inv_game [OF inv])
  have good: "game_good (game_of sv)" using inv by (simp add: server_inv_def)
  show "game_good (RunStart (backend_send dump) now n (game_of sv))"
    using game_session_step [OF good, of dump "StartOp n now"] by simp
  show "\<forall>u. game_in_session (RunStart (backend_send dump) now n (game_of sv)) u \<longrightarrow> game_in_session (game_of sv) u"
    by (cases rule: RunStart_cases [of "backend_send dump" now n "session_manager sv" "backend sv"])
      (simp_all add: game_of_def game_in_session_def IsUserInSession_def)
  show "\<forall>r. um_find (ws_heap (network (snd (RunStart (backend_send dump) now n (game_of sv))))) r \<noteq> None \<longrightarrow>
      um_find (ws_heap (net_of sv)) r \<noteq> None"
    by (cases rule: RunStart_cases [of "backend_send dump" now n "session_manager sv" "backend sv"])
      (simp_all add: game_of_def del: not_None_eq)
qed

lemma TickTimer_result:
  assumes inv: "server_inv sv"
  shows "\<exists>sv'. TickTimer dump now ended_at n sv = Inr sv' \<and> server_inv sv'"
proof -
  have sinv: "sm_inv (session_manager sv)" and good: "game_good (game_of sv)"
    using inv by (simp_all add: server_inv_def game_good_def game_of_def)
  let ?run = "RunTimer (backend_send dump) backend_finalize now ended_at n (session_manager sv, backend sv)"
  obtain sm' b' where run: "?run = Inr (sm', b')"
    using RunTimer_inv [OF sinv, of "backend_send dump" backend_finalize now ended_at n "backend sv"] by blast
  have good': "game_good (sm', b')"
    using game_session_step [OF good, of dump "TimerOp n now ended_at"] run by (simp add: game_of_def)
  from sinv
  have "(\<forall>u. um_find (user_to_session sm') u \<noteq> None \<longrightarrow> um_find (user_to_session (session_manager sv)) u \<noteq> None) \<and>
    (\<forall>r. um_find (ws_heap (network b')) r = None \<longleftrightarrow> um_find (ws_heap (net_of sv)) r = None)"
  proof (cases rule: RunTimer_cases [where send = "backend_send dump" and finalize = backend_finalize
        and now = now and ended_at = ended_at and n = n and s = "backend sv"])
    case idle
    with run show ?thesis by simp
  next
    case (running ctx)
    with run show ?thesis by auto
  next
    case (last ctx p1 p2)
    with run show ?thesis by (auto simp: finished_manager_def fold_erase_find split: if_splits)
  qed
  then have "server_inv (with_game (sm', b') sv)"
    by (intro server_inv_game [OF inv good'])
      (simp_all add: game_of_def game_in_session_def IsUserInSession_def del: not_None_eq)
  with run show ?thesis by (simp add: TickTimer_def game_of_def)
qed

lemma QueueTimer_inv [inv_intros]:
  assumes inv: "server_inv sv"
  shows "server_inv (QueueTimer dump failed now sv)"
proof -
  let ?t = "OnTick game_create (game_send_error dump) failed now (match_queue sv) (game_of sv)"
  have pre: "mq_inv (match_queue sv)" "game_good (game_of sv)" "apart game_in_session (match_queue sv) (game_of sv)"
    using inv by (simp_all add: server_inv_def)
  have err: "um_find (ws_heap (network (snd (game_send_error dump u c m g)))) r = None \<longleftrightarrow>
      um_find (ws_heap (network (snd g))) r = None" for u c m g r
    by (simp add: game_send_error_def SendErrorToUser_heap split: option.split)
  have crt: "network (snd (game_create ps g)) = network (snd g)" for ps g by (simp add: game_create_def)
  have "um_find (ws_heap (network (snd (fold game_create pss (fold (timeout_error (game_send_error dump)) es g))))) r = None
      \<longleftrightarrow> um_find (ws_heap (network (snd g))) r = None" for pss es g r
  proof -
    have "network (snd (fold game_create pss h)) = network (snd h)" for h
      by (induction pss arbitrary: h) (simp_all add: crt)
    moreover have "um_find (ws_heap (network (snd (fold (timeout_error (game_send_error dump)) es g)))) r = None
      \<longleftrightarrow> um_find (ws_heap (network (snd g))) r = None"
      by (induction es arbitrary: g) (simp_all add: err)
    ultimately show ?thesis by simp
  qed
  then have "um_find (ws_heap (network (snd (snd ?t)))) r = None \<longleftrightarrow> um_find (ws_heap (net_of sv)) r = None" for r
    using OnTick_spec(3) [OF pre(1), of game_create "game_send_error dump" now "game_of sv"]
    by (cases failed) (simp_all add: OnTick_def game_of_def)
  then have "\<forall>r. um_find (ws_heap (network (snd (snd ?t)))) r \<noteq> None \<longrightarrow> r < next_address sv"
    using server_inv_fresh [OF inv] by simp
  moreover have "mq_inv (fst ?t)" using pre(1) by (rule OnTick_inv)
  moreover note game.tick_apart [OF pre, of dump failed now]
  ultimately show ?thesis
    using inv by (simp add: QueueTimer_def split_beta server_inv_def with_game_def game_of_def)
qed

section \<open>The step relation\<close>

inductive server_step :: "Platform \<Rightarrow> Server \<Rightarrow> Server \<Rightarrow> bool" for pf where
  http: "OnHttpRead pf rd rnd ok req sv = Inr (res, sv') \<Longrightarrow> server_step pf sv sv'"
| message: "ws_at r sv = Some ws \<Longrightarrow> pending_read ws \<Longrightarrow>
    server_step pf sv (OnRead (pf_parse pf) (pf_dump pf) failed data rnd now1 now2 r sv)"
| input_task: "ws_at r sv = Some ws \<Longrightarrow> pending_read ws \<Longrightarrow>
    server_step pf sv (InputTask (pf_dump pf) r n input seq sv)"
| written: "ws_at r sv = Some ws \<Longrightarrow> pending_writes ws \<noteq> [] \<Longrightarrow>
    server_step pf sv (WriteCompleted failed r sv)"
| destroyed: "ws_at r sv = Some ws \<Longrightarrow> \<not> pending_read ws \<Longrightarrow> pending_writes ws = [] \<Longrightarrow>
    server_step pf sv (SessionDestroyed r sv)"
| started: "server_step pf sv (StrandStart (pf_dump pf) now n sv)"
| ticked: "TickTimer (pf_dump pf) now ended_at n sv = Inr sv' \<Longrightarrow> server_step pf sv sv'"
| queue_timer: "timer_waiting (match_queue sv) \<Longrightarrow>
    server_step pf sv (QueueTimer (pf_dump pf) failed now sv)"

inductive_cases server_step_cases: "server_step pf sv sv'"

text \<open>The handlers that an exception can leave; each of them then ends the process.\<close>

inductive server_crash :: "Platform \<Rightarrow> Server \<Rightarrow> exn \<Rightarrow> bool" for pf where
  http: "OnHttpRead pf rd rnd ok req sv = Inl e \<Longrightarrow> server_crash pf sv e"
| tick: "TickTimer (pf_dump pf) now ended_at n sv = Inl e \<Longrightarrow> server_crash pf sv e"

inductive_simps server_crash_iff: "server_crash pf sv e"

inductive reachable :: "Platform \<Rightarrow> AppConfig \<Rightarrow> Server \<Rightarrow> bool" for pf cfg where
  start: "reachable pf cfg (make_ServerApp cfg)"
| step: "reachable pf cfg sv \<Longrightarrow> server_step pf sv sv' \<Longrightarrow> reachable pf cfg sv'"

lemma server_step_inv: "server_step pf sv sv' \<Longrightarrow> server_inv sv \<Longrightarrow> server_inv sv'"
proof (induction rule: server_step.induct)
  case (ticked now ended_at n sv sv')
  then show ?case using TickTimer_result [of sv "pf_dump pf" now ended_at n] by auto
qed (auto intro: OnHttpRead_inv inv_intros)

lemma reachable_inv: "reachable pf cfg sv \<Longrightarrow> server_inv sv"
  by (induction rule: reachable.induct) (auto intro: server_inv_init server_step_inv)

section \<open>Exceptions\<close>

lemma parse_or_flag_range:
  "parse_or_flag params key dest lo hi = Some v \<Longrightarrow> lo \<le> dest \<Longrightarrow> dest \<le> hi \<Longrightarrow> lo \<le> v \<and> v \<le> hi"
  by (auto simp: parse_or_flag_def split: option.splits if_splits)

lemma HandleLeaderboard_returns:
  assumes "um_size (rating_entries (ratings_of sv)) < 2 ^ 63"
  shows "HandleLeaderboard pf rd query sv \<noteq> Inl e"
proof -
  have "GetLeaderboard page (word_of_nat n) (ratings_of sv) \<noteq> Inl e'" if
    "parse_or_flag params ''size'' 10 1 50 = Some n" for page n params e'
  proof -
    have "n \<le> 50" using parse_or_flag_range [OF that] by simp
    then have "unat (word_of_nat n :: 64 word) \<le> 50" by (simp add: unat_of_nat)
    then show ?thesis by (rule GetLeaderboard_returns [OF assms])
  qed
  then show ?thesis
    by (auto simp: HandleLeaderboard_def Let_def split: option.splits sum.splits)
qed

lemma Dispatch_returns:
  assumes "um_size (rating_entries (ratings_of sv)) < 2 ^ 63"
  shows "Dispatch pf rd rnd req sv \<noteq> Inl e"
  using HandleLeaderboard_returns [OF assms, of pf rd "target_query (hr_target req)"]
  unfolding Dispatch_def Let_def by (auto split: if_splits sum.splits)

lemma SendResponse_throws: "SendResponse pf rd t start req res sv = Inl e \<Longrightarrow> e = RuntimeError ''type_error.316''"
  by (auto simp: SendResponse_def Log_def Let_def split: option.splits if_splits)

lemma OnHttpRead_throws:
  assumes "um_size (rating_entries (ratings_of sv)) < 2 ^ 63" "OnHttpRead pf rd rnd ok req sv = Inl e"
  shows "e = RuntimeError ''type_error.316''"
proof (cases "hr_upgrade req")
  case True
  with assms(2) have "HandleWebSocket pf rd rnd ok req sv = Inl e" by (simp add: OnHttpRead_def)
  then show ?thesis
    by (auto simp: HandleWebSocket_def dest: SendResponse_throws split: prod.splits option.splits sum.splits)
next
  case False
  let ?ob = "IncrementRequest (snd (NextTraceId (rd_trace rd) (observability (net_of sv))))"
  have "ratings_of (with_observability ?ob sv) = ratings_of sv" by (simp add: with_observability_def)
  then have "Dispatch pf rd rnd req (with_observability ?ob sv) \<noteq> Inl e'" for e'
    using Dispatch_returns [of "with_observability ?ob sv"] assms(1) by simp
  with assms(2) False show ?thesis
    by (auto simp: OnHttpRead_def HandleRequest_def split_beta Let_def dest: SendResponse_throws split: sum.splits)
qed

end
