(* ===== verification/UserJourney.thy ===== *)
theory UserJourney
  imports ServerSteps
begin

text \<open>
  The way of a user through the handlers of \<open>http_session.cpp\<close>: registration, login and WebSocket
  upgrade lead to a connection on which the server reaches the user. The lemmas say what a request does
  when the log printer accepts its line.
\<close>

section \<open>One request\<close>

text \<open>What the journey relies on of the log printer: it prints a line whose strings are ASCII (the real one throws
  only on a string that is not UTF-8). The trace ids of the server are such strings.\<close>

definition prints_ascii :: "Platform \<Rightarrow> bool" where
  "prints_ascii pf \<longleftrightarrow> (\<forall>trace name latency. ascii trace \<longrightarrow> ascii name \<longrightarrow>
     pf_try_dump pf (log_json \<lparr>lc_trace_id = trace, lc_user_id = None, lc_session_id = None, lc_name = name,
       lc_latency_ms = latency\<rparr>) \<noteq> None)"

lemma ascii_trace_id: "ascii (fst (NextTraceId now ob))"
  using ascii_show_base [of 16 "nat (take_bit 64 now)"] ascii_show_base [of 16 "unat (trace_counter ob)"]
  by (simp add: NextTraceId_def ascii_def)

lemma SendResponse_answers:
  assumes "prints_ascii pf" "ascii (hr_target req)" "ascii t"
  shows "\<exists>ob. SendResponse pf rd t start req res sv = Inr (res, with_observability ob sv)"
  using assms by (auto simp: SendResponse_def Log_def Let_def prints_ascii_def split: option.split)

lemma OnHttpRead_answers:
  assumes "prints_ascii pf" "ascii (hr_target req)" "\<not> hr_upgrade req"
    and "\<And>ob. \<exists>sv1. Dispatch pf rd rnd req (with_observability ob sv) = Inr (res, sv1) \<and> P sv1"
    and "\<And>ob sv1. P (with_observability ob sv1) = P sv1"
  shows "\<exists>sv'. OnHttpRead pf rd rnd ok req sv = Inr (Some res, sv') \<and> P sv'"
proof -
  let ?t = "NextTraceId (rd_trace rd) (observability (net_of sv))"
  obtain sv1 where d: "Dispatch pf rd rnd req (with_observability (IncrementRequest (snd ?t)) sv) = Inr (res, sv1)" "P sv1"
    using assms(4) by blast
  obtain ob where "SendResponse pf rd (fst ?t) (rd_start rd) req res sv1 = Inr (res, with_observability ob sv1)"
    using SendResponse_answers [OF assms(1,2) ascii_trace_id] by blast
  with d assms(3,5) show ?thesis by (simp add: OnHttpRead_def HandleRequest_def split_beta Let_def)
qed

text \<open>What a request leaves alone: everything but the accounts, or everything but the queue.\<close>

definition same_but_auth :: "Server \<Rightarrow> Server \<Rightarrow> bool" where
  "same_but_auth sv sv' \<longleftrightarrow> app_config sv' = app_config sv \<and> next_address sv' = next_address sv \<and>
     match_queue sv' = match_queue sv \<and> session_manager sv' = session_manager sv"

lemma journey_frame [simp]:
  "same_but_auth sv (with_observability ob sv1) = same_but_auth sv sv1"
  "same_but_auth (with_observability ob sv) sv1 = same_but_auth sv sv1"
  "auth_service (with_observability ob sv1) = auth_service sv1"
  "match_queue (with_observability ob sv1) = match_queue sv1"
  "session_manager (with_observability ob sv1) = session_manager sv1"
  "app_config (with_observability ob sv1) = app_config sv1"
  "next_address (with_observability ob sv1) = next_address sv1"
  by (simp_all add: same_but_auth_def with_observability_def with_network_def)

lemma register_answered:
  assumes "prints_ascii pf" "ascii (hr_target req)" "\<not> hr_upgrade req"
    and "hr_method req = PostMethod" "target_path (hr_target req) = ''/api/auth/register''"
    and "credentials_of pf req = Some (u, p)" "u \<noteq> []" "p \<noteq> []" "um_find (users (auth_service sv)) u = None"
  shows "\<exists>res sv'. OnHttpRead pf rd rnd ok req sv = Inr (Some res, sv') \<and> rp_status res = 201 \<and>
    auth_service sv' = snd (RegisterUser (pf_pbkdf pf) rnd u p (auth_service sv)) \<and> same_but_auth sv sv'"
proof -
  let ?res = "success pf rd 201 (json_obj [(''userId'', JInteger (next_user_id (auth_service sv))), (''username'', JString u)])"
  have "\<exists>sv'. OnHttpRead pf rd rnd ok req sv = Inr (Some ?res, sv') \<and>
      auth_service sv' = snd (RegisterUser (pf_pbkdf pf) rnd u p (auth_service sv)) \<and> same_but_auth sv sv'"
    by (rule OnHttpRead_answers [OF assms(1-3)])
      (use assms in \<open>simp_all add: Dispatch_def HandleRegister_def RegisterUser_success with_ratings_def same_but_auth_def\<close>)
  then show ?thesis by (auto simp: success_def)
qed

lemma login_answered:
  assumes "prints_ascii pf" "ascii (hr_target req)" "\<not> hr_upgrade req"
    and "hr_method req = PostMethod" "target_path (hr_target req) = ''/api/auth/login''"
    and "credentials_of pf req = Some (u, p)"
    and "fst (Login (pf_pbkdf pf) rnd (rd_service rd) u p (RemoteIp req) (auth_service sv)) = Inr s"
  shows "\<exists>res sv'. OnHttpRead pf rd rnd ok req sv = Inr (Some res, sv') \<and> rp_status res = 200 \<and>
    auth_service sv' = snd (Login (pf_pbkdf pf) rnd (rd_service rd) u p (RemoteIp req) (auth_service sv)) \<and>
    same_but_auth sv sv'"
proof -
  let ?login = "Login (pf_pbkdf pf) rnd (rd_service rd) u p (RemoteIp req) (auth_service sv)"
  let ?res = "success pf rd 200 (json_obj [(''token'', JString (as_token s)),
    (''expiresAt'', JString (ToIsoString (as_expires_at s))),
    (''user'', json_obj [(''userId'', JInteger (au_user_id (as_user s))), (''username'', JString (au_username (as_user s)))])])"
  obtain au where login: "?login = (Inr s, au)" using assms(7) by (cases ?login) simp
  have "\<exists>sv'. OnHttpRead pf rd rnd ok req sv = Inr (Some ?res, sv') \<and> auth_service sv' = snd ?login \<and> same_but_auth sv sv'"
    by (rule OnHttpRead_answers [OF assms(1-3)])
      (use assms(4-6) login in \<open>simp_all add: Dispatch_def HandleLogin_def with_ratings_def same_but_auth_def Let_def\<close>)
  then show ?thesis by (auto simp: success_def)
qed

lemma join_answered:
  assumes "prints_ascii pf" "ascii (hr_target req)" "\<not> hr_upgrade req"
    and "hr_method req = PostMethod" "target_path (hr_target req) = ''/api/queue/join''"
    and "hr_authorization req = Some (''Bearer '' @ token)" "token \<noteq> []"
    and "find_session (auth_service sv) token = Some s" "rd_validate rd \<le> as_expires_at s"
    and "join_request pf req (app_config sv) = Some (mode, timeout)"
    and "fst (Join (game_in_session (game_of sv)) (rd_service rd) (as_user s) timeout (match_queue sv)) = None"
  shows "\<exists>res sv'. OnHttpRead pf rd rnd ok req sv = Inr (Some res, sv') \<and> rp_status res = 200 \<and>
    match_queue sv' = snd (Join (game_in_session (game_of sv)) (rd_service rd) (as_user s) timeout (match_queue sv)) \<and>
    auth_service sv' = auth_service sv \<and> session_manager sv' = session_manager sv \<and> app_config sv' = app_config sv"
proof -
  let ?join = "Join (game_in_session (game_of sv)) (rd_service rd) (as_user s) timeout (match_queue sv)"
  obtain q where join: "?join = (None, q)" using assms(11) by (cases ?join) simp
  have busy: "game_in_session (game_of ((with_observability ob sv)\<lparr>auth_service := au\<rparr>)) = game_in_session (game_of sv)" for ob au
    by (simp add: fun_eq_iff game_in_session_def game_of_def)
  let ?res = "success pf rd 200 (json_obj [(''queued'', JBool True), (''mode'', JString mode),
    (''expiresAt'', JString (ToIsoString (add_seconds (rd_expires rd) timeout)))])"
  have "\<exists>sv'. OnHttpRead pf rd rnd ok req sv = Inr (Some ?res, sv') \<and> match_queue sv' = snd ?join \<and>
      auth_service sv' = auth_service sv \<and> session_manager sv' = session_manager sv \<and> app_config sv' = app_config sv"
    by (rule OnHttpRead_answers [OF assms(1-3)])
      (use assms(4-10) join busy in \<open>simp_all add: Dispatch_def with_session_def ExtractAuthSession_def ParseBearer_def
        ValidateToken_def HandleJoin_def\<close>)
  then show ?thesis by (auto simp: success_def)
qed

lemma upgrade_accepted:
  assumes "hr_upgrade req" "hr_authorization req = Some (''Bearer '' @ token)" "token \<noteq> []"
    and "find_session (auth_service sv) token = Some s" "rd_validate rd \<le> as_expires_at s"
  shows "OnHttpRead pf rd rnd True req sv = Inr (None, AcceptWebSocket pf rd rnd s sv)"
  using assms
  by (simp add: OnHttpRead_def HandleWebSocket_def ExtractAuthSession_def ParseBearer_def ValidateToken_def)

section \<open>From registration to connection\<close>

lemma GenerateToken_nonempty: "rnd \<noteq> [] \<Longrightarrow> GenerateToken rnd \<noteq> []"
  by (cases rnd) (simp_all add: GenerateToken_def RandomHex_def BytesToHex_Cons_digits del: BytesToHex.simps)

lemma RegisterUser_verifies:
  assumes "u \<noteq> []" "p \<noteq> []" "um_find (users st) u = None"
  shows "\<exists>rec. um_find (users (snd (RegisterUser pb rnd u p st))) u = Some rec \<and> ur_id rec = next_user_id st \<and>
    ur_username rec = u \<and> VerifyPassword pb p rec"
  using assms VerifyPassword_iff [of pb p "next_user_id st" u "take 16 rnd" p]
  by (simp add: RegisterUser_success GenerateSalt_def RandomHex_def)

definition auth_state_text :: "(json \<Rightarrow> string) \<Rightarrow> AuthUser \<Rightarrow> string \<Rightarrow> string" where
  "auth_state_text dump user token = dump (ToWsJson \<lparr>env_type = ''event'', env_event = ''auth_state'', env_seq = 0,
     env_payload = json_obj [(''userId'', JInteger (au_user_id user)), (''username'', JString (au_username user)),
       (''resumeToken'', JString token), (''snapshotVersion'', JInteger 1)]\<rparr>)"

text \<open>An accepted upgrade registers a session whose queue holds the greeting, if the limits have room for it.\<close>

lemma AcceptWebSocket_reached:
  assumes "0 < ws_queue_limit_messages (app_config sv)"
    and "length (auth_state_text (pf_dump pf) (as_user s) (GenerateResumeToken rnd)) \<le> ws_queue_limit_bytes (app_config sv)"
  shows "\<exists>ws. ws_at (next_address sv) (AcceptWebSocket pf rd rnd s sv) = Some ws \<and> ws_session ws = s \<and>
     send_queue ws = [auth_state_text (pf_dump pf) (as_user s) (resume_token ws)] \<and>
     lock_session (au_user_id (as_user s)) (net_of (AcceptWebSocket pf rd rnd s sv)) = Some (next_address sv, ws)"
  using assms
  by (simp add: AcceptWebSocket_def RunSession_def Let_def split_beta ws_at_def put_ws_at_def with_network_def
      put_ws_def lock_session_def Register_def make_WebSocketSession_def SendAuthState_def DoRead_def EnqueueMessage_def
      WriteNext_def auth_state_text_def IssueToken_def not_less [symmetric])

lemma user_logs_in:
  assumes log: "prints_ascii pf"
    and register: "ascii (hr_target req)" "\<not> hr_upgrade req" "hr_method req = PostMethod" "target_path (hr_target req) = ''/api/auth/register''"
      "credentials_of pf req = Some (u, p)" "u \<noteq> []" "p \<noteq> []" "um_find (users (auth_service sv)) u = None"
    and login: "ascii (hr_target req')" "\<not> hr_upgrade req'" "hr_method req' = PostMethod" "target_path (hr_target req') = ''/api/auth/login''"
      "credentials_of pf req' = Some (u, p)" "fst (Allow (RemoteIp req') (rd_service rd') (rate_limiter (auth_service sv)))"
  shows "\<exists>a1 sv1 a2 sv2. OnHttpRead pf rd rnd ok req sv = Inr (Some a1, sv1) \<and> rp_status a1 = 201 \<and>
    OnHttpRead pf rd' rnd' ok req' sv1 = Inr (Some a2, sv2) \<and> rp_status a2 = 200 \<and> same_but_auth sv sv2 \<and>
    auth_service sv2 = snd (Login (pf_pbkdf pf) rnd' (rd_service rd') u p (RemoteIp req')
      (snd (RegisterUser (pf_pbkdf pf) rnd u p (auth_service sv)))) \<and>
    find_session (auth_service sv2) (GenerateToken rnd') = Some \<lparr>as_token = GenerateToken rnd',
      as_user = \<lparr>au_user_id = next_user_id (auth_service sv), au_username = u\<rparr>,
      as_expires_at = add_seconds (rd_service rd') (token_ttl (auth_config (auth_service sv)))\<rparr>"
proof -
  let ?st1 = "snd (RegisterUser (pf_pbkdf pf) rnd u p (auth_service sv))"
  obtain a1 sv1 where r1: "OnHttpRead pf rd rnd ok req sv = Inr (Some a1, sv1)" "rp_status a1 = 201"
    "auth_service sv1 = ?st1" "same_but_auth sv sv1"
    using register_answered [OF log register] by blast
  obtain rec where rec: "um_find (users ?st1) u = Some rec" "ur_id rec = next_user_id (auth_service sv)"
    "ur_username rec = u" "VerifyPassword (pf_pbkdf pf) p rec"
    using RegisterUser_verifies [OF register(6-8)] by blast
  let ?s = "\<lparr>as_token = GenerateToken rnd', as_user = \<lparr>au_user_id = next_user_id (auth_service sv), au_username = u\<rparr>,
    as_expires_at = add_seconds (rd_service rd') (token_ttl (auth_config (auth_service sv)))\<rparr>"
  have l: "fst (Login (pf_pbkdf pf) rnd' (rd_service rd') u p (RemoteIp req') ?st1) = Inr ?s"
    using rec login(6) register(6-8) by (subst Login_result [OF rec(1) _ rec(4)]) (simp_all add: RegisterUser_success)
  obtain a2 sv2 where r2: "OnHttpRead pf rd' rnd' ok req' sv1 = Inr (Some a2, sv2)" "rp_status a2 = 200"
    "auth_service sv2 = snd (Login (pf_pbkdf pf) rnd' (rd_service rd') u p (RemoteIp req') ?st1)" "same_but_auth sv1 sv2"
    using login_answered [OF log login(1-5), of rnd' rd' sv1 ?s ok] l r1(3) by auto
  moreover have "find_session (auth_service sv2) (GenerateToken rnd') = Some ?s"
    using Login_stores [OF l] r2(3) by simp
  moreover have "same_but_auth sv sv2" using r1(4) r2(4) by (simp add: same_but_auth_def)
  ultimately show ?thesis using r1 by blast
qed

lemma user_connects:
  assumes log: "prints_ascii pf"
    and register: "ascii (hr_target req)" "\<not> hr_upgrade req" "hr_method req = PostMethod" "target_path (hr_target req) = ''/api/auth/register''"
      "credentials_of pf req = Some (u, p)" "u \<noteq> []" "p \<noteq> []" "um_find (users (auth_service sv)) u = None"
    and login: "ascii (hr_target req')" "\<not> hr_upgrade req'" "hr_method req' = PostMethod" "target_path (hr_target req') = ''/api/auth/login''"
      "credentials_of pf req' = Some (u, p)" "fst (Allow (RemoteIp req') (rd_service rd') (rate_limiter (auth_service sv)))"
    and upgrade: "hr_upgrade req''" "hr_authorization req'' = Some (''Bearer '' @ GenerateToken rnd')" "rnd' \<noteq> []"
      "rd_validate rd'' \<le> add_seconds (rd_service rd') (token_ttl (auth_config (auth_service sv)))"
    and limits: "0 < ws_queue_limit_messages (app_config sv)"
      "length (auth_state_text (pf_dump pf) \<lparr>au_user_id = next_user_id (auth_service sv), au_username = u\<rparr>
         (GenerateResumeToken rnd'')) \<le> ws_queue_limit_bytes (app_config sv)"
  shows "\<exists>a1 sv1 a2 sv2 sv3 ws. OnHttpRead pf rd rnd ok req sv = Inr (Some a1, sv1) \<and> rp_status a1 = 201 \<and>
    OnHttpRead pf rd' rnd' ok req' sv1 = Inr (Some a2, sv2) \<and> rp_status a2 = 200 \<and>
    OnHttpRead pf rd'' rnd'' True req'' sv2 = Inr (None, sv3) \<and>
    lock_session (next_user_id (auth_service sv)) (net_of sv3) = Some (next_address sv, ws) \<and>
    ws_at (next_address sv) sv3 = Some ws \<and>
    as_user (ws_session ws) = \<lparr>au_user_id = next_user_id (auth_service sv), au_username = u\<rparr> \<and>
    send_queue ws = [auth_state_text (pf_dump pf) (as_user (ws_session ws)) (resume_token ws)]"
proof -
  obtain a1 sv1 a2 sv2 where run: "OnHttpRead pf rd rnd ok req sv = Inr (Some a1, sv1)" "rp_status a1 = 201"
    "OnHttpRead pf rd' rnd' ok req' sv1 = Inr (Some a2, sv2)" "rp_status a2 = 200" "same_but_auth sv sv2"
    and found: "find_session (auth_service sv2) (GenerateToken rnd') = Some \<lparr>as_token = GenerateToken rnd',
      as_user = \<lparr>au_user_id = next_user_id (auth_service sv), au_username = u\<rparr>,
      as_expires_at = add_seconds (rd_service rd') (token_ttl (auth_config (auth_service sv)))\<rparr>"
    using user_logs_in [OF log register login] by blast
  let ?s = "the (find_session (auth_service sv2) (GenerateToken rnd'))"
  have r3: "OnHttpRead pf rd'' rnd'' True req'' sv2 = Inr (None, AcceptWebSocket pf rd'' rnd'' ?s sv2)"
    using upgrade found by (intro upgrade_accepted) (simp_all add: GenerateToken_nonempty)
  show ?thesis
    using AcceptWebSocket_reached [where sv = sv2 and pf = pf and rd = rd'' and rnd = rnd'' and s = ?s] limits run r3 found by (auto simp: same_but_auth_def)
qed

lemma user_queues:
  assumes log: "prints_ascii pf"
    and register: "ascii (hr_target req)" "\<not> hr_upgrade req" "hr_method req = PostMethod" "target_path (hr_target req) = ''/api/auth/register''"
      "credentials_of pf req = Some (u, p)" "u \<noteq> []" "p \<noteq> []" "um_find (users (auth_service sv)) u = None"
    and login: "ascii (hr_target req')" "\<not> hr_upgrade req'" "hr_method req' = PostMethod" "target_path (hr_target req') = ''/api/auth/login''"
      "credentials_of pf req' = Some (u, p)" "fst (Allow (RemoteIp req') (rd_service rd') (rate_limiter (auth_service sv)))"
    and join: "ascii (hr_target req'')" "\<not> hr_upgrade req''" "hr_method req'' = PostMethod" "target_path (hr_target req'') = ''/api/queue/join''"
      "hr_authorization req'' = Some (''Bearer '' @ GenerateToken rnd')" "rnd' \<noteq> []"
      "rd_validate rd'' \<le> add_seconds (rd_service rd') (token_ttl (auth_config (auth_service sv)))"
      "join_request pf req'' (app_config sv) = Some (mode, timeout)"
      "fst (Join (game_in_session (game_of sv)) (rd_service rd'') \<lparr>au_user_id = next_user_id (auth_service sv), au_username = u\<rparr>
         timeout (match_queue sv)) = None"
  shows "\<exists>a1 sv1 a2 sv2 a3 sv3. OnHttpRead pf rd rnd ok req sv = Inr (Some a1, sv1) \<and>
    OnHttpRead pf rd' rnd' ok req' sv1 = Inr (Some a2, sv2) \<and> OnHttpRead pf rd'' rnd'' ok req'' sv2 = Inr (Some a3, sv3) \<and>
    rp_status a3 = 200 \<and> app_config sv3 = app_config sv \<and> session_manager sv3 = session_manager sv \<and>
    auth_service sv3 = snd (Login (pf_pbkdf pf) rnd' (rd_service rd') u p (RemoteIp req')
      (snd (RegisterUser (pf_pbkdf pf) rnd u p (auth_service sv)))) \<and>
    match_queue sv3 = snd (Join (game_in_session (game_of sv)) (rd_service rd'')
      \<lparr>au_user_id = next_user_id (auth_service sv), au_username = u\<rparr> timeout (match_queue sv))"
proof -
  obtain a1 sv1 a2 sv2 where run: "OnHttpRead pf rd rnd ok req sv = Inr (Some a1, sv1)"
    "OnHttpRead pf rd' rnd' ok req' sv1 = Inr (Some a2, sv2)" "same_but_auth sv sv2"
    "auth_service sv2 = snd (Login (pf_pbkdf pf) rnd' (rd_service rd') u p (RemoteIp req')
      (snd (RegisterUser (pf_pbkdf pf) rnd u p (auth_service sv))))"
    and found: "find_session (auth_service sv2) (GenerateToken rnd') = Some \<lparr>as_token = GenerateToken rnd',
      as_user = \<lparr>au_user_id = next_user_id (auth_service sv), au_username = u\<rparr>,
      as_expires_at = add_seconds (rd_service rd') (token_ttl (auth_config (auth_service sv)))\<rparr>"
    using user_logs_in [OF log register login] by blast
  have busy: "game_in_session (game_of sv2) = game_in_session (game_of sv)"
    using run(3) by (simp add: fun_eq_iff same_but_auth_def game_in_session_def game_of_def)
  show ?thesis
    using join_answered [OF log join(1-5) GenerateToken_nonempty [OF join(6)] found, of rd'' mode timeout rnd'' ok]
      run join(7-9) busy by (auto simp: same_but_auth_def)
qed

section \<open>A sample user\<close>

text \<open>The parser of the samples reads every body as the credentials of the user it names.\<close>

definition play_platform :: Platform where
  "play_platform = \<lparr>pf_parse = (\<lambda>s. Some (json_obj [(''username'', JString s), (''password'', JString ''pw''),
       (''mode'', JString ''normal'')])),
     pf_dump = (\<lambda>j. ''body''), pf_try_dump = sample_try_print, pf_pbkdf = sample_pbkdf\<rparr>"

definition play_post :: "string \<Rightarrow> string \<Rightarrow> HttpRequest" where
  "play_post name target = (sample_request PostMethod target)\<lparr>hr_body := name\<rparr>"

definition play_join :: "byte list \<Rightarrow> HttpRequest" where
  "play_join rnd = (sample_request PostMethod ''/api/queue/join'')\<lparr>hr_authorization := Some (''Bearer '' @ GenerateToken rnd)\<rparr>"

definition play_upgrade :: HttpRequest where
  "play_upgrade = (sample_request GetMethod ''/ws'')
     \<lparr>hr_authorization := Some (''Bearer '' @ GenerateToken [2]), hr_upgrade := True\<rparr>"

lemma sample_prints_ascii: "pf_try_dump pf = sample_try_print \<Longrightarrow> prints_ascii pf"
  by (simp add: prints_ascii_def sample_try_print_def log_json_def member_names_def Let_def)

lemma play_paths:
  "ascii ''/api/auth/register''" "ascii ''/api/auth/login''" "ascii ''/api/queue/join''"
  by (simp_all add: ascii_def)

lemma play_requests:
  "prints_ascii play_platform"
  "credentials_of play_platform (play_post name target) = Some (name, ''pw'')"
  "hr_method (play_post name target) = PostMethod" "\<not> hr_upgrade (play_post name target)"
  "hr_target (play_post name target) = target" "RemoteIp (play_post name target) = ''unknown''"
  "hr_method (play_join rnd) = PostMethod" "\<not> hr_upgrade (play_join rnd)" "hr_target (play_join rnd) = ''/api/queue/join''"
  "hr_authorization (play_join rnd) = Some (''Bearer '' @ GenerateToken rnd)"
  "join_request play_platform (play_join rnd) cfg = Some (''normal'', to_int64 (int (match_queue_timeout_seconds cfg)))"
  "hr_upgrade play_upgrade" "hr_authorization play_upgrade = Some (''Bearer '' @ GenerateToken [2])"
  by (simp_all add: play_platform_def play_post_def play_join_def play_upgrade_def sample_request_def credentials_of_def
      join_request_def RemoteIp_def sample_prints_ascii)

lemma play_start:
  "um_find (users (auth_service (make_ServerApp sample_config))) ''ann'' = None"
  "fst (Allow ip (rd_service sample_readings) (rate_limiter (auth_service (make_ServerApp sample_config))))"
  "rd_validate sample_readings \<le>
     add_seconds (rd_service sample_readings) (token_ttl (auth_config (auth_service (make_ServerApp sample_config))))"
  "next_user_id (auth_service (make_ServerApp sample_config)) = 1" "next_address (make_ServerApp sample_config) = 0"
  by (simp_all add: make_ServerApp_def make_AuthService_def sample_config_def sample_readings_def Allow_def bucket_allow_def
      bucket_of_def make_RateLimiter_def to_int64_id add_seconds_exact ns_per_second_def Let_def)

lemma play_limits:
  "0 < ws_queue_limit_messages (app_config (make_ServerApp sample_config))"
  "length (auth_state_text (pf_dump play_platform) user token) \<le> ws_queue_limit_bytes (app_config (make_ServerApp sample_config))"
  by (simp_all add: make_ServerApp_def sample_config_def play_platform_def auth_state_text_def)

lemma sample_connected:
  "\<exists>sv ws. reachable play_platform sample_config sv \<and> ws_at 0 sv = Some ws \<and> send_queue ws = [''body'']"
proof -
  obtain a1 sv1 a2 sv2 sv3 ws where run:
    "OnHttpRead play_platform sample_readings [1] True (play_post ''ann'' ''/api/auth/register'') (make_ServerApp sample_config)
       = Inr (Some a1, sv1)"
    "OnHttpRead play_platform sample_readings [2] True (play_post ''ann'' ''/api/auth/login'') sv1 = Inr (Some a2, sv2)"
    "OnHttpRead play_platform sample_readings [3] True play_upgrade sv2 = Inr (None, sv3)"
    "ws_at 0 sv3 = Some ws" "send_queue ws = [auth_state_text (pf_dump play_platform) (as_user (ws_session ws)) (resume_token ws)]"
    using user_connects [where sv = "make_ServerApp sample_config" and pf = play_platform and rd = sample_readings
        and rd' = sample_readings and rd'' = sample_readings and rnd = "[1]" and rnd' = "[2]" and rnd'' = "[3]"
        and req = "play_post ''ann'' ''/api/auth/register''" and req' = "play_post ''ann'' ''/api/auth/login''" and req'' = play_upgrade
        and u = "''ann''" and p = "''pw''" and ok = True]
    by (auto simp: play_requests play_paths play_start play_limits target_path_def)
  have "reachable play_platform sample_config sv3"
    using run(1-3) by (blast intro: reachable.intros server_step.http)
  moreover have "send_queue ws = [''body'']"
    using run(5) by (simp add: auth_state_text_def play_platform_def)
  ultimately show ?thesis using run(4) by blast
qed

text \<open>A second user, and both in the queue.\<close>

definition play_entry :: "int \<Rightarrow> string \<Rightarrow> QueueEntry" where
  "play_entry u name = \<lparr>qe_user = \<lparr>au_user_id = u, au_username = name\<rparr>, expires_at = 10000000001, joined_at = 1\<rparr>"

lemma play_queues:
  assumes sv: "reachable play_platform sample_config sv" "app_config sv = sample_config"
      "session_manager sv = session_manager (make_ServerApp sample_config)"
    and user: "name \<noteq> []" "um_find (users (auth_service sv)) name = None"
      "fst (Allow ''unknown'' 1 (rate_limiter (auth_service sv)))" "token_ttl (auth_config (auth_service sv)) = 3600"
    and queue: "um_find (user_index (match_queue sv)) (next_user_id (auth_service sv)) = None"
    and rnd: "rnd \<noteq> []"
  shows "\<exists>sv'. reachable play_platform sample_config sv' \<and> app_config sv' = sample_config \<and>
    session_manager sv' = session_manager (make_ServerApp sample_config) \<and>
    auth_service sv' = snd (Login sample_pbkdf rnd 1 name ''pw'' ''unknown''
      (snd (RegisterUser sample_pbkdf [] name ''pw'' (auth_service sv)))) \<and>
    match_queue sv' = snd (Join (\<lambda>u. False) 1 \<lparr>au_user_id = next_user_id (auth_service sv), au_username = name\<rparr> 10 (match_queue sv))"
proof -
  have free: "game_in_session (game_of sv) = (\<lambda>u. False)"
    by (simp add: fun_eq_iff game_in_session_def game_of_def IsUserInSession_def sv(3) make_ServerApp_def make_SessionManager_def)
  have "rd_service sample_readings = 1" "rd_validate sample_readings = 1" by (simp_all add: sample_readings_def)
  moreover have "match_queue_timeout_seconds sample_config = 10" by (simp add: sample_config_def)
  moreover have "pf_pbkdf play_platform = sample_pbkdf" by (simp add: play_platform_def)
  ultimately obtain a1 sv1 a2 sv2 a3 sv3 where run:
    "OnHttpRead play_platform sample_readings [] True (play_post name ''/api/auth/register'') sv = Inr (Some a1, sv1)"
    "OnHttpRead play_platform sample_readings rnd True (play_post name ''/api/auth/login'') sv1 = Inr (Some a2, sv2)"
    "OnHttpRead play_platform sample_readings [] True (play_join rnd) sv2 = Inr (Some a3, sv3)"
    and post: "app_config sv3 = app_config sv" "session_manager sv3 = session_manager sv"
    "auth_service sv3 = snd (Login sample_pbkdf rnd 1 name ''pw'' ''unknown''
      (snd (RegisterUser sample_pbkdf [] name ''pw'' (auth_service sv))))"
    "match_queue sv3 = snd (Join (\<lambda>u. False) 1 \<lparr>au_user_id = next_user_id (auth_service sv), au_username = name\<rparr> 10 (match_queue sv))"
    using user_queues [where sv = sv and pf = play_platform and rd = sample_readings and rd' = sample_readings
        and rd'' = sample_readings and rnd = "[]" and rnd' = rnd and rnd'' = "[]"
        and req = "play_post name ''/api/auth/register''" and req' = "play_post name ''/api/auth/login''"
        and req'' = "play_join rnd" and u = name and p = "''pw''" and mode = "''normal''" and timeout = 10 and ok = True]
      user queue rnd sv(2) free
    by (auto simp: play_requests play_paths target_path_def to_int64_id add_seconds_exact ns_per_second_def Join_def Let_def)
  from run have "reachable play_platform sample_config sv3"
    using sv(1) by (blast intro: reachable.step server_step.http)
  with post sv show ?thesis by auto
qed

lemma sample_two_waiting:
  "\<exists>sv. reachable play_platform sample_config sv \<and> next_session_id (session_manager sv) = 1 \<and>
     next_user_id (auth_service sv) = 3 \<and> timer_waiting (match_queue sv) \<and>
     queue (match_queue sv) = [(0, play_entry 1 ''ann''), (1, play_entry 2 ''bob'')]"
proof -
  let ?sv = "make_ServerApp sample_config"
  have auth: "auth_service ?sv = make_AuthService \<lparr>token_ttl = 3600, login_window = 60, login_max_attempts = 5\<rparr>"
    by (simp add: make_ServerApp_def sample_config_def to_int64_id)
  have queue: "match_queue ?sv = make_MatchQueueService 10" by (simp add: make_ServerApp_def sample_config_def to_int64_id)
  have start: "app_config ?sv = sample_config" "um_find (users (auth_service ?sv)) ''ann'' = None"
    "fst (Allow ''unknown'' 1 (rate_limiter (auth_service ?sv)))" "token_ttl (auth_config (auth_service ?sv)) = 3600"
    "um_find (user_index (match_queue ?sv)) 1 = None" "next_user_id (auth_service ?sv) = 1"
    using play_start(1) by (simp add: make_ServerApp_def)
      (simp_all add: auth queue make_AuthService_def make_MatchQueueService_def Allow_def bucket_allow_def bucket_of_def
        make_RateLimiter_def to_int64_id ns_per_second_def Let_def)
  obtain sv1 where sv1: "reachable play_platform sample_config sv1" "app_config sv1 = sample_config"
    "session_manager sv1 = session_manager ?sv"
    "auth_service sv1 = snd (Login sample_pbkdf [2] 1 ''ann'' ''pw'' ''unknown''
      (snd (RegisterUser sample_pbkdf [] ''ann'' ''pw'' (auth_service ?sv))))"
    "match_queue sv1 = snd (Join (\<lambda>u. False) 1 \<lparr>au_user_id = 1, au_username = ''ann''\<rparr> 10 (match_queue ?sv))"
    using play_queues [OF reachable.start start(1) refl _ start(2-4), of "[2]"] start(5,6) by auto
  have one: "um_find (users (auth_service sv1)) ''bob'' = None" "fst (Allow ''unknown'' 1 (rate_limiter (auth_service sv1)))"
    "token_ttl (auth_config (auth_service sv1)) = 3600" "next_user_id (auth_service sv1) = 2"
    by (simp_all add: sv1(4) auth make_AuthService_def RegisterUser_success Login_def CleanupExpired_def store_session_def
        VerifyPassword_def Allow_def bucket_allow_def bucket_of_def make_RateLimiter_def Let_def ns_per_second_def to_int64_id
        split_beta)
  have two: "um_find (user_index (match_queue sv1)) 2 = None"
    "timer_waiting (snd (Join (\<lambda>u. False) 1 \<lparr>au_user_id = 2, au_username = ''bob''\<rparr> 10 (match_queue sv1)))"
    "queue (snd (Join (\<lambda>u. False) 1 \<lparr>au_user_id = 2, au_username = ''bob''\<rparr> 10 (match_queue sv1))) =
       [(0, play_entry 1 ''ann''), (1, play_entry 2 ''bob'')]"
    by (simp_all add: sv1(5) queue make_MatchQueueService_def Join_def EnsureTimer_def Let_def play_entry_def
        add_seconds_exact ns_per_second_def)
  have "next_user_id (snd (Login sample_pbkdf [4] 1 ''bob'' ''pw'' ''unknown'' au)) = next_user_id au" for au
    by (auto simp: Login_def Let_def split_beta CleanupExpired_def store_session_def split: option.split)
  then have three: "next_user_id (snd (Login sample_pbkdf [4] 1 ''bob'' ''pw'' ''unknown''
      (snd (RegisterUser sample_pbkdf [] ''bob'' ''pw'' (auth_service sv1))))) = 3"
    using one(1,4) by (simp add: RegisterUser_success)
  have "next_session_id (session_manager ?sv) = 1" by (simp add: make_ServerApp_def make_SessionManager_def)
  then show ?thesis using play_queues [OF sv1(1-3) _ one(1-3), of "[4]"] two three unfolding one(4) by auto
qed

section \<open>Properties\<close>

text \<open>C6: A user who registers under a free name, logs in with the password and opens the WebSocket with the
  token before it expires is answered 201 and 200 and upgraded; the server then reaches the user's id through
  the new connection, and the first message on it is \<open>auth_state\<close> with this user and the resume token. This needs
  that the requests parse, the rate limiter lets the login through, the targets are ASCII and the log printer prints
  lines whose strings are ASCII, that the configured limits have room for this one message, and that
  \<open>ws.accept\<close> does not throw.\<close>

theorem registered_user_connects:
  assumes "prints_ascii pf"
    and "ascii (hr_target req)" "\<not> hr_upgrade req" "hr_method req = PostMethod"
      "target_path (hr_target req) = ''/api/auth/register''"
      "credentials_of pf req = Some (u, p)" "u \<noteq> []" "p \<noteq> []" "um_find (users (auth_service sv)) u = None"
    and "ascii (hr_target req')" "\<not> hr_upgrade req'" "hr_method req' = PostMethod"
      "target_path (hr_target req') = ''/api/auth/login''"
      "credentials_of pf req' = Some (u, p)" "fst (Allow (RemoteIp req') (rd_service rd') (rate_limiter (auth_service sv)))"
    and "hr_upgrade req''" "hr_authorization req'' = Some (''Bearer '' @ GenerateToken rnd')" "rnd' \<noteq> []"
      "rd_validate rd'' \<le> add_seconds (rd_service rd') (token_ttl (auth_config (auth_service sv)))"
    and "0 < ws_queue_limit_messages (app_config sv)"
      "length (auth_state_text (pf_dump pf) \<lparr>au_user_id = next_user_id (auth_service sv), au_username = u\<rparr>
         (GenerateResumeToken rnd'')) \<le> ws_queue_limit_bytes (app_config sv)"
  shows "\<exists>created sv1 token sv2 sv3 ws. OnHttpRead pf rd rnd ok req sv = Inr (Some created, sv1) \<and> rp_status created = 201 \<and>
    OnHttpRead pf rd' rnd' ok req' sv1 = Inr (Some token, sv2) \<and> rp_status token = 200 \<and>
    OnHttpRead pf rd'' rnd'' True req'' sv2 = Inr (None, sv3) \<and>
    lock_session (next_user_id (auth_service sv)) (net_of sv3) = Some (next_address sv, ws) \<and>
    as_user (ws_session ws) = \<lparr>au_user_id = next_user_id (auth_service sv), au_username = u\<rparr> \<and>
    send_queue ws = [auth_state_text (pf_dump pf) (as_user (ws_session ws)) (resume_token ws)]"
  using user_connects [OF assms] by blast

text \<open>With a printer that prints the members and refuses what is not ASCII.\<close>

definition print_platform :: Platform where
  "print_platform = play_platform\<lparr>pf_dump := sample_print\<rparr>"

lemma print_requests:
  "prints_ascii print_platform" "credentials_of print_platform (play_post name target) = Some (name, ''pw'')"
  "length (auth_state_text (pf_dump print_platform) \<lparr>au_user_id = 1, au_username = ''ann''\<rparr> (GenerateResumeToken [3])) \<le> 65536"
proof -
  show "prints_ascii print_platform" by (rule sample_prints_ascii) (simp add: print_platform_def play_platform_def)
  show "credentials_of print_platform (play_post name target) = Some (name, ''pw'')"
    using play_requests(2) by (simp add: print_platform_def credentials_of_def)
  have digits: "show_nat 0 = ''0''" "show_nat (Suc 0) = ''1''" by (simp_all add: show_nat_def show_base.simps [of 10] digit_char_def)
  show "length (auth_state_text (pf_dump print_platform) \<lparr>au_user_id = 1, au_username = ''ann''\<rparr> (GenerateResumeToken [3])) \<le> 65536"
    by (simp add: print_platform_def auth_state_text_def ToWsJson_def json_obj_def member_names_def GenerateResumeToken_def digits
        del: BytesToHex.simps)
qed

theorem registered_user_connects_witness:
  "\<exists>created sv1 token sv2 sv3 ws.
    OnHttpRead print_platform sample_readings [1] True (play_post ''ann'' ''/api/auth/register'') (make_ServerApp sample_config)
      = Inr (Some created, sv1) \<and> rp_status created = 201 \<and>
    OnHttpRead print_platform sample_readings [2] True (play_post ''ann'' ''/api/auth/login'') sv1 = Inr (Some token, sv2) \<and>
    rp_status token = 200 \<and> OnHttpRead print_platform sample_readings [3] True play_upgrade sv2 = Inr (None, sv3) \<and>
    lock_session 1 (net_of sv3) = Some (0, ws) \<and> as_user (ws_session ws) = \<lparr>au_user_id = 1, au_username = ''ann''\<rparr>"
proof -
  have "app_config (make_ServerApp sample_config) = sample_config" "ws_queue_limit_bytes sample_config = 65536"
    by (simp_all add: make_ServerApp_def sample_config_def)
  then show ?thesis
    using registered_user_connects [where sv = "make_ServerApp sample_config" and pf = print_platform and rd = sample_readings
        and rd' = sample_readings and rd'' = sample_readings and rnd = "[1]" and rnd' = "[2]" and rnd'' = "[3]"
        and req = "play_post ''ann'' ''/api/auth/register''" and req' = "play_post ''ann'' ''/api/auth/login''" and req'' = play_upgrade
        and u = "''ann''" and p = "''pw''" and ok = True] print_requests play_limits(1)
    by (auto simp: play_requests play_paths play_start target_path_def)
qed

end
