(* ===== verification/ContractServer.thy ===== *)
theory ContractServer
  imports Contract UserJourney
begin

text \<open>
  The WebSocket half of the message contract on the whole server: every message that is queued or written
  on a WebSocket is the text of an envelope of the contract, in every reachable state.
\<close>

section \<open>WebSocket messages\<close>

definition snapshot_schema :: schema where
  "snapshot_schema = SRecord [(''version'', SInt), (''state'', SOneOf [''auth_only'']), (''issuedAt'', SText),
     (''user'', user_schema)]"

definition ws_events :: "(string \<times> schema) list" where
  "ws_events = session_events @
     [(''auth_state'', SRecord [(''userId'', SInt), (''username'', SText), (''resumeToken'', SText),
         (''snapshotVersion'', SInt)]),
      (''echo'', SOpen [(''message'', SText), (''userId'', SInt)]),
      (''resync_state'', SRecord [(''resumeToken'', SText), (''snapshot'', snapshot_schema)])]"

definition ws_error_codes :: "string list" where
  "ws_error_codes = [''bad_request'', ''invalid_resume_token'', ''session_not_found'', ''session_closed'',
     ''not_participant'', ''input_invalid'', ''queue_timeout'']"

definition event_envelope :: "string \<Rightarrow> schema \<Rightarrow> schema" where
  "event_envelope e s = SRecord [(''t'', SOneOf [''event'']), (''seq'', SUnsigned), (''event'', SOneOf [e]), (''p'', s)]"

definition error_envelope :: schema where
  "error_envelope = SRecord [(''t'', SOneOf [''error'']), (''seq'', SUnsigned), (''event'', SNull),
     (''p'', SRecord [(''code'', SOneOf ws_error_codes), (''message'', SText)])]"

definition ws_message :: "json \<Rightarrow> bool" where
  "ws_message j \<longleftrightarrow> conforms error_envelope j \<or> list_ex (\<lambda>(e, s). conforms (event_envelope e s) j) ws_events"

definition contract_text :: "(json \<Rightarrow> string) \<Rightarrow> string \<Rightarrow> bool" where
  "contract_text dump m \<longleftrightarrow> (\<exists>j. m = dump j \<and> ws_message j)"

text \<open>All that a session has in its queue or has handed to the stream.\<close>

definition typed_ws :: "(json \<Rightarrow> string) \<Rightarrow> WebSocketSession \<Rightarrow> bool" where
  "typed_ws dump ws \<longleftrightarrow> list_all (contract_text dump) (send_queue ws @ written_of (stream_calls ws))"

lemma error_text:
  "code \<in> set ws_error_codes \<Longrightarrow>
     contract_text dump (dump (ToWsJson \<lparr>env_type = ''error'', env_event = e, env_seq = n,
       env_payload = json_obj [(''code'', JString code), (''message'', JString m)]\<rparr>))"
  unfolding contract_text_def ws_message_def by (rule exI, rule conjI, rule refl) (simp add: error_envelope_def ToWsJson_def)

lemma event_text:
  assumes "has_schema ws_events e p"
  shows "contract_text dump (dump (ToWsJson \<lparr>env_type = ''event'', env_event = e, env_seq = n, env_payload = p\<rparr>))"
proof -
  obtain s where "(e, s) \<in> set ws_events" "conforms s p"
    using assms by (auto simp: has_schema_def split: option.splits dest: map_of_SomeD)
  moreover from this(2)
  have "conforms (event_envelope e s) (ToWsJson \<lparr>env_type = ''event'', env_event = e, env_seq = n, env_payload = p\<rparr>)"
    by (simp add: event_envelope_def ToWsJson_def)
  ultimately show ?thesis by (auto simp: contract_text_def ws_message_def list_ex_iff)
qed

lemma session_event_ws: "has_schema session_events e p \<Longrightarrow> has_schema ws_events e p"
  by (auto simp: has_schema_def ws_events_def map_add_def split: option.splits)

section \<open>One session\<close>

lemma typed_init: "typed_ws dump (make_WebSocketSession session n b)"
  by (simp add: typed_ws_def make_WebSocketSession_def)

lemma typed_fields [simp]:
  "typed_ws dump (ws\<lparr>pending_read := b\<rparr>) = typed_ws dump ws"
  "typed_ws dump (ws\<lparr>ws_snapshot := j\<rparr>) = typed_ws dump ws"
  "typed_ws dump (ws\<lparr>resume_token := t\<rparr>) = typed_ws dump ws"
  by (simp_all add: typed_ws_def)

lemma typed_WriteNext: "typed_ws dump ws \<Longrightarrow> typed_ws dump (WriteNext ws)"
  by (cases "send_queue ws") (simp_all add: typed_ws_def WriteNext_def written_of_append)

lemma typed_enqueue:
  assumes "typed_ws dump ws" "contract_text dump m"
  shows "typed_ws dump (EnqueueMessage m ws)"
proof -
  have "typed_ws dump (ws\<lparr>send_queue := send_queue ws @ [m], queued_bytes := b\<rparr>)" for b
    using assms by (simp add: typed_ws_def)
  moreover have "typed_ws dump (TriggerBackpressureClose ws)"
    using assms(1) by (simp add: typed_ws_def TriggerBackpressureClose_def written_of_append)
  ultimately show ?thesis
    using assms(1) by (simp add: EnqueueMessage_def typed_WriteNext Let_def)
qed

lemma typed_written:
  assumes "typed_ws dump ws"
  shows "typed_ws dump (OnWrite failed ws)"
proof (cases "send_queue ws")
  case Nil
  with assms show ?thesis by (simp add: OnWrite_def typed_ws_def Let_def)
next
  case (Cons front rest)
  let ?ws = "ws\<lparr>pending_writes := tl (pending_writes ws), queued_bytes := queued_bytes ws - length front, send_queue := rest\<rparr>"
  have rest: "typed_ws dump (?ws\<lparr>closing := c\<rparr>)" "typed_ws dump (?ws\<lparr>writing := w\<rparr>)" for c w
    using assms Cons by (simp_all add: typed_ws_def)
  have "OnWrite failed ws = (if failed then ?ws\<lparr>closing := True\<rparr>
      else if rest \<noteq> [] then WriteNext (?ws\<lparr>writing := False\<rparr>) else ?ws\<lparr>writing := False\<rparr>)"
    using Cons by (simp add: OnWrite_def Let_def)
  then show ?thesis using rest typed_WriteNext by presburger
qed

lemma typed_DoRead: "typed_ws dump ws \<Longrightarrow> typed_ws dump (DoRead ws)"
  by (simp add: typed_ws_def DoRead_def written_of_append)

lemma typed_error:
  "typed_ws dump ws \<Longrightarrow> code \<in> set ws_error_codes \<Longrightarrow> typed_ws dump (SendError dump code m seq ws)"
  "typed_ws dump ws \<Longrightarrow> code \<in> set ws_error_codes \<Longrightarrow> typed_ws dump (SendServerError dump code m ws)"
  unfolding SendError_def SendServerError_def by (rule typed_enqueue, assumption, erule error_text)+

lemma typed_event: "typed_ws dump ws \<Longrightarrow> has_schema ws_events e p \<Longrightarrow> typed_ws dump (SendServerEvent dump e p ws)"
  unfolding SendServerEvent_def by (rule typed_enqueue, assumption, erule event_text)

lemma typed_auth_state: "typed_ws dump ws \<Longrightarrow> typed_ws dump (SendAuthState dump ws)"
  unfolding SendAuthState_def
  by (erule typed_enqueue, rule event_text) (simp add: has_schema_def ws_events_def session_events_def)

lemma typed_resync_state:
  "typed_ws dump ws \<Longrightarrow> conforms snapshot_schema (ws_snapshot ws) \<Longrightarrow> typed_ws dump (SendResyncState dump seq ws)"
  unfolding SendResyncState_def
  by (erule typed_enqueue, rule event_text) (simp add: has_schema_def ws_events_def session_events_def)

lemma BuildSnapshot_conforms: "conforms snapshot_schema (BuildSnapshot now ws)"
  by (simp add: BuildSnapshot_def snapshot_schema_def user_schema_def)

lemma typed_echo:
  assumes "typed_ws dump ws" "is_object p" "json_contains p ''message''" "is_string (json_at p ''message'')"
  shows "typed_ws dump (SendEcho dump p seq ws)"
proof -
  obtain m where p: "p = JObject m" using assms(2) by (cases p) auto
  have "has_schema ws_events ''echo'' (json_set ''userId'' (JInteger (au_user_id (as_user (ws_session ws)))) p)"
    using assms(3,4)
    by (auto simp: p has_schema_def ws_events_def session_events_def json_contains_def json_at_def)
  then show ?thesis unfolding SendEcho_def by (intro typed_enqueue [OF assms(1)] event_text)
qed

lemma HandleEcho_typed: "typed_ws dump ws \<Longrightarrow> typed_ws dump (HandleEcho dump p seq ws)"
  by (simp add: HandleEcho_def typed_error typed_echo ws_error_codes_def split: option.split)

lemma HandleResync_typed:
  "typed_ws dump ws \<Longrightarrow> typed_ws dump (fst (HandleResyncRequest dump rnd n1 n2 m seq ws rc))"
  by (simp add: HandleResyncRequest_def Let_def split_beta typed_error typed_resync_state BuildSnapshot_conforms
      ws_error_codes_def split: option.split)

text \<open>The codes with which an input is refused.\<close>

lemma input_codes:
  "fst (RunInput n input sm) = Some (code, m) \<Longrightarrow> code \<in> set ws_error_codes"
  "fst (SubmitInput input sm) = Some (code, m) \<Longrightarrow> code \<in> set ws_error_codes"
proof -
  show run: "fst (RunInput n input sm) = Some (code, m) \<Longrightarrow> code \<in> set ws_error_codes" for n
    by (auto simp: RunInput_def SubmitOnStrand_def Let_def split_beta ws_error_codes_def split: option.splits if_splits)
  show "fst (SubmitInput input sm) = Some (code, m) \<Longrightarrow> code \<in> set ws_error_codes"
    using run by (auto simp: SubmitInput_def SubmitLookup_def ws_error_codes_def split: sum.splits option.splits)
qed

lemma HandleSessionInput_typed:
  "typed_ws dump ws \<Longrightarrow> typed_ws dump (fst (HandleSessionInput dump m seq ws sm))"
  using input_codes(2) [of "input_of_message m ws" sm]
  by (auto simp: HandleSessionInput_def Let_def split_beta typed_error ws_error_codes_def split: option.split)

lemma HandleMessage_typed:
  "typed_ws dump ws \<Longrightarrow> typed_ws dump (fst (HandleMessage dump rnd n1 n2 m ws rc sm))"
  by (simp add: HandleMessage_def Let_def split_beta typed_error HandleEcho_typed HandleResync_typed
      HandleSessionInput_typed ws_error_codes_def split: option.split)

section \<open>All sessions\<close>

definition typed_net :: "(json \<Rightarrow> string) \<Rightarrow> Network \<Rightarrow> bool" where
  "typed_net dump net \<longleftrightarrow> (\<forall>r ws. um_find (ws_heap net) r = Some ws \<longrightarrow> typed_ws dump ws)"

lemma typed_net_ws: "typed_net dump net \<Longrightarrow> um_find (ws_heap net) r = Some ws \<Longrightarrow> typed_ws dump ws"
  by (simp add: typed_net_def)

lemma typed_net_put: "typed_net dump net \<Longrightarrow> typed_ws dump ws \<Longrightarrow> typed_net dump (put_ws r ws net)"
  by (simp add: typed_net_def put_ws_def)

lemma typed_net_heap: "ws_heap net' = ws_heap net \<Longrightarrow> typed_net dump net' = typed_net dump net"
  by (simp add: typed_net_def)

lemma lock_session_typed: "typed_net dump net \<Longrightarrow> lock_session u net = Some (r, ws) \<Longrightarrow> typed_ws dump ws"
  by (auto simp: lock_session_def typed_net_def split: option.splits)

lemma typed_net_event:
  "typed_net dump net \<Longrightarrow> has_schema ws_events e p \<Longrightarrow> typed_net dump (SendEventToUser dump u e p net)"
  by (auto simp: SendEventToUser_def lock_session_typed intro!: typed_net_put typed_event split: option.split)

lemma typed_net_error:
  "typed_net dump net \<Longrightarrow> code \<in> set ws_error_codes \<Longrightarrow> typed_net dump (SendErrorToUser dump u code m net)"
  by (auto simp: SendErrorToUser_def lock_session_typed intro!: typed_net_put typed_error(2) split: option.split)

lemma typed_net_destroy: "typed_net dump net \<Longrightarrow> typed_net dump (DestroySession r net)"
  by (auto simp: typed_net_def DestroySession_def Let_def split: option.splits if_splits)

text \<open>The real delivery of session events is a receiver that keeps every connection typed.\<close>

interpretation typed_backend: typed_sink "backend_send dump" backend_finalize "\<lambda>b. typed_net dump (network b)"
  for dump
  by unfold_locales (simp_all add: backend_send_def backend_finalize_def typed_net_event session_event_ws)

section \<open>Every step keeps the connections typed\<close>

definition typed_server :: "(json \<Rightarrow> string) \<Rightarrow> Server \<Rightarrow> bool" where
  "typed_server dump sv \<longleftrightarrow> typed_net dump (net_of sv)"

lemma typed_server_init: "typed_server dump (make_ServerApp cfg)"
  by (simp add: typed_server_def typed_net_def make_ServerApp_def make_Network_def SetObservability_def)

lemma typed_server_ws: "typed_server dump sv \<Longrightarrow> ws_at r sv = Some ws \<Longrightarrow> typed_ws dump ws"
  by (simp add: typed_server_def typed_net_def ws_at_def)

lemma typed_server_put: "typed_server dump sv \<Longrightarrow> typed_ws dump ws \<Longrightarrow> typed_server dump (put_ws_at r ws sv)"
  by (simp add: typed_server_def put_ws_at_def with_network_def typed_net_put)

lemma typed_server_fields [simp]:
  "typed_server dump (sv\<lparr>session_manager := sm\<rparr>) = typed_server dump sv"
  "typed_server dump (sv\<lparr>reconnect_service := rc\<rparr>) = typed_server dump sv"
  "typed_server dump (sv\<lparr>match_queue := q\<rparr>) = typed_server dump sv"
  "typed_server dump (sv\<lparr>next_address := n\<rparr>) = typed_server dump sv"
  "typed_server dump (with_game g sv) = typed_net dump (network (snd g))"
  "typed_server dump (with_network net sv) = typed_net dump net"
  "typed_server dump (with_observability ob sv) = typed_server dump sv"
  by (simp_all add: typed_server_def with_game_def with_network_def with_observability_def typed_net_def)

lemma OnRead_typed:
  "typed_server dump sv \<Longrightarrow> typed_server dump (OnRead parse dump failed data rnd n1 n2 r sv)"
  by (auto simp: OnRead_def Let_def split_beta ws_error_codes_def split: option.split
      intro!: typed_server_put typed_DoRead typed_error HandleMessage_typed dest: typed_server_ws)

lemma InputTask_typed: "typed_server dump sv \<Longrightarrow> typed_server dump (InputTask dump r n input seq sv)"
  by (auto simp: InputTask_def Let_def split_beta split: option.split
      intro!: typed_server_put typed_DoRead typed_error dest: typed_server_ws input_codes(1))

lemma WriteCompleted_typed: "typed_server dump sv \<Longrightarrow> typed_server dump (WriteCompleted failed r sv)"
  by (auto simp: WriteCompleted_def split: option.split intro!: typed_server_put typed_written dest: typed_server_ws)

lemma SessionDestroyed_typed: "typed_server dump sv \<Longrightarrow> typed_server dump (SessionDestroyed r sv)"
  by (simp add: SessionDestroyed_def typed_net_destroy) (simp add: typed_server_def typed_net_destroy)

lemma StrandStart_typed: "typed_server dump sv \<Longrightarrow> typed_server dump (StrandStart dump now n sv)"
  using typed_backend.start_typed [of dump "backend sv" now n "session_manager sv"]
  by (simp add: StrandStart_def game_of_def) (simp add: typed_server_def)

lemma TickTimer_typed:
  assumes "server_inv sv" "typed_server dump sv" "TickTimer dump now ended_at n sv = Inr sv'"
  shows "typed_server dump sv'"
proof -
  have "sm_inv (session_manager sv)" using assms(1) by (simp add: server_inv_def game_good_def game_of_def)
  then show ?thesis
    using assms(2,3) typed_backend.timer_typed [of "session_manager sv" dump "backend sv" now ended_at n]
    by (auto simp: TickTimer_def game_of_def typed_server_def [of dump sv] split: sum.splits)
qed

lemma QueueTimer_typed:
  assumes "server_inv sv" "typed_server dump sv"
  shows "typed_server dump (QueueTimer dump failed now sv)"
proof -
  let ?typed = "\<lambda>g. typed_net dump (network (snd g))"
  have create: "?typed (fold game_create pss g) = ?typed g" for pss g
    by (induction pss arbitrary: g) (simp_all add: game_create_def)
  have late: "?typed g \<Longrightarrow> ?typed (fold (timeout_error (game_send_error dump)) es g)" for es g
    by (induction es arbitrary: g) (simp_all add: game_send_error_def typed_net_error ws_error_codes_def)
  have "?typed (game_of sv)" using assms(2) by (simp add: typed_server_def game_of_def)
  then have "?typed (snd (OnTick game_create (game_send_error dump) failed now (match_queue sv) (game_of sv)))"
    using OnTick_spec(3) [of "match_queue sv" game_create "game_send_error dump" now "game_of sv"] assms(1)
    by (cases failed) (simp_all add: OnTick_def create late server_inv_def)
  then show ?thesis by (simp add: QueueTimer_def split_beta)
qed

lemma typed_net_register: "typed_net dump net \<Longrightarrow> typed_net dump (Register u r net)"
  by (simp add: Register_def typed_net_def)

lemma RunSession_typed: "typed_server dump sv \<Longrightarrow> typed_server dump (RunSession dump rnd n1 n2 r sv)"
  by (auto simp: RunSession_def Let_def split_beta split: option.split
      intro!: typed_server_put typed_net_register typed_net_put typed_DoRead typed_auth_state)
    (simp_all add: typed_server_ws typed_server_def)

lemma SendResponse_typed:
  "SendResponse pf rd t start req res sv = Inr (res', sv') \<Longrightarrow> typed_server dump sv' = typed_server dump sv"
  by (auto simp: SendResponse_def Let_def split: sum.splits)

lemma HandleRequest_typed:
  assumes "typed_server dump sv" "HandleRequest pf rd rnd req sv = Inr (res, sv')"
  shows "typed_server dump sv'"
proof -
  obtain ob where ob: "ob = IncrementRequest (snd (NextTraceId (rd_trace rd) (observability (net_of sv))))" by simp
  obtain res0 sv0 where "Dispatch pf rd rnd req (with_observability ob sv) = Inr (res0, sv0)"
    and send: "SendResponse pf rd (fst (NextTraceId (rd_trace rd) (observability (net_of sv)))) (rd_start rd) req res0 sv0
      = Inr (res, sv')"
    using assms(2) by (auto simp: HandleRequest_def split_beta Let_def ob split: sum.splits)
  from Dispatch_network [OF this(1)] assms(1) have "typed_server dump sv0"
    by (simp add: typed_server_def typed_net_def with_observability_def with_network_def)
  then show ?thesis using SendResponse_typed [OF send] by simp
qed

lemma OnHttpRead_typed:
  assumes "typed_server (pf_dump pf) sv" "OnHttpRead pf rd rnd ok req sv = Inr (res, sv')"
  shows "typed_server (pf_dump pf) sv'"
proof (cases "hr_upgrade req")
  case False
  with assms show ?thesis by (auto simp: OnHttpRead_def intro: HandleRequest_typed split: sum.splits)
next
  case True
  let ?sv1 = "snd (ExtractAuthSession req (rd_validate rd) sv)"
  have t1: "typed_server (pf_dump pf) ?sv1" using assms(1) by (simp add: typed_server_def)
  have "typed_server (pf_dump pf) (AcceptWebSocket pf rd rnd session ?sv1)" for session
    using t1 by (simp add: AcceptWebSocket_def Let_def RunSession_typed typed_server_put typed_init)
  with True assms(2) t1 show ?thesis
    by (auto simp: OnHttpRead_def HandleWebSocket_def split_beta SendResponse_typed split: option.splits sum.splits if_splits
        prod.splits)
qed

lemma server_step_typed:
  assumes "server_step pf sv sv'" "server_inv sv" "typed_server (pf_dump pf) sv"
  shows "typed_server (pf_dump pf) sv'"
  using assms
  by (induction rule: server_step.induct)
    (auto intro: OnHttpRead_typed OnRead_typed InputTask_typed WriteCompleted_typed SessionDestroyed_typed
      StrandStart_typed TickTimer_typed QueueTimer_typed)

lemma reachable_typed: "reachable pf cfg sv \<Longrightarrow> typed_server (pf_dump pf) sv"
proof (induction rule: reachable.induct)
  case (step sv sv')
  then show ?case using server_step_typed reachable_inv by blast
qed (rule typed_server_init)

section \<open>Properties\<close>

text \<open>C10: Every message that the server queues or writes on a WebSocket, in every interleaving of requests,
  messages, timers and tasks, is the text of an envelope of the contract: an event with one of its seven names
  and a payload with exactly the members and kinds of this name (an echo keeps what the client put beside the
  message), or an error with one of its codes.\<close>

theorem ws_messages_typed:
  assumes "reachable pf cfg sv" "ws_at r sv = Some ws"
  shows "list_all (contract_text (pf_dump pf)) (send_queue ws @ written_of (stream_calls ws))"
  using typed_server_ws [OF reachable_typed [OF assms(1)] assms(2)] by (simp add: typed_ws_def)

theorem ws_messages_typed_witness:
  "\<exists>sv ws. reachable play_platform sample_config sv \<and> ws_at 0 sv = Some ws \<and> send_queue ws = [''body''] \<and>
     contract_text (\<lambda>j. ''body'') ''body''"
proof -
  obtain sv ws where run: "reachable play_platform sample_config sv" "ws_at 0 sv = Some ws" "send_queue ws = [''body'']"
    using sample_connected by blast
  with ws_messages_typed [OF run(1,2)] show ?thesis by (auto simp: play_platform_def)
qed

end
