(* ===== verification/RestContract.thy ===== *)
theory RestContract
  imports Contract ServerSteps
begin

text \<open>
  The REST half of the message contract (\<open>design/protocol/contract.md\<close>): for every endpoint the status and
  the schema of its success, and the statuses and codes of its errors; and the proof that every answer
  of \<open>http_session.cpp\<close> is one that the contract lists for the endpoint that was asked.
\<close>

section \<open>The contract\<close>

definition meta_schema :: schema where
  "meta_schema = SRecord [(''timestamp'', SText)]"

definition success_body :: "schema \<Rightarrow> schema" where
  "success_body data = SRecord [(''success'', SExactly True), (''data'', data), (''error'', SNull), (''meta'', meta_schema)]"

definition error_body :: "string \<Rightarrow> schema" where
  "error_body code = SRecord [(''success'', SExactly False), (''data'', SNull),
     (''error'', SRecord [(''code'', SOneOf [code]), (''message'', SText), (''detail'', SNull)]), (''meta'', meta_schema)]"

record endpoint =
  ep_status :: nat
  ep_data :: schema
  ep_errors :: "(nat \<times> string) list"

definition standing_fields :: "(string \<times> schema) list" where
  "standing_fields = [(''userId'', SInt), (''username'', SText), (''rating'', SInt), (''wins'', SInt),
     (''losses'', SInt), (''matches'', SInt)]"

definition health_endpoint :: endpoint where
  "health_endpoint = \<lparr>ep_status = 200,
     ep_data = SRecord [(''status'', SOneOf [''ok'']), (''version'', SOneOf [''v1.0.0''])], ep_errors = []\<rparr>"

definition metrics_endpoint :: endpoint where
  "metrics_endpoint = \<lparr>ep_status = 200,
     ep_data = SRecord [(''requests'', SRecord [(''total'', SUnsigned), (''errors'', SUnsigned)]),
       (''connections'', SRecord [(''websocket'', SUnsigned)]), (''sessions'', SRecord [(''active'', SUnsigned)]),
       (''queue'', SRecord [(''length'', SUnsigned)])], ep_errors = []\<rparr>"

definition ops_endpoint :: endpoint where
  "ops_endpoint = \<lparr>ep_status = 200,
     ep_data = SRecord [(''activeSessions'', SUnsigned), (''queueLength'', SUnsigned),
       (''activeWebsocket'', SUnsigned), (''errorCount'', SUnsigned)], ep_errors = [(401, ''unauthorized'')]\<rparr>"

definition register_endpoint :: endpoint where
  "register_endpoint = \<lparr>ep_status = 201, ep_data = user_schema,
     ep_errors = [(400, ''bad_request''), (409, ''duplicate_user'')]\<rparr>"

definition login_endpoint :: endpoint where
  "login_endpoint = \<lparr>ep_status = 200,
     ep_data = SRecord [(''token'', SText), (''expiresAt'', SText), (''user'', user_schema)],
     ep_errors = [(401, ''unauthorized''), (429, ''rate_limited''), (400, ''bad_request'')]\<rparr>"

definition logout_endpoint :: endpoint where
  "logout_endpoint = \<lparr>ep_status = 200, ep_data = SRecord [(''loggedOut'', SExactly True)],
     ep_errors = [(401, ''unauthorized'')]\<rparr>"

definition join_endpoint :: endpoint where
  "join_endpoint = \<lparr>ep_status = 200,
     ep_data = SRecord [(''queued'', SExactly True), (''mode'', SOneOf [''normal'']), (''expiresAt'', SText)],
     ep_errors = [(401, ''unauthorized''), (400, ''bad_request''), (409, ''queue_duplicate'')]\<rparr>"

definition cancel_endpoint :: endpoint where
  "cancel_endpoint = \<lparr>ep_status = 200, ep_data = SRecord [(''canceled'', SExactly True)],
     ep_errors = [(401, ''unauthorized''), (404, ''queue_not_found'')]\<rparr>"

definition leaderboard_endpoint :: endpoint where
  "leaderboard_endpoint = \<lparr>ep_status = 200,
     ep_data = SRecord [(''page'', SUnsigned), (''size'', SUnsigned), (''total'', SUnsigned),
       (''entries'', SListOf (SRecord ((''rank'', SInt) # standing_fields)))],
     ep_errors = [(400, ''leaderboard_range'')]\<rparr>"

definition profile_endpoint :: endpoint where
  "profile_endpoint = \<lparr>ep_status = 200, ep_data = SRecord standing_fields, ep_errors = [(401, ''unauthorized'')]\<rparr>"

definition endpoints :: "((http_method \<times> string) \<times> endpoint) list" where
  "endpoints =
     [((GetMethod, ''/api/health''), health_endpoint), ((GetMethod, ''/metrics''), metrics_endpoint),
      ((GetMethod, ''/ops/status''), ops_endpoint), ((PostMethod, ''/api/auth/register''), register_endpoint),
      ((PostMethod, ''/api/auth/login''), login_endpoint), ((PostMethod, ''/api/auth/logout''), logout_endpoint),
      ((PostMethod, ''/api/queue/join''), join_endpoint), ((PostMethod, ''/api/queue/cancel''), cancel_endpoint),
      ((GetMethod, ''/api/leaderboard''), leaderboard_endpoint), ((GetMethod, ''/api/profile''), profile_endpoint)]"

text \<open>What an endpoint may answer: its success, or one of its errors.\<close>

definition may_answer :: "endpoint \<Rightarrow> nat \<Rightarrow> json \<Rightarrow> bool" where
  "may_answer ep status j \<longleftrightarrow> status = ep_status ep \<and> conforms (success_body (ep_data ep)) j \<or>
     list_ex (\<lambda>(s, code). status = s \<and> conforms (error_body code) j) (ep_errors ep)"

definition answers :: "(json \<Rightarrow> string) \<Rightarrow> endpoint \<Rightarrow> HttpResponse \<Rightarrow> bool" where
  "answers dump ep res \<longleftrightarrow> (\<exists>j. rp_body res = dump j \<and> may_answer ep (rp_status res) j)"

text \<open>The answers that the contract allows to a request: any other path is answered \<open>404\<close>, a refused
  WebSocket upgrade \<open>401\<close>.\<close>

definition endpoint_of :: "HttpRequest \<Rightarrow> endpoint option" where
  "endpoint_of req = map_of endpoints (hr_method req, target_path (hr_target req))"

definition answer_allowed :: "(json \<Rightarrow> string) \<Rightarrow> HttpRequest \<Rightarrow> HttpResponse \<Rightarrow> bool" where
  "answer_allowed dump req res \<longleftrightarrow>
     (if hr_upgrade req then rp_status res = 401 \<and> (\<exists>j. rp_body res = dump j \<and> conforms (error_body ''unauthorized'') j)
      else case endpoint_of req of
             None \<Rightarrow> rp_status res = 404 \<and> (\<exists>j. rp_body res = dump j \<and> conforms (error_body ''not_found'') j)
           | Some ep \<Rightarrow> answers dump ep res)"

section \<open>Every endpoint answers as listed\<close>

lemma error_conforms: "conforms (error_body code) (MakeErrorEnvelope now code m)"
  by (simp add: error_body_def meta_schema_def MakeErrorEnvelope_def)

lemma success_answers [intro]:
  "conforms (ep_data ep) d \<Longrightarrow> answers (pf_dump pf) ep (success pf rd (ep_status ep) d)"
  unfolding answers_def success_def
  by (rule exI [of _ "MakeSuccessEnvelope (rd_stamp rd) d"])
    (simp add: may_answer_def success_body_def meta_schema_def MakeSuccessEnvelope_def)

lemma failure_answers [intro]:
  "(status, code) \<in> set (ep_errors ep) \<Longrightarrow> answers (pf_dump pf) ep (failure pf rd status code m)"
  unfolding answers_def failure_def
  by (rule exI [of _ "MakeErrorEnvelope (rd_stamp rd) code m"])
    (auto simp: may_answer_def list_ex_iff intro!: disjI2 bexI error_conforms)

lemma success_of [simp]:
  "ep_status ep = status \<Longrightarrow> conforms (ep_data ep) d \<Longrightarrow> answers (pf_dump pf) ep (success pf rd status d)"
  using success_answers by blast

declare failure_answers [simp]

lemma health_answers: "answers (pf_dump pf) health_endpoint (HandleHealth pf rd)"
  by (simp add: HandleHealth_def health_endpoint_def)

lemma metrics_answers: "answers (pf_dump pf) metrics_endpoint (HandleMetrics pf rd sv)"
  by (simp add: HandleMetrics_def metrics_endpoint_def Let_def)

lemma ops_answers: "answers (pf_dump pf) ops_endpoint (HandleOpsStatus pf rd req sv)"
  by (simp add: HandleOpsStatus_def ops_endpoint_def Let_def)

lemma RegisterUser_codes:
  "RegisterUser pbkdf rnd u p st = (Inl (code, m), st') \<Longrightarrow> code \<in> {''bad_request'', ''duplicate_user''}"
  by (auto simp: RegisterUser_def Let_def split: if_splits option.splits)

lemma register_answers: "answers (pf_dump pf) register_endpoint (fst (HandleRegister pf rd rnd req sv))"
  by (auto simp: HandleRegister_def register_endpoint_def user_schema_def split: option.split sum.split prod.split
      dest: RegisterUser_codes)

lemma Login_codes:
  "Login pbkdf rnd now u p ip st = (Inl (code, m), st') \<Longrightarrow> code \<in> {''rate_limited'', ''unauthorized''}"
  by (auto simp: Login_def Let_def split: if_splits option.splits prod.splits)

lemma login_answers: "answers (pf_dump pf) login_endpoint (fst (HandleLogin pf rd rnd req sv))"
  by (auto simp: HandleLogin_def login_endpoint_def user_schema_def Let_def split: option.split sum.split prod.split
      dest: Login_codes)

text \<open>The endpoints behind the check of the token.\<close>

lemma with_session_answers:
  assumes "(401, ''unauthorized'') \<in> set (ep_errors ep)"
    and "\<And>s sv. answers (pf_dump pf) ep (fst (h s sv))"
  shows "answers (pf_dump pf) ep (fst (with_session pf rd req h sv))"
  using assms by (auto simp: with_session_def split: prod.split option.split)

lemma logout_answers: "answers (pf_dump pf) logout_endpoint (fst (HandleLogout pf rd s sv))"
  by (simp add: HandleLogout_def logout_endpoint_def)

lemma join_mode: "join_request pf req cfg = Some (mode, timeout) \<Longrightarrow> mode = ''normal''"
  by (auto simp: join_request_def split: option.splits if_splits)

lemma join_answers: "answers (pf_dump pf) join_endpoint (fst (HandleJoin pf rd req s sv))"
  by (auto simp: HandleJoin_def join_endpoint_def Join_def Let_def split: option.split prod.split dest: join_mode)

lemma cancel_answers: "answers (pf_dump pf) cancel_endpoint (fst (HandleCancel pf rd s sv))"
  by (simp add: HandleCancel_def cancel_endpoint_def Cancel_def split: option.split)

lemma profile_answers: "answers (pf_dump pf) profile_endpoint (fst (HandleProfile pf rd s sv))"
  by (simp add: HandleProfile_def profile_endpoint_def standing_fields_def Let_def)

lemma entry_conforms: "conforms (SRecord ((''rank'', SInt) # standing_fields)) (entry_json page sz i e)"
  by (simp add: standing_fields_def entry_json_def)

lemma entries_conform:
  "list_all (conforms (SRecord ((''rank'', SInt) # standing_fields)))
     (map (\<lambda>(i, e). entry_json page sz i e) (enumerate 0 es))"
  using entry_conforms by (simp add: list_all_iff split_beta)

lemma leaderboard_answers:
  "HandleLeaderboard pf rd query sv = Inr res \<Longrightarrow> answers (pf_dump pf) leaderboard_endpoint res"
  by (auto simp: HandleLeaderboard_def leaderboard_endpoint_def Let_def entries_conform split: option.splits sum.splits)

lemmas gated_answers = with_session_answers [OF _ logout_answers] with_session_answers [OF _ join_answers]
  with_session_answers [OF _ cancel_answers] with_session_answers [OF _ profile_answers]

lemma logout_gated: "answers (pf_dump pf) logout_endpoint (fst (with_session pf rd req (HandleLogout pf rd) sv))"
  by (rule gated_answers) (simp add: logout_endpoint_def)

lemma join_gated: "answers (pf_dump pf) join_endpoint (fst (with_session pf rd req (HandleJoin pf rd req) sv))"
  by (rule gated_answers) (simp add: join_endpoint_def)

lemma cancel_gated: "answers (pf_dump pf) cancel_endpoint (fst (with_session pf rd req (HandleCancel pf rd) sv))"
  by (rule gated_answers) (simp add: cancel_endpoint_def)

lemma profile_gated: "answers (pf_dump pf) profile_endpoint (fst (with_session pf rd req (HandleProfile pf rd) sv))"
  by (rule gated_answers) (simp add: profile_endpoint_def)

text \<open>Whatever the endpoint, \<open>Dispatch\<close> runs its handler.\<close>

lemma Dispatch_get:
  assumes "hr_method req = GetMethod"
  shows "target_path (hr_target req) = ''/api/health'' \<Longrightarrow> Dispatch pf rd rnd req sv = Inr (HandleHealth pf rd, sv)"
    "target_path (hr_target req) = ''/metrics'' \<Longrightarrow> Dispatch pf rd rnd req sv = Inr (HandleMetrics pf rd sv, sv)"
    "target_path (hr_target req) = ''/ops/status'' \<Longrightarrow> Dispatch pf rd rnd req sv = Inr (HandleOpsStatus pf rd req sv, sv)"
    "target_path (hr_target req) = ''/api/leaderboard'' \<Longrightarrow> Dispatch pf rd rnd req sv =
       (case HandleLeaderboard pf rd (target_query (hr_target req)) sv of Inl e \<Rightarrow> Inl e | Inr res \<Rightarrow> Inr (res, sv))"
    "target_path (hr_target req) = ''/api/profile'' \<Longrightarrow> Dispatch pf rd rnd req sv =
       Inr (with_session pf rd req (HandleProfile pf rd) sv)"
  using assms by (simp_all add: Dispatch_def)

lemma Dispatch_post:
  assumes "hr_method req = PostMethod"
  shows "target_path (hr_target req) = ''/api/auth/register'' \<Longrightarrow> Dispatch pf rd rnd req sv = Inr (HandleRegister pf rd rnd req sv)"
    "target_path (hr_target req) = ''/api/auth/login'' \<Longrightarrow> Dispatch pf rd rnd req sv = Inr (HandleLogin pf rd rnd req sv)"
    "target_path (hr_target req) = ''/api/auth/logout'' \<Longrightarrow> Dispatch pf rd rnd req sv =
       Inr (with_session pf rd req (HandleLogout pf rd) sv)"
    "target_path (hr_target req) = ''/api/queue/join'' \<Longrightarrow> Dispatch pf rd rnd req sv =
       Inr (with_session pf rd req (HandleJoin pf rd req) sv)"
    "target_path (hr_target req) = ''/api/queue/cancel'' \<Longrightarrow> Dispatch pf rd rnd req sv =
       Inr (with_session pf rd req (HandleCancel pf rd) sv)"
  using assms by (simp_all add: Dispatch_def)

lemma Dispatch_none:
  assumes "endpoint_of req = None"
  shows "Dispatch pf rd rnd req sv = Inr (failure pf rd 404 ''not_found'' msg_not_found, sv)"
proof -
  have "(hr_method req, target_path (hr_target req)) \<notin> set (map fst endpoints)"
    using assms by (simp add: endpoint_of_def map_of_eq_None_iff)
  then show ?thesis by (cases "hr_method req") (simp_all add: endpoints_def Dispatch_def Let_def)
qed

lemma Dispatch_answers:
  assumes "endpoint_of req = Some ep" "Dispatch pf rd rnd req sv = Inr (res, sv')"
  shows "answers (pf_dump pf) ep res"
proof -
  have mem: "((hr_method req, target_path (hr_target req)), ep) \<in> set endpoints"
    using assms(1) by (simp add: endpoint_of_def map_of_SomeD)
  show ?thesis
  proof (cases "hr_method req")
    case GetMethod
    then have "(target_path (hr_target req), ep) \<in>
        {(''/api/health'', health_endpoint), (''/metrics'', metrics_endpoint), (''/ops/status'', ops_endpoint),
         (''/api/leaderboard'', leaderboard_endpoint), (''/api/profile'', profile_endpoint)}"
      using mem by (simp add: endpoints_def)
    then show ?thesis
      using assms(2) profile_gated [of pf rd req sv]
      by (auto simp: Dispatch_get [OF GetMethod] health_answers metrics_answers ops_answers leaderboard_answers
          split: sum.splits)
  next
    case PostMethod
    then have "(target_path (hr_target req), ep) \<in>
        {(''/api/auth/register'', register_endpoint), (''/api/auth/login'', login_endpoint),
         (''/api/auth/logout'', logout_endpoint), (''/api/queue/join'', join_endpoint),
         (''/api/queue/cancel'', cancel_endpoint)}"
      using mem by (simp add: endpoints_def)
    then show ?thesis
      using assms(2) register_answers [of pf rd rnd req sv] login_answers [of pf rd rnd req sv]
        logout_gated [of pf rd req sv] join_gated [of pf rd req sv] cancel_gated [of pf rd req sv]
      by (auto simp: Dispatch_post [OF PostMethod])
  next
    case OtherMethod
    then show ?thesis using mem by (simp add: endpoints_def)
  qed
qed

section \<open>Properties\<close>

text \<open>C11: Every HTTP answer is one that the contract lists: an endpoint answers with its success status and a
  success envelope around data with exactly its members and kinds, or with one of its error statuses and an
  error envelope with the code of that status; any other path is answered 404 \<open>not_found\<close>, and a refused
  WebSocket upgrade 401 \<open>unauthorized\<close>.\<close>

theorem rest_answers_typed:
  assumes "OnHttpRead pf rd rnd ok req sv = Inr (Some res, sv')"
  shows "answer_allowed (pf_dump pf) req res"
proof (cases "hr_upgrade req")
  case True
  with assms show ?thesis
    by (auto simp: OnHttpRead_def HandleWebSocket_def SendResponse_def answer_allowed_def failure_def Let_def
        split: prod.splits option.splits sum.splits intro: error_conforms)
next
  case False
  with assms obtain sv1 sv2 where "Dispatch pf rd rnd req sv1 = Inr (res, sv2)"
    by (auto simp: OnHttpRead_def HandleRequest_def SendResponse_def Let_def split: prod.splits sum.splits)
  with False show ?thesis
    using Dispatch_none [of req pf rd rnd sv1] error_conforms
    by (cases "endpoint_of req") (auto simp: answer_allowed_def failure_def intro: Dispatch_answers)
qed

theorem rest_answers_typed_witness:
  "\<exists>res sv'. OnHttpRead (sample_platform (\<lambda>j. Some [])) sample_readings [] True (sample_request GetMethod ''/metrics'')
      (make_ServerApp sample_config) = Inr (Some res, sv') \<and>
     answers (\<lambda>j. ''body'') metrics_endpoint res \<and> rp_status res = 200"
proof -
  let ?pf = "sample_platform (\<lambda>j. Some [])" and ?req = "sample_request GetMethod ''/metrics''"
  have path: "target_path ''/metrics'' = ''/metrics''" by (simp add: target_path_def)
  have "\<exists>res sv'. OnHttpRead ?pf sample_readings [] True ?req (make_ServerApp sample_config) = Inr (Some res, sv') \<and>
      rp_status res = 200"
    by (simp add: OnHttpRead_def HandleRequest_def Dispatch_def HandleMetrics_def success_def SendResponse_def Log_def
        sample_request_def sample_platform_def path split_beta Let_def)
  then obtain res sv' where run: "OnHttpRead ?pf sample_readings [] True ?req (make_ServerApp sample_config)
      = Inr (Some res, sv')" "rp_status res = 200" by blast
  have "answers (\<lambda>j. ''body'') metrics_endpoint res"
    using rest_answers_typed [OF run(1)]
    by (simp add: answer_allowed_def endpoint_of_def endpoints_def sample_request_def sample_platform_def path)
  with run show ?thesis by blast
qed

end
