(* ===== verification/MatchJourney.thy ===== *)
theory MatchJourney
  imports UserJourney
begin

text \<open>
  The way of a match through the server: the queue timer of \<open>match_queue.cpp\<close> pairs the waiting users, the
  sessions of \<open>session_manager.cpp\<close> take their ticks, and \<open>result_service.cpp\<close> stores the results. The lemmas
  follow one pair from its places in the queue to its result, with other sessions going on around it.
\<close>

section \<open>The length of a match\<close>

lemma max_ticks_kept [simp]:
  "max_ticks (snd (CreateSession ps sm)) = max_ticks sm"
  "max_ticks (snd (RunInput n input sm)) = max_ticks sm"
  "max_ticks (snd (SubmitInput input sm)) = max_ticks sm"
  "max_ticks (fst (RunStart send now n w)) = max_ticks (fst w)"
  by (simp_all add: CreateSession_views RunInput_def SubmitInput_def RunStart_def split_beta Let_def
      split: option.split sum.split)

lemma RunTimer_max_ticks:
  "RunTimer send finalize now ended_at n w = Inr w' \<Longrightarrow> max_ticks (fst w') = max_ticks (fst w)"
  by (auto simp: RunTimer_def HandleTick_def FinishSession_def Let_def split: option.splits if_splits list.splits)

lemma fold_create_max_ticks: "max_ticks (fst (fold game_create pss g)) = max_ticks (fst g)"
  by (induction pss arbitrary: g) (simp_all add: game_create_def)

lemma fold_errors_sessions [simp]:
  "fst (fold (timeout_error (game_send_error dump)) es g) = fst g"
  by (induction es arbitrary: g) (simp_all add: game_send_error_def)

text \<open>The entries that are still waiting at \<open>now\<close>, in the order of the queue.\<close>

definition in_time :: "time_ns \<Rightarrow> MatchQueueService \<Rightarrow> (nat \<times> QueueEntry) list" where
  "in_time now q = filter (\<lambda>ne. now < expires_at (snd ne)) (queue q)"

lemma QueueTimer_sessions:
  assumes "server_inv sv"
  shows "game_of (QueueTimer dump False now sv) = fold game_create (pairs (in_time now (match_queue sv)))
      (fold (timeout_error (game_send_error dump)) (filter (\<lambda>ne. expired now (snd ne)) (queue (match_queue sv))) (game_of sv))"
proof -
  have "mq_inv (match_queue sv)" using assms by (simp add: server_inv_def)
  from OnTick_spec(3) [OF this, of game_create "game_send_error dump" now "game_of sv"]
  show ?thesis by (simp add: QueueTimer_def split_beta with_game_def game_of_def in_time_def)
qed

lemma QueueTimer_max_ticks:
  assumes "server_inv sv"
  shows "max_ticks (session_manager (QueueTimer dump failed now sv)) = max_ticks (session_manager sv)"
proof (cases failed)
  case True
  then show ?thesis by (simp add: QueueTimer_def OnTick_def with_game_def game_of_def)
next
  case False
  have "max_ticks (fst (game_of (QueueTimer dump False now sv))) = max_ticks (fst (game_of sv))"
    by (simp add: QueueTimer_sessions [OF assms] fold_create_max_ticks)
  with False show ?thesis by (simp add: game_of_def)
qed

lemma with_session_sessions:
  "(\<And>s sv. session_manager (snd (h s sv)) = session_manager sv) \<Longrightarrow>
     session_manager (snd (with_session pf rd req h sv)) = session_manager sv"
  using ExtractAuthSession_frame(2) [of req "rd_validate rd" sv]
  by (cases "ExtractAuthSession req (rd_validate rd) sv") (simp add: with_session_def split: option.split)

lemma handler_sessions:
  "session_manager (snd (HandleRegister pf rd rnd req sv)) = session_manager sv"
  "session_manager (snd (HandleLogin pf rd rnd req sv)) = session_manager sv"
  "session_manager (snd (with_session pf rd req (HandleLogout pf rd) sv)) = session_manager sv"
  "session_manager (snd (with_session pf rd req (HandleJoin pf rd req) sv)) = session_manager sv"
  "session_manager (snd (with_session pf rd req (HandleCancel pf rd) sv)) = session_manager sv"
  "session_manager (snd (with_session pf rd req (HandleProfile pf rd) sv)) = session_manager sv"
  by (simp_all add: with_session_sessions HandleRegister_def HandleLogin_def HandleLogout_def HandleJoin_def
      HandleCancel_def HandleProfile_def with_ratings_def Let_def split: option.split prod.split sum.split)

lemma Dispatch_sessions:
  assumes "Dispatch pf rd rnd req sv = Inr (res, sv')"
  shows "session_manager sv' = session_manager sv"
  using assms handler_sessions(1,2) [of pf rd rnd req sv] handler_sessions(3-6) [of pf rd req sv]
  unfolding Dispatch_def Let_def by (auto split: if_splits sum.splits)

lemma OnHttpRead_sessions:
  assumes "OnHttpRead pf rd rnd ok req sv = Inr (res, sv')"
  shows "session_manager sv' = session_manager sv"
proof -
  have accept: "session_manager (AcceptWebSocket pf rd rnd s sv) = session_manager sv" for s sv
    by (simp add: AcceptWebSocket_def RunSession_def put_ws_at_def with_network_def Let_def split_beta split: option.split)
  have unchanged: "ExtractAuthSession req t sv = (x, sv1) \<Longrightarrow> session_manager sv1 = session_manager sv" for t x sv1
    using ExtractAuthSession_frame(2) [of req t sv] by simp
  from assms show ?thesis
    by (auto simp: unchanged OnHttpRead_def HandleWebSocket_def HandleRequest_def SendResponse_def with_observability_def
        with_network_def accept Let_def split_beta split: if_splits sum.splits prod.splits option.splits
        dest!: Dispatch_sessions)
qed

lemma OnRead_max_ticks:
  "max_ticks (session_manager (OnRead parse dump failed data rnd n1 n2 r sv)) = max_ticks (session_manager sv)"
proof (cases "ws_at r sv")
  case (Some ws)
  have "max_ticks (snd (snd (HandleMessage dump rnd n1 n2 m ws' rc (session_manager sv)))) = max_ticks (session_manager sv)"
    for m ws' rc
    using HandleMessage_sm [of dump rnd n1 n2 m ws' rc "session_manager sv"] by auto
  with Some show ?thesis
    by (simp add: OnRead_def Let_def split_beta put_ws_at_def with_network_def split: option.split)
qed (simp add: OnRead_def)

lemma server_step_max_ticks:
  "server_step pf sv sv' \<Longrightarrow> server_inv sv \<Longrightarrow> max_ticks (session_manager sv') = max_ticks (session_manager sv)"
proof (induction rule: server_step.induct)
  case (input_task r sv ws n input seq)
  then show ?case by (simp add: InputTask_def Let_def split_beta put_ws_at_def with_network_def)
next
  case (ticked now ended_at n sv sv')
  then show ?case
    using RunTimer_max_ticks [where w = "game_of sv"]
    by (auto simp: TickTimer_def with_game_def game_of_def split: sum.splits)
qed (simp_all add: OnHttpRead_sessions OnRead_max_ticks QueueTimer_max_ticks WriteCompleted_def SessionDestroyed_def
    StrandStart_def put_ws_at_def with_network_def with_game_def game_of_def)

lemma reachable_session_ticks: "reachable pf cfg sv \<Longrightarrow> session_ticks (session_manager sv) = 5"
proof -
  assume "reachable pf cfg sv"
  then have "max_ticks (session_manager sv) = 5"
  proof (induction rule: reachable.induct)
    case (step sv sv')
    then show ?case using server_step_max_ticks reachable_inv by metis
  qed (simp add: make_ServerApp_def make_SessionManager_def)
  then show ?thesis by (simp add: session_ticks_def)
qed

section \<open>From the queue to a session\<close>

lemma pairs_nth:
  "2 * i + 1 < length es \<Longrightarrow> i < length (pairs es) \<and>
     pairs es ! i = [participant_of (snd (es ! (2 * i))), participant_of (snd (es ! (2 * i + 1)))]"
proof (induction es arbitrary: i rule: pairs.induct)
  case (1 a b rest)
  then show ?case by (cases i) auto
qed simp_all

text \<open>The sessions get consecutive numbers in the order of the pairs.\<close>

lemma fold_create_contexts:
  "next_session_id (fst (fold game_create pss g)) = next_session_id (fst g) + length pss \<and>
   (\<forall>m < next_session_id (fst g). um_find (contexts (fst (fold game_create pss g))) m = um_find (contexts (fst g)) m) \<and>
   (\<forall>i < length pss. um_find (contexts (fst (fold game_create pss g))) (next_session_id (fst g) + i) =
      Some (new_ctx (next_session_id (fst g) + i) (pss ! i)))"
proof (induction pss arbitrary: g)
  case (Cons ps pss)
  let ?n = "next_session_id (fst g)" and ?g = "game_create ps g" and ?final = "fold game_create pss (game_create ps g)"
  have n: "next_session_id (fst ?g) = ?n + 1" by (simp add: game_create_def CreateSession_views)
  have c: "um_find (contexts (fst ?g)) m = (if m = ?n then Some (new_ctx ?n ps) else um_find (contexts (fst g)) m)" for m
    by (simp add: game_create_def CreateSession_views)
  note ih = Cons.IH [of ?g, unfolded n]
  have "um_find (contexts (fst ?final)) (?n + i) = Some (new_ctx (?n + i) ((ps # pss) ! i))" if "i < length (ps # pss)" for i
  proof (cases i)
    case 0
    with ih c show ?thesis by simp
  next
    case (Suc j)
    then have "j < length pss" using that by simp
    with ih have "um_find (contexts (fst ?final)) (?n + 1 + j) = Some (new_ctx (?n + 1 + j) (pss ! j))" by blast
    with Suc show ?thesis by simp
  qed
  moreover have "um_find (contexts (fst ?final)) m = um_find (contexts (fst g)) m" if "m < ?n" for m
    using ih c that by simp
  ultimately show ?case using ih by simp
qed simp

lemma queue_pair_session:
  assumes "server_inv sv" "2 * i + 1 < length (in_time now (match_queue sv))"
  defines "n \<equiv> next_session_id (session_manager sv) + i"
  shows "um_find (contexts (session_manager (QueueTimer dump False now sv))) n = Some (new_ctx n
    [participant_of (snd (in_time now (match_queue sv) ! (2 * i))), participant_of (snd (in_time now (match_queue sv) ! (2 * i + 1)))])"
proof -
  let ?w = "in_time now (match_queue sv)"
  have sm: "session_manager (QueueTimer dump False now sv) = fst (game_of (QueueTimer dump False now sv))"
    by (simp add: game_of_def)
  note p = pairs_nth [OF assms(2)]
  show ?thesis
    unfolding sm QueueTimer_sessions [OF assms(1)] n_def
    using fold_create_contexts [of "pairs ?w"
        "fold (timeout_error (game_send_error dump)) (filter (\<lambda>ne. expired now (snd ne)) (queue (match_queue sv))) (game_of sv)"] p
    by (simp add: game_of_def)
qed

section \<open>From a session to its result\<close>

lemma start_ends_pending:
  assumes "um_find (contexts (fst w)) n = Some ctx"
  shows "\<exists>c. um_find (contexts (fst (session_step send finalize (StartOp n t) w))) n = Some c \<and> \<not> start_pending c \<and>
    participants c = participants ctx"
proof (cases w)
  case (Pair sm s)
  with assms show ?thesis
    by (cases "start_pending ctx") (simp_all add: RunStart_def StartSession_def ScheduleTick_def Let_def)
qed

lemma session_ticks_run:
  "sm_inv (fst w) \<Longrightarrow> session_ticks (fst (fold (session_step send finalize) ops w)) = session_ticks (fst w)"
  by (induction ops arbitrary: w) (simp_all add: session_step_inv session_ticks_step)

lemma ended_result:
  assumes "sm_inv sm" "results_match found sm" "um_find (contexts sm) n = Some c" "ended c"
    and "tick_sent c = k" "user_ids (participants c) = [a, b]"
  shows "\<exists>r. found (session_name n) = Some r \<and> mr_user1_id r = a \<and> mr_user2_id r = b \<and>
    mr_tick_count r = to_int32 (int k)"
proof -
  obtain time p1 p2 where r: "participants c = [p1, p2]" "found (session_name n) = Some (result_record time c p1 p2)"
    using assms(2-4) unfolding results_match_def by metis
  have "current_tick (simulation c) = int k"
    using ctx_local_parts(3) [OF sm_inv_ctx(1) [OF assms(1,3)]] assms(5) by simp
  with r assms(6) show ?thesis by (simp add: result_record_def Snapshot_def Let_def)
qed

text \<open>What the timer of the queue does for a pair that is in time.\<close>

lemma queued_pair_plays:
  assumes "reachable pf cfg sv" "2 * i + 1 < length (in_time now (match_queue sv))"
    and "n = next_session_id (session_manager sv) + i"
    and "a = entry_user (snd (in_time now (match_queue sv) ! (2 * i)))"
    and "b = entry_user (snd (in_time now (match_queue sv) ! (2 * i + 1)))"
    and "sv1 = QueueTimer dump False now sv"
  obtains ps where "server_inv sv1" "session_ticks (session_manager sv1) = 5"
    "game_in_session (game_of sv1) a" "game_in_session (game_of sv1) b"
    "um_find (contexts (session_manager sv1)) n = Some (new_ctx n ps)" "user_ids ps = [a, b]"
proof -
  let ?ps = "[participant_of (snd (in_time now (match_queue sv) ! (2 * i))),
    participant_of (snd (in_time now (match_queue sv) ! (2 * i + 1)))]"
  have inv: "server_inv sv" using assms(1) by (rule reachable_inv)
  have inv1: "server_inv sv1" unfolding assms(6) by (rule QueueTimer_inv [OF inv])
  have good: "sm_inv (session_manager sv1)" using inv1 by (simp add: server_inv_def game_good_def game_of_def)
  have ctx: "um_find (contexts (session_manager sv1)) n = Some (new_ctx n ?ps)"
    using queue_pair_session [OF inv assms(2)] assms(3,6) by simp
  have k: "session_ticks (session_manager sv1) = 5"
    using reachable_session_ticks [OF assms(1)] QueueTimer_max_ticks [OF inv] by (simp add: session_ticks_def assms(6))
  have ids: "user_ids ?ps = [a, b]" using assms(4,5) by (simp add: participant_of_def)
  have "live (session_manager sv1) n (new_ctx n ?ps)" using ctx by (simp add: live_def new_ctx_def)
  then have "game_in_session (game_of sv1) a" "game_in_session (game_of sv1) b"
    using live_session(1) [OF good] ids by (simp_all add: new_ctx_def game_in_session_def game_of_def IsUserInSession_def)
  then show ?thesis by (rule that [OF inv1 k _ _ ctx ids])
qed

lemma started_session_result:
  assumes inv: "sm_inv (fst g)" "backend_inv (snd g)" "results_match (backend_found (snd g)) (fst g)"
    and ctx: "um_find (contexts (fst g)) n = Some ctx" "user_ids (participants ctx) = [a, b]"
    and ticks: "session_ticks (fst g) \<le> ticks_in n post"
    and g'_def: "g' = fold (session_step (backend_send dump) backend_finalize) (pre @ StartOp n t # post) g"
  shows "\<exists>r. backend_found (snd g') (session_name n) = Some r \<and> mr_user1_id r = a \<and> mr_user2_id r = b \<and>
    mr_tick_count r = to_int32 (int (session_ticks (fst g)))"
proof -
  let ?step = "session_step (backend_send dump) backend_finalize"
  let ?g1 = "fold ?step pre g" and ?g2 = "?step (StartOp n t) (fold ?step pre g)"
  obtain c1 where c1: "um_find (contexts (fst ?g1)) n = Some c1" "participants c1 = participants ctx"
    using session_run_ctx [OF inv(1) ctx(1)] by blast
  have inv1: "sm_inv (fst ?g1)" using session_machine.run_keeps inv(1) by blast
  have k: "session_ticks (fst ?g2) = session_ticks (fst g)"
    unfolding session_ticks_step [OF inv1] by (rule session_ticks_run [OF inv(1)])
  obtain c2 where c2: "um_find (contexts (fst ?g2)) n = Some c2" "\<not> start_pending c2" "participants c2 = participants ctx"
    using start_ends_pending [OF c1(1)] c1(2) by metis
  have inv2: "sm_inv (fst ?g2)" using inv1 by (rule session_step_inv)
  have g': "g' = fold ?step post ?g2" by (simp add: g'_def)
  obtain c where c: "um_find (contexts (fst g')) n = Some c" "participants c = participants ctx"
    "tick_sent c = session_ticks (fst g)" "ended c"
    using session_progress [OF inv2 c2(1,2), of "backend_send dump" backend_finalize post] ticks c2(3)
    unfolding k g' by (auto simp: min_def)
  have "sm_inv (fst g')" "results_match (backend_found (snd g')) (fst g')"
    using backend.run_results [OF inv, of dump "pre @ StartOp n t # post"] by (simp_all add: g'_def Let_def)
  from ended_result [OF this c(1,4,3)] c(2) ctx(2) show ?thesis by simp
qed

text \<open>The same for any run of session operations after the timer of the queue, in whatever order they come.\<close>

lemma waiting_pair_gets_result:
  assumes "reachable pf cfg sv" "2 * i + 1 < length (in_time now (match_queue sv))"
    and "n = next_session_id (session_manager sv) + i"
    and "a = entry_user (snd (in_time now (match_queue sv) ! (2 * i)))"
    and "b = entry_user (snd (in_time now (match_queue sv) ! (2 * i + 1)))"
    and "5 \<le> ticks_in n post"
  shows "let g = game_of (QueueTimer dump False now sv);
      g' = fold (session_step (backend_send dump) backend_finalize) (pre @ StartOp n t # post) g
    in game_in_session g a \<and> game_in_session g b \<and>
       (\<exists>r. FindResult (session_name n) (repository (result_service (snd g'))) = Some r \<and>
          mr_user1_id r = a \<and> mr_user2_id r = b \<and> mr_tick_count r = 5)"
proof -
  let ?sv1 = "QueueTimer dump False now sv"
  obtain ps where plays: "server_inv ?sv1" "session_ticks (session_manager ?sv1) = 5"
    "game_in_session (game_of ?sv1) a" "game_in_session (game_of ?sv1) b"
    "um_find (contexts (session_manager ?sv1)) n = Some (new_ctx n ps)" "user_ids ps = [a, b]"
    by (rule queued_pair_plays [OF assms(1-5) refl])
  have "sm_inv (fst (game_of ?sv1))" "backend_inv (snd (game_of ?sv1))"
    "results_match (backend_found (snd (game_of ?sv1))) (fst (game_of ?sv1))"
    using plays(1) by (simp_all add: server_inv_def game_good_def)
  from started_session_result [OF this, of n "new_ctx n ps" a b post _ dump pre t] plays assms(6)
  show ?thesis by (simp add: game_of_def backend_found_def new_ctx_def Let_def to_int32_id)
qed

end
