(* ===== verification/ServerRuns.thy ===== *)
theory ServerRuns
  imports MatchJourney
begin

text \<open>
  Runs of the server as lists of events: one event for one handler that the executor runs, with what its
  environment gives it. The reachable servers are the ends of the runs. Seen from the session manager, a run of
  the server is a run of session operations, so what holds of those holds of the server.
\<close>

section \<open>Events\<close>

datatype server_event =
    HttpEvent Readings "byte list" bool HttpRequest
  | MessageEvent nat bool string "byte list" time_ns time_ns
  | InputTaskEvent nat nat SessionInput nat
  | WrittenEvent nat bool
  | DestroyedEvent nat
  | StartEvent nat time_ns
  | TickEvent nat time_ns time_ns
  | QueueEvent bool time_ns

text \<open>An event whose handler is not pending leaves the server as it is.\<close>

definition reading_at :: "nat \<Rightarrow> Server \<Rightarrow> bool" where
  "reading_at r sv \<longleftrightarrow> (case ws_at r sv of None \<Rightarrow> False | Some ws \<Rightarrow> pending_read ws)"

definition writing_at :: "nat \<Rightarrow> Server \<Rightarrow> bool" where
  "writing_at r sv \<longleftrightarrow> (case ws_at r sv of None \<Rightarrow> False | Some ws \<Rightarrow> pending_writes ws \<noteq> [])"

fun server_do :: "Platform \<Rightarrow> server_event \<Rightarrow> Server \<Rightarrow> exn + Server" where
  "server_do pf (HttpEvent rd rnd ok req) sv =
     (case OnHttpRead pf rd rnd ok req sv of Inl e \<Rightarrow> Inl e | Inr (res, sv') \<Rightarrow> Inr sv')"
| "server_do pf (MessageEvent r failed data rnd t1 t2) sv =
     Inr (if reading_at r sv then OnRead (pf_parse pf) (pf_dump pf) failed data rnd t1 t2 r sv else sv)"
| "server_do pf (InputTaskEvent r n input seq) sv =
     Inr (if reading_at r sv then InputTask (pf_dump pf) r n input seq sv else sv)"
| "server_do pf (WrittenEvent r failed) sv = Inr (if writing_at r sv then WriteCompleted failed r sv else sv)"
| "server_do pf (DestroyedEvent r) sv =
     Inr (if ws_at r sv \<noteq> None \<and> \<not> reading_at r sv \<and> \<not> writing_at r sv then SessionDestroyed r sv else sv)"
| "server_do pf (StartEvent n t) sv = Inr (StrandStart (pf_dump pf) t n sv)"
| "server_do pf (TickEvent n t ended_at) sv = TickTimer (pf_dump pf) t ended_at n sv"
| "server_do pf (QueueEvent failed t) sv =
     Inr (if timer_waiting (match_queue sv) then QueueTimer (pf_dump pf) failed t sv else sv)"

text \<open>A run; an exception that leaves a handler ends the process.\<close>

fun run_server :: "Platform \<Rightarrow> server_event list \<Rightarrow> Server \<Rightarrow> exn + Server" where
  "run_server pf [] sv = Inr sv"
| "run_server pf (ev # evs) sv = (case server_do pf ev sv of Inl e \<Rightarrow> Inl e | Inr sv' \<Rightarrow> run_server pf evs sv')"

lemma run_server_append:
  "run_server pf (evs @ evs') sv = (case run_server pf evs sv of Inl e \<Rightarrow> Inl e | Inr sv' \<Rightarrow> run_server pf evs' sv')"
  by (induction evs arbitrary: sv) (simp_all split: sum.split)

lemma server_do_step: "server_do pf ev sv = Inr sv' \<Longrightarrow> sv' = sv \<or> server_step pf sv sv'"
proof (induction pf ev sv rule: server_do.induct)
  case (1 pf rd rnd ok req sv)
  then show ?case by (auto intro: server_step.http split: sum.splits)
qed (auto simp: reading_at_def writing_at_def intro: server_step.intros split: option.splits if_splits)

lemma server_step_do: "server_step pf sv sv' \<Longrightarrow> \<exists>ev. server_do pf ev sv = Inr sv'"
proof (induction rule: server_step.induct)
  case (http rd rnd ok req sv res sv')
  then have "server_do pf (HttpEvent rd rnd ok req) sv = Inr sv'" by simp
  then show ?case ..
next
  case (message r sv ws failed data rnd now1 now2)
  then have "server_do pf (MessageEvent r failed data rnd now1 now2) sv =
      Inr (OnRead (pf_parse pf) (pf_dump pf) failed data rnd now1 now2 r sv)" by (simp add: reading_at_def)
  then show ?case ..
next
  case (input_task r sv ws n input seq)
  then have "server_do pf (InputTaskEvent r n input seq) sv = Inr (InputTask (pf_dump pf) r n input seq sv)"
    by (simp add: reading_at_def)
  then show ?case ..
next
  case (written r sv ws failed)
  then have "server_do pf (WrittenEvent r failed) sv = Inr (WriteCompleted failed r sv)" by (auto simp: writing_at_def)
  then show ?case ..
next
  case (destroyed r sv ws)
  then have "server_do pf (DestroyedEvent r) sv = Inr (SessionDestroyed r sv)"
    by (simp add: reading_at_def writing_at_def)
  then show ?case ..
next
  case (started sv now n)
  have "server_do pf (StartEvent n now) sv = Inr (StrandStart (pf_dump pf) now n sv)" by simp
  then show ?case ..
next
  case (ticked now ended_at n sv sv')
  then have "server_do pf (TickEvent n now ended_at) sv = Inr sv'" by simp
  then show ?case ..
next
  case (queue_timer sv failed now)
  then have "server_do pf (QueueEvent failed now) sv = Inr (QueueTimer (pf_dump pf) failed now sv)" by simp
  then show ?case ..
qed

lemma run_server_reachable:
  "reachable pf cfg sv \<Longrightarrow> run_server pf evs sv = Inr sv' \<Longrightarrow> reachable pf cfg sv'"
proof (induction evs arbitrary: sv)
  case (Cons ev evs)
  then obtain sv1 where sv1: "server_do pf ev sv = Inr sv1" "run_server pf evs sv1 = Inr sv'" by (auto split: sum.splits)
  then have "reachable pf cfg sv1" using server_do_step [OF sv1(1)] Cons.prems(1) by (auto intro: reachable.step)
  then show ?case using Cons.IH sv1(2) by blast
qed simp

text \<open>The reachable servers are the ends of runs.\<close>

lemma reachable_iff_run: "reachable pf cfg sv \<longleftrightarrow> (\<exists>evs. run_server pf evs (make_ServerApp cfg) = Inr sv)"
proof
  assume "reachable pf cfg sv"
  then show "\<exists>evs. run_server pf evs (make_ServerApp cfg) = Inr sv"
  proof (induction rule: reachable.induct)
    case start
    have "run_server pf [] (make_ServerApp cfg) = Inr (make_ServerApp cfg)" by simp
    then show ?case ..
  next
    case (step sv sv')
    then obtain evs ev where "run_server pf evs (make_ServerApp cfg) = Inr sv" "server_do pf ev sv = Inr sv'"
      using server_step_do by blast
    then have "run_server pf (evs @ [ev]) (make_ServerApp cfg) = Inr sv'" by (simp add: run_server_append)
    then show ?case ..
  qed
next
  assume "\<exists>evs. run_server pf evs (make_ServerApp cfg) = Inr sv"
  then show "reachable pf cfg sv" using run_server_reachable reachable.start by blast
qed

section \<open>The sessions of a run\<close>

text \<open>What a session operation does to the session manager does not depend on who receives the events.\<close>

definition session_only :: "session_op \<Rightarrow> SessionManager \<Rightarrow> SessionManager" where
  "session_only op sm = fst (session_step (\<lambda>u e p s. s) (\<lambda>r ps s. s) op (sm, ()))"

lemma session_step_manager: "fst (session_step send finalize op (sm, s)) = session_only op sm"
  by (cases op)
    (auto simp: session_only_def RunStart_def StartSession_def RunTimer_def HandleTick_def FinishSession_def Let_def
      split: option.splits list.splits sum.splits)

lemma session_run_manager:
  "fst (fold (session_step send finalize) ops (sm, s)) = fold session_only ops sm"
proof (induction ops arbitrary: sm s)
  case (Cons op ops)
  obtain sm' s' where w: "session_step send finalize op (sm, s) = (sm', s')" by fastforce
  then have "sm' = session_only op sm" using session_step_manager [of send finalize op sm s] by simp
  with w show ?case by (simp add: Cons.IH)
qed simp

text \<open>The session operations that an event can be.\<close>

fun quiet :: "session_op \<Rightarrow> bool" where
  "quiet (StartOp n t) = False"
| "quiet (TimerOp n t ended_at) = False"
| "quiet op = True"

fun is_ops :: "server_event \<Rightarrow> session_op list \<Rightarrow> bool" where
  "is_ops (StartEvent n t) ops \<longleftrightarrow> ops = [StartOp n t]"
| "is_ops (TickEvent n t ended_at) ops \<longleftrightarrow> ops = [TimerOp n t ended_at]"
| "is_ops ev ops \<longleftrightarrow> list_all quiet ops"

lemma OnRead_ops:
  "\<exists>ops. session_manager (OnRead parse dump failed data rnd t1 t2 r sv) = fold session_only ops (session_manager sv) \<and>
     list_all quiet ops"
proof -
  consider "session_manager (OnRead parse dump failed data rnd t1 t2 r sv) = session_manager sv"
    | input where "session_manager (OnRead parse dump failed data rnd t1 t2 r sv) = snd (SubmitInput input (session_manager sv))"
  proof -
    have "session_manager (OnRead parse dump failed data rnd t1 t2 r sv) = session_manager sv \<or>
        (\<exists>input. session_manager (OnRead parse dump failed data rnd t1 t2 r sv) = snd (SubmitInput input (session_manager sv)))"
      using HandleMessage_sm
      by (simp add: OnRead_def Let_def split_beta put_ws_at_def with_network_def split: option.split)
    then show thesis using that by blast
  qed
  then show ?thesis
  proof cases
    case 1
    then show ?thesis by (intro exI [of _ "[]"]) simp
  next
    case (2 input)
    then show ?thesis by (intro exI [of _ "[SubmitOp input]"]) (simp add: session_only_def)
  qed
qed

lemma InputTask_ops:
  "\<exists>ops. session_manager (InputTask dump r n input seq sv) = fold session_only ops (session_manager sv) \<and> list_all quiet ops"
proof (cases "ws_at r sv")
  case None
  then have "session_manager (InputTask dump r n input seq sv) = fold session_only [] (session_manager sv)"
    by (simp add: InputTask_def)
  then show ?thesis by (intro exI [of _ "[]"]) simp
next
  case (Some ws)
  then have "session_manager (InputTask dump r n input seq sv) = fold session_only [TaskOp n input] (session_manager sv)"
    by (simp add: InputTask_def session_only_def Let_def split_beta put_ws_at_def with_network_def)
  then show ?thesis by (intro exI [of _ "[TaskOp n input]"]) simp
qed

lemma create_ops:
  "game_good g \<Longrightarrow> distinct (entries_users es) \<Longrightarrow> (\<forall>u \<in> set (entries_users es). \<not> game_in_session g u) \<Longrightarrow>
     fst (fold game_create (pairs es) g) = fold session_only (map CreateOp (pairs es)) (fst g)"
proof (induction es arbitrary: g rule: pairs.induct)
  case (1 a b rest)
  let ?ps = "[participant_of (snd a), participant_of (snd b)]"
  have free: "free game_in_session ?ps g" using 1 by (auto simp: free_def participant_of_def split_beta)
  have "\<forall>u \<in> set (entries_users rest). \<not> game_in_session (game_create ?ps g) u"
    using 1 game.create_in [OF "1.prems"(1) free] by (auto simp: participant_of_def split_beta image_iff)
  moreover have "fst (game_create ?ps g) = session_only (CreateOp ?ps) (fst g)"
    using free by (simp add: session_only_def game_create_def free_can_create)
  ultimately show ?case
    using "1.IH" [OF game.create_good [OF "1.prems"(1) free]] "1.prems"(2) by simp
qed simp_all

lemma QueueTimer_ops:
  assumes inv: "server_inv sv"
  shows "\<exists>ops. session_manager (QueueTimer dump failed now sv) = fold session_only ops (session_manager sv) \<and> list_all quiet ops"
proof (cases failed)
  case True
  then have "session_manager (QueueTimer dump failed now sv) = fold session_only [] (session_manager sv)"
    by (simp add: QueueTimer_def OnTick_def with_game_def game_of_def)
  then show ?thesis by (intro exI [of _ "[]"]) simp
next
  case False
  let ?w = "in_time now (match_queue sv)"
  let ?g = "fold (timeout_error (game_send_error dump)) (filter (\<lambda>ne. expired now (snd ne)) (queue (match_queue sv))) (game_of sv)"
  have pre: "mq_inv (match_queue sv)" "game_good (game_of sv)" "apart game_in_session (match_queue sv) (game_of sv)"
    using inv by (simp_all add: server_inv_def)
  have g: "game_good ?g" "\<forall>u. game_in_session ?g u \<longleftrightarrow> game_in_session (game_of sv) u"
    using game.errors_in [OF pre(2)] by blast+
  have "distinct (entries_users ?w)"
    using pre(1) by (auto simp: in_time_def mq_inv_def queue_users_def distinct_map_filter)
  moreover have "\<forall>u \<in> set (entries_users ?w). \<not> game_in_session ?g u"
    using pre(3) g(2) by (force simp: apart_def queue_users_def in_time_def)
  ultimately have "fst (fold game_create (pairs ?w) ?g) = fold session_only (map CreateOp (pairs ?w)) (session_manager sv)"
    using create_ops [OF g(1)] by (simp add: game_of_def)
  then have "session_manager (QueueTimer dump False now sv) = fold session_only (map CreateOp (pairs ?w)) (session_manager sv)"
    using QueueTimer_sessions [OF inv, of dump now] by (metis game_of_def fst_conv)
  then show ?thesis using False by (intro exI [of _ "map CreateOp (pairs ?w)"]) (simp add: list_all_iff)
qed

lemma server_do_ops:
  assumes inv: "server_inv sv" and run: "server_do pf ev sv = Inr sv'"
  shows "\<exists>ops. session_manager sv' = fold session_only ops (session_manager sv) \<and> is_ops ev ops"
proof -
  have same: "session_manager sv' = session_manager sv \<Longrightarrow>
      \<exists>ops. session_manager sv' = fold session_only ops (session_manager sv) \<and> list_all quiet ops"
    by (intro exI [of _ "[]"]) simp
  show ?thesis
  proof (cases ev)
    case (HttpEvent rd rnd ok req)
    with run show ?thesis using same by (auto split: sum.splits dest: OnHttpRead_sessions)
  next
    case (MessageEvent r failed data rnd t1 t2)
    with run show ?thesis using same OnRead_ops by (auto split: if_splits)
  next
    case (InputTaskEvent r n input seq)
    with run show ?thesis using same InputTask_ops by (auto split: if_splits)
  next
    case (WrittenEvent r failed)
    with run show ?thesis
      using same by (auto simp: WriteCompleted_def put_ws_at_def with_network_def split: if_splits option.splits)
  next
    case (DestroyedEvent r)
    with run show ?thesis using same by (auto simp: SessionDestroyed_def with_network_def split: if_splits)
  next
    case (StartEvent n t)
    with run show ?thesis
      using session_step_manager [of "backend_send (pf_dump pf)" backend_finalize "StartOp n t" "session_manager sv" "backend sv"]
      by (auto simp: StrandStart_def with_game_def game_of_def)
  next
    case (TickEvent n t ended_at)
    with run show ?thesis
      using session_step_manager [of "backend_send (pf_dump pf)" backend_finalize "TimerOp n t ended_at" "session_manager sv"
          "backend sv"]
      by (auto simp: TickTimer_def with_game_def game_of_def split: sum.splits)
  next
    case (QueueEvent failed t)
    with run show ?thesis using same QueueTimer_ops [OF inv] by (auto split: if_splits)
  qed
qed

section \<open>The ticks of a run\<close>

fun tick_event :: "nat \<Rightarrow> server_event \<Rightarrow> bool" where
  "tick_event n (TickEvent m t ended_at) \<longleftrightarrow> m = n"
| "tick_event n ev \<longleftrightarrow> False"

definition timer_events :: "nat \<Rightarrow> server_event list \<Rightarrow> nat" where
  "timer_events n evs = length (filter (tick_event n) evs)"

lemma quiet_ticks: "list_all quiet ops \<Longrightarrow> ticks_in n ops = 0"
proof -
  have quiet_timer: "quiet op \<Longrightarrow> \<not> is_timer n op" for op by (cases op) simp_all
  assume "list_all quiet ops"
  then show ?thesis using quiet_timer by (auto simp: ticks_in_def list_all_iff filter_empty_conv)
qed

lemma is_ops_ticks: "is_ops ev ops \<Longrightarrow> ticks_in n ops = timer_events n [ev]"
proof (cases ev)
  case (StartEvent m t)
  then show "is_ops ev ops \<Longrightarrow> ?thesis" by (simp add: ticks_in_def timer_events_def)
next
  case (TickEvent m t ended_at)
  then show "is_ops ev ops \<Longrightarrow> ?thesis" by (simp add: ticks_in_def timer_events_def)
qed (simp_all add: quiet_ticks timer_events_def)

lemma server_do_inv: "server_do pf ev sv = Inr sv' \<Longrightarrow> server_inv sv \<Longrightarrow> server_inv sv'"
  using server_do_step server_step_inv by blast

lemma run_server_ops:
  "server_inv sv \<Longrightarrow> run_server pf evs sv = Inr sv' \<Longrightarrow>
     server_inv sv' \<and>
     (\<exists>ops. session_manager sv' = fold session_only ops (session_manager sv) \<and> ticks_in n ops = timer_events n evs)"
proof (induction evs arbitrary: sv)
  case Nil
  have "ticks_in n [] = timer_events n []" by (simp add: ticks_in_def timer_events_def)
  with Nil show ?case by (auto intro: exI [of _ "[]"])
next
  case (Cons ev evs)
  then obtain sv1 where sv1: "server_do pf ev sv = Inr sv1" "run_server pf evs sv1 = Inr sv'" by (auto split: sum.splits)
  obtain ops1 where ops1: "session_manager sv1 = fold session_only ops1 (session_manager sv)" "is_ops ev ops1"
    using server_do_ops [OF Cons.prems(1) sv1(1)] by blast
  from Cons.IH [OF server_do_inv [OF sv1(1) Cons.prems(1)] sv1(2)] obtain ops where
    ops: "server_inv sv'" "session_manager sv' = fold session_only ops (session_manager sv1)" "ticks_in n ops = timer_events n evs"
    by blast
  have "ticks_in n (ops1 @ ops) = timer_events n (ev # evs)"
    using ops(3) is_ops_ticks [OF ops1(2), of n] by (simp add: ticks_in_def timer_events_def)
  moreover have "session_manager sv' = fold session_only (ops1 @ ops) (session_manager sv)" using ops ops1 by simp
  ultimately show ?case using ops(1) by blast
qed

lemma session_only_run:
  "fold session_only ops sm = fst (fold (session_step (\<lambda>u e p s. s) (\<lambda>r ps s. s)) ops (sm, ()))"
  by (simp add: session_run_manager)

text \<open>A session whose task is started in a run, and whose timer expires often enough after that, ends.\<close>

lemma run_ends_session:
  assumes inv: "server_inv sv" and ctx: "um_find (contexts (session_manager sv)) n = Some ctx"
    and run: "run_server pf (pre @ StartEvent n t # post) sv = Inr sv'"
    and ticks: "session_ticks (session_manager sv) \<le> timer_events n post"
  shows "server_inv sv' \<and> (\<exists>c. um_find (contexts (session_manager sv')) n = Some c \<and> participants c = participants ctx \<and>
    tick_sent c = session_ticks (session_manager sv) \<and> ended c)"
proof -
  let ?step = "session_step (\<lambda>u e p s. s) (\<lambda>r ps s. s)"
  obtain sv1 sv2 where runs: "run_server pf pre sv = Inr sv1" "server_do pf (StartEvent n t) sv1 = Inr sv2"
    "run_server pf post sv2 = Inr sv'"
    using run by (auto simp: run_server_append split: sum.splits)
  obtain ops1 where ops1: "server_inv sv1" "session_manager sv1 = fold session_only ops1 (session_manager sv)"
    using run_server_ops [OF inv runs(1)] by blast
  have sv2: "server_inv sv2" "session_manager sv2 = session_only (StartOp n t) (session_manager sv1)"
    using server_do_inv [OF runs(2) ops1(1)] server_do_ops [OF ops1(1) runs(2)] by auto
  obtain ops2 where ops2: "server_inv sv'" "session_manager sv' = fold session_only ops2 (session_manager sv2)"
    "ticks_in n ops2 = timer_events n post"
    using run_server_ops [OF sv2(1) runs(3)] by blast
  have sm: "sm_inv (session_manager x)" if "server_inv x" for x
    using that by (simp add: server_inv_def game_good_def game_of_def)
  have k: "session_ticks (session_manager sv2) = session_ticks (session_manager sv)"
  proof -
    have "session_manager sv2 = fold session_only (ops1 @ [StartOp n t]) (session_manager sv)" by (simp add: sv2(2) ops1(2))
    then show ?thesis using session_ticks_run [of "(session_manager sv, ())"] sm [OF inv] by (simp add: session_only_run del: fold_append)
  qed
  obtain c1 where c1: "um_find (contexts (session_manager sv1)) n = Some c1" "participants c1 = participants ctx"
    using session_run_ctx [of "(session_manager sv, ())"] sm [OF inv] ctx unfolding ops1(2) session_only_run by force
  obtain c2 where c2: "um_find (contexts (session_manager sv2)) n = Some c2" "\<not> start_pending c2" "participants c2 = participants ctx"
    using start_ends_pending [of "(session_manager sv1, ())"] c1 unfolding sv2(2) session_only_def by force
  have "\<exists>c. um_find (contexts (session_manager sv')) n = Some c \<and> participants c = participants c2 \<and>
      tick_sent c = session_ticks (session_manager sv2) \<and> ended c"
    using session_progress [of "(session_manager sv2, ())", OF _ _ c2(2), of n "\<lambda>u e p s. s" "\<lambda>r ps s. s" ops2]
      sm [OF sv2(1)] c2(1) ticks ops2(3) k unfolding ops2(2) session_only_run by (fastforce simp: min_def)
  with ops2(1) c2(3) k show ?thesis by simp
qed

lemma run_stores_result:
  assumes inv: "server_inv sv" and ticks: "session_ticks (session_manager sv) = 5"
    and ctx: "um_find (contexts (session_manager sv)) n = Some (new_ctx n ps)" "user_ids ps = [a, b]"
    and run: "run_server pf (pre @ StartEvent n t # post) sv = Inr sv'" "5 \<le> timer_events n post"
  shows "\<exists>r. FindResult (session_name n) (repository (result_service (backend sv'))) = Some r \<and>
    mr_user1_id r = a \<and> mr_user2_id r = b \<and> mr_tick_count r = 5"
proof -
  obtain c where c: "server_inv sv'" "um_find (contexts (session_manager sv')) n = Some c" "participants c = ps"
    "tick_sent c = 5" "ended c"
    using run_ends_session [OF inv ctx(1) run(1)] run(2) by (auto simp: ticks new_ctx_def)
  have "sm_inv (session_manager sv')" "results_match (backend_found (backend sv')) (session_manager sv')"
    using c(1) by (simp_all add: server_inv_def game_good_def game_of_def)
  from ended_result [OF this c(2,5,4)] c(3) ctx(2) show ?thesis by (simp add: backend_found_def to_int32_id)
qed

section \<open>A sample run\<close>

text \<open>The ticks of a session that the executor runs one after the other.\<close>

lemma ticks_run: "server_inv sv \<Longrightarrow> \<exists>sv'. run_server pf (replicate k (TickEvent n t ended_at)) sv = Inr sv' \<and>
    auth_service sv' = auth_service sv"
proof (induction k arbitrary: sv)
  case (Suc k)
  then obtain sv1 where sv1: "TickTimer (pf_dump pf) t ended_at n sv = Inr sv1" "server_inv sv1"
    using TickTimer_result by blast
  then have "auth_service sv1 = auth_service sv" by (auto simp: TickTimer_def with_game_def split: sum.splits)
  with Suc.IH [OF sv1(2)] sv1(1) show ?case by simp
qed simp

text \<open>The two users of \<open>sample_two_waiting\<close> play.\<close>

definition sample_match :: "server_event list" where
  "sample_match = [] @ StartEvent 1 0 # replicate 5 (TickEvent 1 0 0)"

lemma sample_match_ticks: "timer_events 1 (replicate 5 (TickEvent 1 0 0)) = 5"
  by (simp add: timer_events_def numeral_eq_Suc)

lemma sample_match_runs:
  obtains sv sv' where "reachable play_platform sample_config sv" "next_session_id (session_manager sv) = 1"
    "in_time 5000000000 (match_queue sv) = [(0, play_entry 1 ''ann''), (1, play_entry 2 ''bob'')]"
    "run_server play_platform sample_match (QueueTimer (pf_dump play_platform) False 5000000000 sv) = Inr sv'"
    "reachable play_platform sample_config sv'" "next_user_id (auth_service sv') = 3"
proof -
  obtain sv where sv: "reachable play_platform sample_config sv" "next_session_id (session_manager sv) = 1"
    "next_user_id (auth_service sv) = 3" "queue (match_queue sv) = [(0, play_entry 1 ''ann''), (1, play_entry 2 ''bob'')]"
    "timer_waiting (match_queue sv)"
    using sample_two_waiting by blast
  let ?sv1 = "QueueTimer (pf_dump play_platform) False 5000000000 sv"
  have w: "in_time 5000000000 (match_queue sv) = [(0, play_entry 1 ''ann''), (1, play_entry 2 ''bob'')]"
    by (simp add: in_time_def sv(4) play_entry_def)
  have step: "server_step play_platform sv ?sv1" by (rule server_step.queue_timer [OF sv(5)])
  then have reach: "reachable play_platform sample_config ?sv1" using sv(1) by (rule reachable.step [rotated])
  then have "server_inv (StrandStart (pf_dump play_platform) 0 1 ?sv1)"
    using server_do_inv [of play_platform "StartEvent 1 0"] reachable_inv by simp
  then obtain sv' where sv': "run_server play_platform (replicate 5 (TickEvent 1 0 0))
      (StrandStart (pf_dump play_platform) 0 1 ?sv1) = Inr sv'"
    "auth_service sv' = auth_service (StrandStart (pf_dump play_platform) 0 1 ?sv1)"
    using ticks_run by blast
  have run: "run_server play_platform sample_match ?sv1 = Inr sv'" using sv'(1) by (simp add: sample_match_def)
  have "next_user_id (auth_service sv') = 3"
    using sv'(2) sv(3) by (simp add: StrandStart_def QueueTimer_def with_game_def split_beta)
  with sv(1,2) w run run_server_reachable [OF reach run] show ?thesis by (rule that)
qed

lemma sample_match_stored:
  obtains sv r where "reachable play_platform sample_config sv" "next_user_id (auth_service sv) = 3"
    "FindResult (session_name 1) (repository (result_service (backend sv))) = Some r"
proof -
  obtain sv sv' where sv: "reachable play_platform sample_config sv" "next_session_id (session_manager sv) = 1"
    "in_time 5000000000 (match_queue sv) = [(0, play_entry 1 ''ann''), (1, play_entry 2 ''bob'')]"
    "run_server play_platform sample_match (QueueTimer (pf_dump play_platform) False 5000000000 sv) = Inr sv'"
    "reachable play_platform sample_config sv'" "next_user_id (auth_service sv') = 3"
    by (rule sample_match_runs)
  have pair: "2 * 0 + 1 < length (in_time 5000000000 (match_queue sv))" "1 = next_session_id (session_manager sv) + 0"
    "1 = entry_user (snd (in_time 5000000000 (match_queue sv) ! (2 * 0)))"
    "2 = entry_user (snd (in_time 5000000000 (match_queue sv) ! (2 * 0 + 1)))"
    by (simp_all add: sv(2,3) play_entry_def)
  let ?sv1 = "QueueTimer (pf_dump play_platform) False 5000000000 sv"
  obtain ps where plays: "server_inv ?sv1" "session_ticks (session_manager ?sv1) = 5"
    "game_in_session (game_of ?sv1) 1" "game_in_session (game_of ?sv1) 2"
    "um_find (contexts (session_manager ?sv1)) 1 = Some (new_ctx 1 ps)" "user_ids ps = [1, 2]"
    by (rule queued_pair_plays [OF sv(1) pair refl])
  obtain r where r: "FindResult (session_name 1) (repository (result_service (backend sv'))) = Some r"
    using run_stores_result [OF plays(1,2,5,6) sv(4) [unfolded sample_match_def] eq_refl [OF sample_match_ticks [symmetric]]]
    by blast
  with sv(5,6) show ?thesis by (rule that)
qed

section \<open>Properties\<close>

text \<open>C2: Two users who are next to each other in the queue get their match. When the queue timer of a
  reachable server fires and both are still in time, behind an even number of others, both are in a session
  at once; and in every later run of the server in which the task of this session is started and its timer
  expires at least five times after that, whatever requests, messages, matches and other sessions come in
  between, the result of the session is stored: for these two users, in the order in which they joined, after
  five ticks.\<close>

theorem match_runs_to_result:
  assumes "reachable pf cfg sv" "2 * i + 1 < length (in_time now (match_queue sv))"
    and "n = next_session_id (session_manager sv) + i"
    and "a = entry_user (snd (in_time now (match_queue sv) ! (2 * i)))"
    and "b = entry_user (snd (in_time now (match_queue sv) ! (2 * i + 1)))"
    and "sv1 = QueueTimer (pf_dump pf) False now sv"
    and "run_server pf (pre @ StartEvent n t # post) sv1 = Inr sv'" "5 \<le> timer_events n post"
  shows "game_in_session (game_of sv1) a \<and> game_in_session (game_of sv1) b \<and>
    (\<exists>r. FindResult (session_name n) (repository (result_service (backend sv'))) = Some r \<and>
       mr_user1_id r = a \<and> mr_user2_id r = b \<and> mr_tick_count r = 5)"
proof -
  obtain ps where plays: "server_inv sv1" "session_ticks (session_manager sv1) = 5"
    "game_in_session (game_of sv1) a" "game_in_session (game_of sv1) b"
    "um_find (contexts (session_manager sv1)) n = Some (new_ctx n ps)" "user_ids ps = [a, b]"
    by (rule queued_pair_plays [OF assms(1-6)])
  with run_stores_result [OF plays(1,2,5,6) assms(7,8)] show ?thesis by blast
qed

theorem match_runs_to_result_witness:
  "\<exists>sv sv'. reachable play_platform sample_config sv \<and>
     run_server play_platform sample_match (QueueTimer (pf_dump play_platform) False 5000000000 sv) = Inr sv' \<and>
     (\<exists>r. FindResult (session_name 1) (repository (result_service (backend sv'))) = Some r \<and>
        mr_user1_id r = 1 \<and> mr_user2_id r = 2 \<and> mr_tick_count r = 5)"
proof -
  obtain sv sv' where sv: "reachable play_platform sample_config sv" "next_session_id (session_manager sv) = 1"
    "in_time 5000000000 (match_queue sv) = [(0, play_entry 1 ''ann''), (1, play_entry 2 ''bob'')]"
    "run_server play_platform sample_match (QueueTimer (pf_dump play_platform) False 5000000000 sv) = Inr sv'"
    by (rule sample_match_runs)
  show ?thesis
    using match_runs_to_result [OF sv(1), of 0 5000000000 1 1 2 "QueueTimer (pf_dump play_platform) False 5000000000 sv"
        "[]" 0 "replicate 5 (TickEvent 1 0 0)" sv'] sv(1,4)
    unfolding sv(2,3) sample_match_ticks sample_match_def by (auto simp: play_entry_def)
qed

end
