(* ===== verification/Standings.thy ===== *)
theory Standings
  imports ServerRuns
begin

text \<open>
  The ratings of \<open>rating.cpp\<close> against the results of \<open>result_repository.cpp\<close>: in every reachable server the numbers
  of each player are those that the Elo formula gives when the stored results are replayed, one after the other.
\<close>

section \<open>Replay\<close>

text \<open>Rating, wins and losses of every player.\<close>

type_synonym standings = "int \<Rightarrow> int \<times> int \<times> int"

definition standing :: "RatingEntry \<Rightarrow> int \<times> int \<times> int" where
  "standing e = (re_rating e, re_wins e, re_losses e)"

definition loser_of :: "MatchResultRecord \<Rightarrow> int" where
  "loser_of r = (if mr_winner_user_id r = mr_user1_id r then mr_user2_id r else mr_user1_id r)"

definition elo_result :: "MatchResultRecord \<Rightarrow> standings \<Rightarrow> standings" where
  "elo_result r st =
     (let w = mr_winner_user_id r; l = loser_of r; (rw, ww, lw) = st w; (rl, wl, ll) = st l
      in st(w := (ApplyElo rw (ExpectedScore rw rl) 1, ww + 1, lw), l := (ApplyElo rl (ExpectedScore rl rw) 0, wl, ll + 1)))"

definition replay :: "MatchResultRecord list \<Rightarrow> standings" where
  "replay rs = fold elo_result rs (\<lambda>u. (initial_rating, 0, 0))"

definition results_of :: "ResultService \<Rightarrow> MatchResultRecord list" where
  "results_of svc = map snd (records (repository svc))"

definition standings_of :: "ResultService \<Rightarrow> standings" where
  "standings_of svc u = standing (entry_at (rating_entries (rating_service svc)) u)"

definition decisive :: "MatchResultRecord \<Rightarrow> bool" where
  "decisive r \<longleftrightarrow> mr_user1_id r \<noteq> mr_user2_id r"

definition replayed :: "ResultService \<Rightarrow> bool" where
  "replayed svc \<longleftrightarrow> standings_of svc = replay (results_of svc) \<and> list_all decisive (results_of svc)"

lemma loser_differs: "decisive r \<Longrightarrow> loser_of r \<noteq> mr_winner_user_id r"
  by (auto simp: loser_of_def decisive_def)

lemma replay_counts:
  "list_all decisive rs \<Longrightarrow>
     fst (snd (fold elo_result rs st u)) = fst (snd (st u)) + int (length (filter (\<lambda>r. mr_winner_user_id r = u) rs)) \<and>
     snd (snd (fold elo_result rs st u)) = snd (snd (st u)) + int (length (filter (\<lambda>r. loser_of r = u) rs))"
proof (induction rs arbitrary: st)
  case (Cons r rs)
  have "fst (snd (elo_result r st u)) = fst (snd (st u)) + (if mr_winner_user_id r = u then 1 else 0)"
    "snd (snd (elo_result r st u)) = snd (snd (st u)) + (if loser_of r = u then 1 else 0)"
    using loser_differs [of r] Cons.prems by (auto simp: elo_result_def Let_def split_beta)
  with Cons.IH [of "elo_result r st"] Cons.prems show ?case by (auto simp del: fun_upd_apply)
qed simp

section \<open>The result service\<close>

definition same_ledger :: "ResultService \<Rightarrow> ResultService \<Rightarrow> bool" where
  "same_ledger svc svc' \<longleftrightarrow> repository svc' = repository svc \<and> standings_of svc' = standings_of svc"

lemma same_ledger_refl [simp]: "same_ledger svc svc"
  by (simp add: same_ledger_def)

lemma same_ledger_trans: "same_ledger a b \<Longrightarrow> same_ledger b c \<Longrightarrow> same_ledger a c"
  by (simp add: same_ledger_def)

lemma same_ledger_replayed: "same_ledger svc svc' \<Longrightarrow> replayed svc \<Longrightarrow> replayed svc'"
  by (simp add: same_ledger_def replayed_def results_of_def)

lemma standing_EnsureUser [simp]:
  "standing (entry_at (rating_entries (EnsureUser u name rs)) v) = standing (entry_at (rating_entries rs) v)"
  by (simp add: standing_def entry_at_EnsureUser)

lemma standing_fold_EnsureUser [simp]:
  "standing (entry_at (rating_entries (fold (\<lambda>p. EnsureUser (sp_user_id p) (sp_username p)) ps rs)) v) =
     standing (entry_at (rating_entries rs) v)"
  by (simp add: standing_def rating_fold_EnsureUser)

lemma same_ledger_EnsureUser: "same_ledger svc (svc\<lparr>rating_service := EnsureUser u name (rating_service svc)\<rparr>)"
  by (simp add: same_ledger_def standings_of_def fun_eq_iff)

lemma ApplyMatchResult_standing:
  assumes "w \<noteq> l"
  shows "standing (entry_at (rating_entries (snd (ApplyMatchResult w l rs))) u) =
    (let (rw, ww, lw) = standing (entry_at (rating_entries rs) w); (rl, wl, ll) = standing (entry_at (rating_entries rs) l)
     in if u = w then (ApplyElo rw (ExpectedScore rw rl) 1, ww + 1, lw)
        else if u = l then (ApplyElo rl (ExpectedScore rl rw) 0, wl, ll + 1)
        else standing (entry_at (rating_entries rs) u))"
  using assms by (simp add: ApplyMatchResult_entries standing_def)

lemma FinalizeResult_replayed:
  assumes "replayed svc" "decisive r"
  shows "replayed (snd (FinalizeResult r ps svc))"
proof (cases "FindResult (mr_session_id r) (repository svc)")
  case (Some old)
  with assms show ?thesis by (simp add: FinalizeResult_known)
next
  case None
  let ?svc = "snd (FinalizeResult r ps svc)"
  let ?rs = "EnsureUser (mr_user2_id r) [] (EnsureUser (mr_user1_id r) []
    (fold (\<lambda>p. EnsureUser (sp_user_id p) (sp_username p)) ps (rating_service svc)))"
  have rat: "rating_service ?svc = snd (ApplyMatchResult (mr_winner_user_id r) (loser_of r) ?rs)"
    using None by (simp add: FinalizeResult_def Let_def split_beta SaveIfAbsent_fst loser_of_def)
  have results: "results_of ?svc = results_of svc @ [r]"
    using None by (simp add: results_of_def repository_FinalizeResult SaveIfAbsent_def FindResult_def um_put_new)
  have "standings_of ?svc u = elo_result r (standings_of svc) u" for u
    using loser_differs [OF assms(2)]
    by (simp add: standings_of_def rat ApplyMatchResult_standing elo_result_def Let_def split_beta)
  then have "standings_of ?svc = elo_result r (standings_of svc)" by blast
  with assms results show ?thesis by (simp add: replayed_def replay_def)
qed

section \<open>Handlers\<close>

abbreviation ledger_of :: "Server \<Rightarrow> ResultService" where
  "ledger_of sv \<equiv> result_service (backend sv)"

lemma ledger_frames [simp]:
  "ledger_of (with_network n sv) = ledger_of sv" "ledger_of (with_observability ob sv) = ledger_of sv"
  "ledger_of (put_ws_at r ws sv) = ledger_of sv"
  by (simp_all add: with_network_def with_observability_def put_ws_at_def)

lemma ledger_with_ratings:
  "same_ledger (ledger_of sv) (ledger_of (with_ratings (EnsureUser u name (ratings_of sv)) (sv\<lparr>auth_service := au\<rparr>)))"
  using same_ledger_EnsureUser [of "ledger_of sv" u name] by (simp add: with_ratings_def)

lemma endpoints_ledger:
  "same_ledger (ledger_of sv) (ledger_of (snd (HandleRegister pf rd rnd req sv)))"
  "same_ledger (ledger_of sv) (ledger_of (snd (HandleLogin pf rd rnd req sv)))"
  "ledger_of (snd (HandleLogout pf rd s sv)) = ledger_of sv"
  "ledger_of (snd (HandleJoin pf rd req s sv)) = ledger_of sv"
  "ledger_of (snd (HandleCancel pf rd s sv)) = ledger_of sv"
  "ledger_of (snd (HandleProfile pf rd s sv)) = ledger_of sv"
  by (simp_all add: HandleRegister_def HandleLogin_def HandleLogout_def HandleJoin_def HandleCancel_def HandleProfile_def
      ledger_with_ratings Let_def split: option.split prod.split sum.split)

lemma with_session_ledger:
  "(\<And>s sv. ledger_of (snd (h s sv)) = ledger_of sv) \<Longrightarrow> ledger_of (snd (with_session pf rd req h sv)) = ledger_of sv"
  using ExtractAuthSession_frame(3) [of req "rd_validate rd" sv]
  by (cases "ExtractAuthSession req (rd_validate rd) sv") (simp add: with_session_def split: option.split)

lemma Dispatch_ledger:
  assumes "Dispatch pf rd rnd req sv = Inr (res, sv')"
  shows "same_ledger (ledger_of sv) (ledger_of sv')"
proof -
  have "ledger_of (snd (with_session pf rd req (HandleLogout pf rd) sv)) = ledger_of sv"
    "ledger_of (snd (with_session pf rd req (HandleJoin pf rd req) sv)) = ledger_of sv"
    "ledger_of (snd (with_session pf rd req (HandleCancel pf rd) sv)) = ledger_of sv"
    "ledger_of (snd (with_session pf rd req (HandleProfile pf rd) sv)) = ledger_of sv"
    by (simp_all add: with_session_ledger endpoints_ledger)
  with assms endpoints_ledger(1,2) [where pf = pf and rd = rd and rnd = rnd and req = req and sv = sv] show ?thesis
    unfolding Dispatch_def Let_def by (auto split: if_splits sum.splits)
qed

lemma SendResponse_ledger: "SendResponse pf rd t start req res sv = Inr (res', sv') \<Longrightarrow> ledger_of sv' = ledger_of sv"
  by (auto simp: SendResponse_def Let_def Log_def split: option.splits sum.splits if_splits)

lemma AcceptWebSocket_ledger: "ledger_of (AcceptWebSocket pf rd rnd s sv) = ledger_of sv"
  by (simp add: AcceptWebSocket_def RunSession_def Let_def split_beta split: option.split)

lemma OnHttpRead_ledger:
  assumes "OnHttpRead pf rd rnd ok req sv = Inr (res, sv')"
  shows "same_ledger (ledger_of sv) (ledger_of sv')"
proof -
  have unchanged: "ExtractAuthSession req t sv = (x, sv1) \<Longrightarrow> ledger_of sv1 = ledger_of sv" for t x sv1
    using ExtractAuthSession_frame(3) [of req t sv] by simp
  have dispatch: "Dispatch pf rd rnd req (with_observability ob sv) = Inr (r, sv1) \<Longrightarrow>
      same_ledger (ledger_of sv) (ledger_of sv1)" for ob r sv1
    using Dispatch_ledger [of pf rd rnd req "with_observability ob sv" r sv1] by simp
  from assms show ?thesis
    by (auto simp: OnHttpRead_def HandleWebSocket_def HandleRequest_def AcceptWebSocket_ledger Let_def split_beta
        split: if_splits sum.splits prod.splits option.splits intro: dispatch dest!: unchanged SendResponse_ledger)
qed

lemma event_ledger:
  "ledger_of (OnRead parse dump failed data rnd n1 n2 r sv) = ledger_of sv"
  "ledger_of (InputTask dump r n input seq sv) = ledger_of sv"
  "ledger_of (WriteCompleted failed r sv) = ledger_of sv" "ledger_of (SessionDestroyed r sv) = ledger_of sv"
  by (simp_all add: OnRead_def InputTask_def WriteCompleted_def SessionDestroyed_def Let_def split_beta split: option.split)

lemma broadcast_ledger [simp]:
  "result_service (BroadcastToParticipants (backend_send dump) ctx ev p b) = result_service b"
proof -
  have "result_service (fold (\<lambda>q. backend_send dump (sp_user_id q) ev p) qs b) = result_service b" for qs
    by (induction qs arbitrary: b) (simp_all add: backend_send_def)
  then show ?thesis by (simp add: BroadcastToParticipants_def)
qed

lemma StrandStart_ledger: "ledger_of (StrandStart dump now n sv) = ledger_of sv"
  by (cases rule: RunStart_cases [of "backend_send dump" now n "session_manager sv" "backend sv"])
    (simp_all add: StrandStart_def with_game_def game_of_def)

lemma QueueTimer_ledger: "server_inv sv \<Longrightarrow> ledger_of (QueueTimer dump failed now sv) = ledger_of sv"
proof (cases failed)
  case True
  then show ?thesis by (simp add: QueueTimer_def OnTick_def with_game_def game_of_def)
next
  case False
  assume inv: "server_inv sv"
  have "snd (fold game_create pss g) = snd g" for pss g by (induction pss arbitrary: g) (simp_all add: game_create_def)
  moreover have "result_service (snd (fold (timeout_error (game_send_error dump)) es g)) = result_service (snd g)" for es g
    by (induction es arbitrary: g) (simp_all add: game_send_error_def)
  ultimately have "result_service (snd (game_of (QueueTimer dump False now sv))) = ledger_of sv"
    by (simp add: QueueTimer_sessions [OF inv]) (simp add: game_of_def)
  with False show ?thesis by (simp add: game_of_def)
qed

lemma TickTimer_ledger:
  assumes inv: "server_inv sv" and old: "replayed (ledger_of sv)" and run: "TickTimer dump now ended_at n sv = Inr sv'"
  shows "replayed (ledger_of sv')"
proof -
  have sinv: "sm_inv (session_manager sv)" using inv by (simp add: server_inv_def game_good_def game_of_def)
  obtain g where g: "RunTimer (backend_send dump) backend_finalize now ended_at n (session_manager sv, backend sv) = Inr g"
    "ledger_of sv' = result_service (snd g)"
    using run by (auto simp: TickTimer_def with_game_def game_of_def split: sum.splits)
  from sinv show ?thesis
  proof (cases rule: RunTimer_cases [where send = "backend_send dump" and finalize = backend_finalize
        and now = now and ended_at = ended_at and n = n and s = "backend sv"])
    case idle
    with g old show ?thesis by auto
  next
    case (running ctx)
    with g old show ?thesis by auto
  next
    case (last ctx p1 p2)
    have "ctx_local (session_ticks (session_manager sv)) n ctx"
      using sm_inv_ctx(1) [OF sinv] last(1) by (simp add: live_def)
    then have "decisive (result_record ended_at (ticked ctx) p1 p2)"
      using last(4) by (simp add: ctx_local_def decisive_def result_record_def Let_def)
    from FinalizeResult_replayed [OF old this] show ?thesis
      using g last(5) by (auto simp: backend_finalize_def)
  qed
qed

lemma server_step_replayed:
  "server_step pf sv sv' \<Longrightarrow> server_inv sv \<Longrightarrow> replayed (ledger_of sv) \<Longrightarrow> replayed (ledger_of sv')"
proof (induction rule: server_step.induct)
  case (http rd rnd ok req sv res sv')
  then show ?case using OnHttpRead_ledger same_ledger_replayed by blast
next
  case (ticked now ended_at n sv sv')
  then show ?case using TickTimer_ledger by blast
qed (simp_all add: event_ledger StrandStart_ledger QueueTimer_ledger)

lemma reachable_replayed: "reachable pf cfg sv \<Longrightarrow> replayed (ledger_of sv)"
proof (induction rule: reachable.induct)
  case start
  show ?case
    by (simp add: replayed_def standings_of_def results_of_def replay_def fun_eq_iff make_ServerApp_def
        make_ResultService_def make_RatingService_def entry_at_def standing_def)
next
  case (step sv sv')
  then show ?case using server_step_replayed reachable_inv by blast
qed

section \<open>Properties\<close>

text \<open>C5: The ratings are the history of the matches. In every reachable server, whatever requests, inputs and
  timers came in between, the rating, the wins and the losses of every player are what the Elo formula gives when
  the stored results are replayed in the order in which they were stored (the order of the association list that
  stands for their hash map), each once, from 1000 points without matches; so the wins and losses of a player are the numbers of stored results that he won and lost.\<close>

theorem ratings_replay_results:
  assumes "reachable pf cfg sv" "rs = results_of (result_service (backend sv))"
    and "e = entry_at (rating_entries (ratings_of sv)) u"
  shows "set rs = {r. \<exists>sid. FindResult sid (repository (result_service (backend sv))) = Some r} \<and>
    (re_rating e, re_wins e, re_losses e) = replay rs u \<and>
    re_wins e = int (length (filter (\<lambda>r. mr_winner_user_id r = u) rs)) \<and>
    re_losses e = int (length (filter (\<lambda>r. loser_of r = u) rs))"
proof -
  have "ledger_inv (ledger_of sv)" using reachable_inv [OF assms(1)] by (simp add: server_inv_iff)
  then have wf: "um_wf (records (repository (ledger_of sv)))" by (simp add: ledger_inv_def)
  have "set rs = {r. \<exists>sid. FindResult sid (repository (ledger_of sv)) = Some r}"
    using um_find_iff_mem [OF wf] by (force simp: assms(2) results_of_def FindResult_def)
  moreover have "replayed (ledger_of sv)" using assms(1) by (rule reachable_replayed)
  then have played: "standing e = replay rs u" "list_all decisive rs"
    by (simp_all add: replayed_def assms(2,3) standings_of_def [symmetric])
  moreover from replay_counts [OF played(2), of "\<lambda>u. (initial_rating, 0, 0)" u] played(1)
  have "re_wins e = int (length (filter (\<lambda>r. mr_winner_user_id r = u) rs))"
    "re_losses e = int (length (filter (\<lambda>r. loser_of r = u) rs))"
    by (auto simp: replay_def standing_def prod_eq_iff)
  ultimately show ?thesis by (simp add: standing_def)
qed

theorem ratings_replay_results_witness:
  "\<exists>sv r. reachable play_platform sample_config sv \<and> r \<in> set (results_of (result_service (backend sv))) \<and>
     re_wins (entry_at (rating_entries (ratings_of sv)) 1) =
       int (length (filter (\<lambda>r. mr_winner_user_id r = 1) (results_of (result_service (backend sv)))))"
proof -
  obtain sv r where sv: "reachable play_platform sample_config sv"
    "FindResult (session_name 1) (repository (result_service (backend sv))) = Some r"
    by (rule sample_match_stored)
  from ratings_replay_results [OF sv(1) refl refl, of 1] sv show ?thesis by blast
qed

end
