(* ===== verification/Identity.thy ===== *)
theory Identity
  imports Standings
begin

text \<open>
  Who the server deals with: the users that the queue, the sessions, the WebSocket connections, the resume tokens
  and the ratings name, each by an id and a name that one component copied from another, against the accounts of
  \<open>auth.cpp\<close>. And what a stored result says of the session it came from.
\<close>

section \<open>Identities\<close>

definition accounts :: "AuthService \<Rightarrow> (int \<times> string) set" where
  "accounts au = {(ur_id rec, name) | rec name. um_find (users au) name = Some rec}"

definition user_ident :: "AuthUser \<Rightarrow> int \<times> string" where
  "user_ident user = (au_user_id user, au_username user)"

definition player_ident :: "SessionParticipant \<Rightarrow> int \<times> string" where
  "player_ident p = (sp_user_id p, sp_username p)"

definition login_idents :: "AuthService \<Rightarrow> (int \<times> string) set" where
  "login_idents au = {user_ident (as_user s) | t s. find_session au t = Some s}"

definition queue_idents :: "MatchQueueService \<Rightarrow> (int \<times> string) set" where
  "queue_idents q = (\<lambda>ne. user_ident (qe_user (snd ne))) ` set (queue q)"

definition session_idents :: "SessionManager \<Rightarrow> (int \<times> string) set" where
  "session_idents sm = {player_ident p | n ctx p. um_find (contexts sm) n = Some ctx \<and> p \<in> set (participants ctx)}"

definition connection_idents :: "Network \<Rightarrow> (int \<times> string) set" where
  "connection_idents net = {user_ident (as_user (ws_session ws)) | r ws. um_find (ws_heap net) r = Some ws}"

definition rating_idents :: "RatingService \<Rightarrow> (int \<times> string) set" where
  "rating_idents rs = {(u, re_username e) | u e. um_find (rating_entries rs) u = Some e}"

definition resume_idents :: "ReconnectService \<Rightarrow> (int \<times> string) set" where
  "resume_idents rc = {user_ident (rs_user r) | t r. find_resume rc t = Some r}"

definition identities :: "Server \<Rightarrow> (int \<times> string) set" where
  "identities sv = queue_idents (match_queue sv) \<union> session_idents (session_manager sv) \<union>
     connection_idents (net_of sv) \<union> rating_idents (ratings_of sv) \<union> resume_idents (reconnect_service sv)"

lemmas idents_defs = queue_idents_def session_idents_def connection_idents_def rating_idents_def resume_idents_def

section \<open>Components\<close>

lemma in_accounts: "(u, name) \<in> accounts au \<longleftrightarrow> (\<exists>rec. um_find (users au) name = Some rec \<and> ur_id rec = u)"
  by (auto simp: accounts_def)

lemma accounts_unique: "auth_inv au \<Longrightarrow> (u, name) \<in> accounts au \<Longrightarrow> (u, name') \<in> accounts au \<Longrightarrow> name = name'"
  unfolding auth_inv_def users_ok_def accounts_def by blast

lemma accounts_range: "auth_inv au \<Longrightarrow> (u, name) \<in> accounts au \<Longrightarrow> 1 \<le> u \<and> u < next_user_id au"
  unfolding auth_inv_def users_ok_def accounts_def by blast

lemma login_accounts: "auth_inv au \<Longrightarrow> login_idents au \<subseteq> accounts au"
  by (auto simp: auth_inv_def sessions_ok_def login_idents_def in_accounts user_ident_def find_session_def)

lemma ValidateToken_users [simp]:
  "users (snd (ValidateToken now t au)) = users au" "next_user_id (snd (ValidateToken now t au)) = next_user_id au"
  "users (snd (Logout t au)) = users au" "next_user_id (snd (Logout t au)) = next_user_id au"
  "users (snd (Login pb rnd now u p ip au)) = users au"
  "next_user_id (snd (Login pb rnd now u p ip au)) = next_user_id au"
  by (auto simp: ValidateToken_def Logout_def Login_def Let_def split_beta split: option.split)

lemma RegisterUser_accounts:
  "accounts au \<subseteq> accounts (snd (RegisterUser pb rnd u p au))"
  "next_user_id au \<le> next_user_id (snd (RegisterUser pb rnd u p au))"
  "fst (RegisterUser pb rnd u p au) = Inr user \<Longrightarrow> user_ident user \<in> accounts (snd (RegisterUser pb rnd u p au))"
  by (auto simp: RegisterUser_def in_accounts user_ident_def Let_def split: option.splits if_splits)

lemma Login_accounts:
  "fst (Login pb rnd now u p ip au) = Inr s \<Longrightarrow> auth_inv au \<Longrightarrow> user_ident (as_user s) \<in> accounts au"
  by (auto simp: Login_def in_accounts user_ident_def Let_def split_beta auth_inv_def users_ok_def
      split: option.splits if_splits)

lemma ValidateToken_accounts:
  "fst (ValidateToken now t au) = Some s \<Longrightarrow> auth_inv au \<Longrightarrow> user_ident (as_user s) \<in> accounts au"
  using login_accounts [of au] by (auto simp: ValidateToken_def login_idents_def split: option.splits if_splits)

lemma Join_idents: "queue_idents (snd (Join f now user t q)) \<subseteq> insert (user_ident user) (queue_idents q)"
  by (auto simp: Join_def queue_idents_def Let_def)

lemma Cancel_idents: "queue_idents (snd (Cancel u q)) \<subseteq> queue_idents q"
  by (auto simp: Cancel_def queue_idents_def erase_node_def split: option.split)

lemma EnsureUser_idents: "rating_idents (EnsureUser u name rs) \<subseteq> insert (u, name) (rating_idents rs)"
  by (auto simp: EnsureUser_def rating_idents_def split: option.splits if_splits)

lemma Ensure_known: "um_find (rating_entries rs) u \<noteq> None \<Longrightarrow> EnsureUser u [] rs = rs"
  by (auto simp: EnsureUser_def)

lemma IssueToken_idents:
  "resume_idents (snd (IssueToken rnd now user v snap prev rc)) \<subseteq> insert (user_ident user) (resume_idents rc)"
  by (auto simp: IssueToken_def resume_idents_def Let_def store_resume_def erase_resume_def find_resume_def
      split: option.splits if_splits)

lemma put_ctx_idents:
  "um_find (contexts sm) n = Some ctx \<Longrightarrow> participants ctx' = participants ctx \<Longrightarrow>
     session_idents (put_ctx n ctx' sm) \<subseteq> session_idents sm"
  by (auto simp: session_idents_def split: if_splits)

lemma connection_idents_kept:
  "(\<And>r. um_find (ws_heap net') r \<noteq> None \<Longrightarrow>
      \<exists>ws ws'. um_find (ws_heap net) r = Some ws \<and> um_find (ws_heap net') r = Some ws' \<and> ws_session ws' = ws_session ws) \<Longrightarrow>
     connection_idents net' \<subseteq> connection_idents net"
  unfolding connection_idents_def by (force)

text \<open>A reported result names nobody but the participants of its session.\<close>

lemma in_rating_idents:
  "(u, name) \<in> rating_idents rs \<longleftrightarrow>
     um_find (rating_entries rs) u \<noteq> None \<and> name = re_username (entry_at (rating_entries rs) u)"
  by (auto simp: rating_idents_def entry_at_def)

lemma ApplyMatchResult_idents:
  assumes "w \<noteq> l" "um_find (rating_entries rs) w \<noteq> None" "um_find (rating_entries rs) l \<noteq> None"
  shows "rating_idents (snd (ApplyMatchResult w l rs)) = rating_idents rs"
proof -
  have "x \<in> rating_idents (snd (ApplyMatchResult w l rs)) \<longleftrightarrow> x \<in> rating_idents rs" for x
    using assms by (cases x) (auto simp: in_rating_idents ApplyMatchResult_dom ApplyMatchResult_entries)
  then show ?thesis by blast
qed

lemma EnsureUser_dom: "um_find (rating_entries (EnsureUser u name rs)) v = None \<longleftrightarrow> v \<noteq> u \<and> um_find (rating_entries rs) v = None"
  by (auto simp: EnsureUser_def split: option.splits)

lemma fold_EnsureUser_idents:
  "let rs' = fold (\<lambda>p. EnsureUser (sp_user_id p) (sp_username p)) ps rs
   in rating_idents rs' \<subseteq> player_ident ` set ps \<union> rating_idents rs \<and>
      (\<forall>u. um_find (rating_entries rs') u = None \<longleftrightarrow> u \<notin> set (user_ids ps) \<and> um_find (rating_entries rs) u = None)"
proof (induction ps arbitrary: rs)
  case (Cons p ps)
  have "rating_idents (EnsureUser (sp_user_id p) (sp_username p) rs) \<subseteq> insert (player_ident p) (rating_idents rs)"
    using EnsureUser_idents by (simp add: player_ident_def)
  with Cons [of "EnsureUser (sp_user_id p) (sp_username p) rs"] show ?case by (auto simp: Let_def EnsureUser_dom)
qed simp

lemma FinalizeResult_idents:
  assumes "mr_user1_id r \<in> set (user_ids ps)" "mr_user2_id r \<in> set (user_ids ps)" "mr_user1_id r \<noteq> mr_user2_id r"
    and "mr_winner_user_id r = mr_user1_id r \<or> mr_winner_user_id r = mr_user2_id r"
  shows "rating_idents (rating_service (snd (FinalizeResult r ps svc))) \<subseteq>
    player_ident ` set ps \<union> rating_idents (rating_service svc)"
proof -
  let ?rs = "fold (\<lambda>p. EnsureUser (sp_user_id p) (sp_username p)) ps (rating_service svc)"
  have rs: "rating_idents ?rs \<subseteq> player_ident ` set ps \<union> rating_idents (rating_service svc)"
    "um_find (rating_entries ?rs) (mr_user1_id r) \<noteq> None" "um_find (rating_entries ?rs) (mr_user2_id r) \<noteq> None"
    using fold_EnsureUser_idents [of ps "rating_service svc"] assms(1,2) by (simp_all add: Let_def)
  have "rating_idents (snd (ApplyMatchResult (mr_winner_user_id r)
      (if mr_winner_user_id r = mr_user1_id r then mr_user2_id r else mr_user1_id r) ?rs)) = rating_idents ?rs"
    using rs(2,3) assms(3,4) by (intro ApplyMatchResult_idents) (auto split: if_splits)
  with rs show ?thesis by (auto simp: FinalizeResult_def Let_def split_beta Ensure_known)
qed

text \<open>Sessions keep their participants.\<close>

lemma CreateSession_idents:
  "session_idents (snd (CreateSession ps sm)) \<subseteq> player_ident ` set ps \<union> session_idents sm"
  by (auto simp: session_idents_def CreateSession_views new_ctx_def split: if_splits)

lemma input_idents:
  assumes "sm_inv sm"
  shows "session_idents (snd (SubmitInput input sm)) \<subseteq> session_idents sm"
    and "session_idents (snd (RunInput n input sm)) \<subseteq> session_idents sm"
proof -
  show "session_idents (snd (SubmitInput input sm)) \<subseteq> session_idents sm"
  proof (cases rule: SubmitInput_cases [OF assms, of input])
    case (2 m ctx)
    then have "um_find (contexts sm) m = Some ctx" by (simp add: live_def)
    with 2 show ?thesis using put_ctx_idents by simp
  qed simp
  show "session_idents (snd (RunInput n input sm)) \<subseteq> session_idents sm"
  proof (cases rule: RunInput_cases [OF assms, of n input])
    case (2 ctx)
    then have "um_find (contexts sm) n = Some ctx" by (simp add: live_def)
    with 2 show ?thesis using put_ctx_idents by simp
  qed simp
qed

lemma RunStart_idents: "session_idents (fst (RunStart send now n w)) \<subseteq> session_idents (fst w)"
proof (cases w)
  case (Pair sm s)
  show ?thesis
  proof (cases rule: RunStart_cases [of send now n sm s])
    case (start ctx)
    with Pair show ?thesis using put_ctx_idents [OF start(1)] by simp
  qed (simp add: Pair)
qed

section \<open>Connections\<close>

text \<open>Sending changes no connection's user.\<close>

definition same_users :: "Network \<Rightarrow> Network \<Rightarrow> bool" where
  "same_users net net' \<longleftrightarrow>
     (\<forall>r. map_option ws_session (um_find (ws_heap net') r) = map_option ws_session (um_find (ws_heap net) r))"

lemma same_users_idents: "same_users net net' \<Longrightarrow> connection_idents net' = connection_idents net"
proof -
  assume "same_users net net'"
  moreover have "connection_idents n = {user_ident (as_user s) | r s. map_option ws_session (um_find (ws_heap n) r) = Some s}" for n
    by (auto simp: connection_idents_def)
  ultimately show ?thesis by (simp only: same_users_def)
qed

lemma same_users_refl [simp]: "same_users net net"
  by (simp add: same_users_def)

lemma same_users_trans: "same_users a b \<Longrightarrow> same_users b c \<Longrightarrow> same_users a c"
  by (simp add: same_users_def)

lemma same_users_sends:
  "same_users net (SendEventToUser dump u ev p net)" "same_users net (SendErrorToUser dump u code m net)"
  by (auto simp: same_users_def SendEventToUser_heap SendErrorToUser_heap split: option.split)

lemma same_users_broadcast:
  "same_users (network b) (network (BroadcastToParticipants (backend_send dump) ctx ev p b))"
proof -
  have "same_users (network b) (network (fold (\<lambda>q. backend_send dump (sp_user_id q) ev p) qs b))" for qs
  proof (induction qs arbitrary: b)
    case (Cons q qs)
    have "same_users (network b) (network (backend_send dump (sp_user_id q) ev p b))"
      by (simp add: backend_send_def same_users_sends)
    then show ?case unfolding fold_simps by (rule same_users_trans [OF _ Cons.IH])
  qed simp
  then show ?thesis by (simp add: BroadcastToParticipants_def)
qed

lemma same_users_fold:
  "(\<And>x g. same_users (network (snd g)) (network (snd (f x g)))) \<Longrightarrow>
     same_users (network (snd g)) (network (snd (fold f xs g)))"
proof (induction xs arbitrary: g)
  case (Cons x xs)
  show ?case unfolding fold_simps by (rule same_users_trans [OF Cons.prems Cons.IH [OF Cons.prems]])
qed simp

lemma put_ws_idents: "connection_idents (put_ws r ws net) \<subseteq> insert (user_ident (as_user (ws_session ws))) (connection_idents net)"
  by (auto simp: connection_idents_def put_ws_def split: if_splits)

lemma connection_at: "ws_at r sv = Some ws \<Longrightarrow> user_ident (as_user (ws_session ws)) \<in> connection_idents (net_of sv)"
  by (auto simp: connection_idents_def ws_at_def)

lemma heap_idents:
  "ws_heap net' = ws_heap net \<Longrightarrow> connection_idents net' = connection_idents net"
  by (simp add: connection_idents_def)

lemma DestroySession_idents: "connection_idents (DestroySession r net) \<subseteq> connection_idents net"
  by (auto simp: connection_idents_def DestroySession_def Let_def split: option.splits if_splits)

section \<open>Handlers\<close>

text \<open>A change of the server is attributed when accounts stay and whoever it names has an account afterwards
  or was named before.\<close>

definition attributed :: "Server \<Rightarrow> Server \<Rightarrow> bool" where
  "attributed sv sv' \<longleftrightarrow> accounts (auth_service sv) \<subseteq> accounts (auth_service sv') \<and>
     next_user_id (auth_service sv) \<le> next_user_id (auth_service sv') \<and>
     identities sv' \<subseteq> identities sv \<union> accounts (auth_service sv')"

lemma attributed_refl [simp]: "attributed sv sv"
  by (simp add: attributed_def)

lemma attributed_trans: "attributed a b \<Longrightarrow> attributed b c \<Longrightarrow> attributed a c"
  unfolding attributed_def by (elim conjE, intro conjI, (blast | simp)+)

lemma attributed_keeps:
  "attributed sv sv' \<Longrightarrow> identities sv \<subseteq> accounts (auth_service sv) \<Longrightarrow> identities sv' \<subseteq> accounts (auth_service sv')"
  unfolding attributed_def by blast

text \<open>One part changes at a time.\<close>

lemma attributed_auth:
  "accounts (auth_service sv) \<subseteq> accounts au \<Longrightarrow> next_user_id (auth_service sv) \<le> next_user_id au \<Longrightarrow>
     attributed sv (sv\<lparr>auth_service := au\<rparr>)"
  by (auto simp: attributed_def identities_def)

lemma attributed_queue:
  "queue_idents q \<subseteq> queue_idents (match_queue sv) \<union> accounts (auth_service sv) \<Longrightarrow> attributed sv (sv\<lparr>match_queue := q\<rparr>)"
  by (auto simp: attributed_def identities_def)

lemma attributed_sessions:
  "session_idents sm \<subseteq> session_idents (session_manager sv) \<Longrightarrow> attributed sv (sv\<lparr>session_manager := sm\<rparr>)"
  by (auto simp: attributed_def identities_def)

lemma attributed_ratings:
  "rating_idents rs \<subseteq> rating_idents (ratings_of sv) \<union> accounts (auth_service sv) \<Longrightarrow> attributed sv (with_ratings rs sv)"
  by (auto simp: attributed_def identities_def with_ratings_def)

lemma attributed_resume:
  "resume_idents rc \<subseteq> identities sv \<union> accounts (auth_service sv) \<Longrightarrow> attributed sv (sv\<lparr>reconnect_service := rc\<rparr>)"
  by (auto simp: attributed_def identities_def)

lemma attributed_network:
  "connection_idents net \<subseteq> identities sv \<union> accounts (auth_service sv) \<Longrightarrow> attributed sv (with_network net sv)"
  by (auto simp: attributed_def identities_def with_network_def)

lemma attributed_same_users: "same_users (net_of sv) net \<Longrightarrow> attributed sv (with_network net sv)"
  using same_users_idents [of "net_of sv" net] by (intro attributed_network) (auto simp: identities_def)

lemma attributed_put:
  "ws_at r sv = Some ws \<Longrightarrow> ws_session ws' = ws_session ws \<Longrightarrow> attributed sv (put_ws_at r ws' sv)"
  unfolding put_ws_at_def
proof (rule attributed_network)
  assume ws: "ws_at r sv = Some ws" "ws_session ws' = ws_session ws"
  then show "connection_idents (put_ws r ws' (net_of sv)) \<subseteq> identities sv \<union> accounts (auth_service sv)"
    using put_ws_idents [of r ws' "net_of sv"] connection_at [OF ws(1)] by (auto simp: identities_def)
qed

lemma attributed_observability: "attributed sv (with_observability ob sv)"
  unfolding with_observability_def by (intro attributed_same_users) (simp add: same_users_def)

lemma ExtractAuthSession_attributed:
  assumes "ExtractAuthSession req now sv = (x, sv')"
  shows "attributed sv sv'"
    and "auth_inv (auth_service sv) \<Longrightarrow> x = Some s \<Longrightarrow> user_ident (as_user s) \<in> accounts (auth_service sv')"
proof -
  have same: "accounts (snd (ValidateToken now t au)) = accounts au" for t au by (simp add: accounts_def)
  show "attributed sv sv'"
    using assms by (auto simp: ExtractAuthSession_def Let_def split_beta same intro!: attributed_auth split: option.splits if_splits)
  show "user_ident (as_user s) \<in> accounts (auth_service sv')" if "auth_inv (auth_service sv)" "x = Some s"
    using assms that by (auto simp: ExtractAuthSession_def Let_def split_beta same ValidateToken_accounts split: option.splits if_splits)
qed

lemma account_endpoints:
  assumes "auth_inv (auth_service sv)"
  shows "attributed sv (snd (HandleRegister pf rd rnd req sv))" "attributed sv (snd (HandleLogin pf rd rnd req sv))"
proof -
  have ensure: "attributed sv (with_ratings (EnsureUser (au_user_id u) (au_username u) (ratings_of sv)) (sv\<lparr>auth_service := au\<rparr>))"
    if "accounts (auth_service sv) \<subseteq> accounts au" "next_user_id (auth_service sv) \<le> next_user_id au"
      "user_ident u \<in> accounts au" for u au
  proof (rule attributed_trans [OF attributed_auth [OF that(1,2)]], rule attributed_ratings)
    show "rating_idents (EnsureUser (au_user_id u) (au_username u) (ratings_of sv))
        \<subseteq> rating_idents (ratings_of (sv\<lparr>auth_service := au\<rparr>)) \<union> accounts (auth_service (sv\<lparr>auth_service := au\<rparr>))"
      using EnsureUser_idents [of "au_user_id u" "au_username u" "ratings_of sv"] that(3) by (auto simp: user_ident_def)
  qed
  show "attributed sv (snd (HandleRegister pf rd rnd req sv))"
  proof (cases "credentials_of pf req")
    case (Some up)
    obtain u p where up: "up = (u, p)" by (cases up)
    let ?r = "RegisterUser (pf_pbkdf pf) rnd u p (auth_service sv)"
    note acc = RegisterUser_accounts(1,2) [of "auth_service sv" "pf_pbkdf pf" rnd u p]
    show ?thesis
      by (cases ?r; cases "fst ?r")
        (use acc RegisterUser_accounts(3) [of "pf_pbkdf pf" rnd u p "auth_service sv"] in
          \<open>auto simp: HandleRegister_def Some up intro: attributed_auth ensure\<close>)
  qed (simp add: HandleRegister_def)
  show "attributed sv (snd (HandleLogin pf rd rnd req sv))"
  proof (cases "credentials_of pf req")
    case (Some up)
    obtain u p where up: "up = (u, p)" by (cases up)
    let ?r = "Login (pf_pbkdf pf) rnd (rd_service rd) u p (RemoteIp req) (auth_service sv)"
    have same: "accounts (snd ?r) = accounts (auth_service sv)" "next_user_id (snd ?r) = next_user_id (auth_service sv)"
      by (simp_all add: accounts_def)
    show ?thesis
      by (cases ?r; cases "fst ?r")
        (use same Login_accounts [OF _ assms, of "pf_pbkdf pf" rnd "rd_service rd" u p "RemoteIp req"] in
          \<open>auto simp: HandleLogin_def Some up Let_def intro!: attributed_auth ensure\<close>)
  qed (simp add: HandleLogin_def)
qed

lemma session_endpoints:
  assumes "user_ident (as_user s) \<in> accounts (auth_service sv)"
  shows "attributed sv (snd (HandleLogout pf rd s sv))" "attributed sv (snd (HandleJoin pf rd req s sv))"
    "attributed sv (snd (HandleCancel pf rd s sv))" "attributed sv (snd (HandleProfile pf rd s sv))"
proof -
  show "attributed sv (snd (HandleLogout pf rd s sv))"
    by (simp add: HandleLogout_def attributed_auth accounts_def)
  have "attributed sv (sv\<lparr>match_queue := snd (Join f now (as_user s) t (match_queue sv))\<rparr>)" for f now t
    using Join_idents [of f now "as_user s" t "match_queue sv"] assms by (intro attributed_queue) auto
  then show "attributed sv (snd (HandleJoin pf rd req s sv))"
    by (simp add: HandleJoin_def split: option.split prod.split) (metis snd_conv)
  have "attributed sv (sv\<lparr>match_queue := snd (Cancel u (match_queue sv))\<rparr>)" for u
    using Cancel_idents [of u "match_queue sv"] by (intro attributed_queue) auto
  then show "attributed sv (snd (HandleCancel pf rd s sv))"
    by (simp add: HandleCancel_def split: option.split prod.split) (metis snd_conv)
  show "attributed sv (snd (HandleProfile pf rd s sv))" by (simp add: HandleProfile_def Let_def)
qed

lemma with_session_attributed:
  assumes "auth_inv (auth_service sv)"
    and "\<And>s sv. user_ident (as_user s) \<in> accounts (auth_service sv) \<Longrightarrow> attributed sv (snd (h s sv))"
  shows "attributed sv (snd (with_session pf rd req h sv))"
proof (cases "ExtractAuthSession req (rd_validate rd) sv")
  case (Pair x sv1)
  note ex = ExtractAuthSession_attributed [OF Pair]
  show ?thesis
  proof (cases x)
    case (Some s)
    then show ?thesis
      using attributed_trans [OF ex(1) assms(2) [OF ex(2) [OF assms(1) Some]]] Pair by (simp add: with_session_def)
  qed (simp add: with_session_def Pair ex(1))
qed

lemma Dispatch_attributed:
  assumes "auth_inv (auth_service sv)" "Dispatch pf rd rnd req sv = Inr (res, sv')"
  shows "attributed sv sv'"
proof -
  have sessions: "attributed sv (snd (with_session pf rd req (HandleLogout pf rd) sv))"
    "attributed sv (snd (with_session pf rd req (HandleJoin pf rd req) sv))"
    "attributed sv (snd (with_session pf rd req (HandleCancel pf rd) sv))"
    "attributed sv (snd (with_session pf rd req (HandleProfile pf rd) sv))"
    by (rule with_session_attributed [OF assms(1)], erule session_endpoints)+
  from assms(2) show ?thesis
    using sessions account_endpoints [OF assms(1), of pf rd rnd req] unfolding Dispatch_def Let_def
    by (auto split: if_splits sum.splits)
qed

lemma SendResponse_attributed: "SendResponse pf rd t start req res sv = Inr (res', sv') \<Longrightarrow> attributed sv sv'"
  by (auto simp: SendResponse_def Let_def Log_def split: option.splits sum.splits if_splits intro!: attributed_observability)

lemma HandleRequest_attributed:
  assumes "auth_inv (auth_service sv)" "HandleRequest pf rd rnd req sv = Inr (res, sv')"
  shows "attributed sv sv'"
proof -
  let ?sv1 = "with_observability (IncrementRequest (snd (NextTraceId (rd_trace rd) (observability (net_of sv))))) sv"
  have "auth_inv (auth_service ?sv1)" using assms(1) by (simp add: with_observability_def)
  then have "attributed ?sv1 sv'"
    using assms(2)
    by (auto simp: HandleRequest_def split_beta Let_def split: sum.splits
        intro: attributed_trans [OF Dispatch_attributed SendResponse_attributed])
  then show ?thesis by (rule attributed_trans [OF attributed_observability])
qed

text \<open>A new connection belongs to the user of its token.\<close>

lemma RunSession_attributed:
  assumes "ws_at r sv = Some ws"
  shows "attributed sv (RunSession dump rnd n1 n2 r sv)"
proof -
  let ?ws1 = "ws\<lparr>ws_snapshot := BuildSnapshot n1 ws\<rparr>"
  let ?t = "IssueToken rnd n2 (as_user (ws_session ws)) (snapshot_version ?ws1) (ws_snapshot ?ws1) None (reconnect_service sv)"
  let ?ws2 = "?ws1\<lparr>resume_token := fst ?t\<rparr>"
  let ?sv0 = "sv\<lparr>reconnect_service := snd ?t\<rparr>"
  let ?sv1 = "put_ws_at r ?ws2 ?sv0"
  let ?sv2 = "with_network (Register (au_user_id (as_user (ws_session ws))) r (net_of ?sv1)) ?sv1"
  have "attributed sv ?sv0"
    using IssueToken_idents [of rnd n2 "as_user (ws_session ws)" "snapshot_version ?ws1" "ws_snapshot ?ws1" None "reconnect_service sv"]
      connection_at [OF assms] by (intro attributed_resume) (auto simp: identities_def)
  moreover have "attributed ?sv0 ?sv1" using assms by (intro attributed_put) simp_all
  moreover have "attributed ?sv1 ?sv2" by (intro attributed_same_users) (simp add: same_users_def Register_def)
  moreover have "attributed ?sv2 (put_ws_at r (DoRead (SendAuthState dump ?ws2)) ?sv2)"
    by (rule attributed_put [where ws = ?ws2]) (simp_all add: ws_at_def put_ws_at_def put_ws_def Register_def)
  ultimately have "attributed sv (put_ws_at r (DoRead (SendAuthState dump ?ws2)) ?sv2)"
    using attributed_trans by blast
  then show ?thesis using assms by (simp add: RunSession_def Let_def split_beta)
qed

lemma AcceptWebSocket_attributed:
  assumes "user_ident (as_user s) \<in> accounts (auth_service sv)"
  shows "attributed sv (AcceptWebSocket pf rd rnd s sv)"
proof -
  let ?ws = "make_WebSocketSession s (ws_queue_limit_messages (app_config sv)) (ws_queue_limit_bytes (app_config sv))"
  let ?sv1 = "put_ws_at (next_address sv) ?ws sv"
  have "attributed sv ?sv1"
    unfolding put_ws_at_def
    using put_ws_idents [of "next_address sv" ?ws "net_of sv"] assms
    by (intro attributed_network) (auto simp: identities_def make_WebSocketSession_def)
  moreover have "attributed ?sv1 (?sv1\<lparr>next_address := next_address sv + 1\<rparr>)" by (simp add: attributed_def identities_def)
  moreover have "attributed (?sv1\<lparr>next_address := next_address sv + 1\<rparr>) (AcceptWebSocket pf rd rnd s sv)"
    unfolding AcceptWebSocket_def Let_def
    by (rule RunSession_attributed [where ws = ?ws]) (simp add: ws_at_def put_ws_at_def put_ws_def)
  ultimately show ?thesis using attributed_trans by blast
qed

lemma OnHttpRead_attributed:
  assumes "auth_inv (auth_service sv)" "OnHttpRead pf rd rnd ok req sv = Inr (res, sv')"
  shows "attributed sv sv'"
proof (cases "hr_upgrade req")
  case True
  obtain x sv1 where Pair: "ExtractAuthSession req (rd_validate rd) sv = (x, sv1)" by fastforce
  note ex = ExtractAuthSession_attributed [OF Pair]
  have "attributed sv1 sv'"
  proof (cases x)
    case None
    with True assms(2) Pair show ?thesis
      by (auto simp: OnHttpRead_def HandleWebSocket_def split: sum.splits intro: SendResponse_attributed)
  next
    case (Some s)
    then show ?thesis
      using True assms(2) Pair AcceptWebSocket_attributed [OF ex(2) [OF assms(1) Some]]
      by (auto simp: OnHttpRead_def HandleWebSocket_def split: if_splits)
  qed
  with ex(1) show ?thesis by (rule attributed_trans)
next
  case False
  with assms show ?thesis by (auto simp: OnHttpRead_def split: sum.splits intro: HandleRequest_attributed)
qed

section \<open>WebSocket events and timers\<close>

lemma HandleMessage_resume:
  "resume_idents (fst (snd (HandleMessage dump rnd n1 n2 m ws rc sm))) \<subseteq>
     insert (user_ident (as_user (ws_session ws))) (resume_idents rc)"
proof -
  have "resume_idents (snd (HandleResyncRequest dump rnd n1 n2 p seq ws rc)) \<subseteq>
      insert (user_ident (as_user (ws_session ws))) (resume_idents rc)" for p seq
    using IssueToken_idents by (auto simp: HandleResyncRequest_def Let_def split_beta split: option.split)
  then show ?thesis by (simp add: HandleMessage_def Let_def split_beta subset_insertI split: option.split)
qed

lemma OnRead_attributed:
  assumes "sm_inv (session_manager sv)"
  shows "attributed sv (OnRead parse dump failed data rnd n1 n2 r sv)"
proof (cases "ws_at r sv")
  case (Some ws)
  let ?ws0 = "ws\<lparr>pending_read := False\<rparr>"
  have put: "ws_session ws' = ws_session ws \<Longrightarrow> attributed sv (put_ws_at r ws' sv)" for ws'
    using attributed_put [OF Some] .
  show ?thesis
  proof (cases "failed \<or> closing ws \<or> parse data = None")
    case True
    with Some show ?thesis by (auto simp: OnRead_def put Let_def split: option.split)
  next
    case False
    then obtain m where m: "\<not> failed" "\<not> closing ws" "parse data = Some m" by auto
    let ?h = "HandleMessage dump rnd n1 n2 m ?ws0 (reconnect_service sv) (session_manager sv)"
    let ?sv1 = "sv\<lparr>reconnect_service := fst (snd ?h)\<rparr>"
    let ?sv2 = "?sv1\<lparr>session_manager := snd (snd ?h)\<rparr>"
    have "attributed sv ?sv1"
      using HandleMessage_resume [of dump rnd n1 n2 m ?ws0 "reconnect_service sv" "session_manager sv"] connection_at [OF Some]
      by (intro attributed_resume) (auto simp: identities_def)
    moreover have "attributed ?sv1 ?sv2"
    proof (rule attributed_sessions)
      from HandleMessage_sm [of dump rnd n1 n2 m ?ws0 "reconnect_service sv" "session_manager sv"]
      show "session_idents (snd (snd ?h)) \<subseteq> session_idents (session_manager ?sv1)"
        by (auto dest: input_idents(1) [OF assms, THEN subsetD])
    qed
    moreover have "attributed ?sv2 (put_ws_at r (DoRead (fst ?h)) ?sv2)"
      using Some by (intro attributed_put [where ws = ws]) simp_all
    ultimately have "attributed sv (put_ws_at r (DoRead (fst ?h)) ?sv2)" using attributed_trans by blast
    with Some m show ?thesis by (simp add: OnRead_def split_beta Let_def)
  qed
qed (simp add: OnRead_def)

lemma InputTask_attributed:
  assumes "sm_inv (session_manager sv)"
  shows "attributed sv (InputTask dump r n input seq sv)"
proof (cases "ws_at r sv")
  case (Some ws)
  let ?run = "RunInput n input (session_manager sv)" and ?ws0 = "ws\<lparr>pending_read := False\<rparr>"
  let ?ws1 = "case fst ?run of None \<Rightarrow> ?ws0 | Some (code, message) \<Rightarrow> SendError dump code message seq ?ws0"
  have "attributed sv (sv\<lparr>session_manager := snd ?run\<rparr>)" using input_idents(2) [OF assms] by (rule attributed_sessions)
  moreover have "attributed (sv\<lparr>session_manager := snd ?run\<rparr>) (put_ws_at r (DoRead ?ws1) (sv\<lparr>session_manager := snd ?run\<rparr>))"
    using Some by (intro attributed_put [where ws = ws]) (simp_all split: option.split)
  ultimately show ?thesis using Some attributed_trans by (simp add: InputTask_def split_beta Let_def)
qed (simp add: InputTask_def)

lemma attributed_game:
  assumes "session_idents (fst g) \<subseteq> identities sv \<union> accounts (auth_service sv)"
    and "same_users (net_of sv) (network (snd g))"
    and "rating_idents (rating_service (result_service (snd g))) \<subseteq> identities sv \<union> accounts (auth_service sv)"
  shows "attributed sv (with_game g sv)"
  using assms(1,3) same_users_idents [OF assms(2)]
  by (auto simp: attributed_def with_game_def identities_def)

lemma StrandStart_attributed: "attributed sv (StrandStart dump now n sv)"
  unfolding StrandStart_def
proof (rule attributed_game)
  let ?g = "RunStart (backend_send dump) now n (game_of sv)"
  show "session_idents (fst ?g) \<subseteq> identities sv \<union> accounts (auth_service sv)"
    using RunStart_idents [of "backend_send dump" now n "game_of sv"] by (auto simp: identities_def game_of_def)
  show "same_users (net_of sv) (network (snd ?g))"
    by (cases rule: RunStart_cases [of "backend_send dump" now n "session_manager sv" "backend sv"])
      (auto simp: game_of_def intro: same_users_trans [OF same_users_broadcast same_users_broadcast])
  show "rating_idents (rating_service (result_service (snd ?g))) \<subseteq> identities sv \<union> accounts (auth_service sv)"
    by (cases rule: RunStart_cases [of "backend_send dump" now n "session_manager sv" "backend sv"])
      (auto simp: game_of_def identities_def)
qed

text \<open>The last tick of a session: the winner it reports is one of the two players, as long as the ids fit in an
  \<open>int\<close>, the type they have in the code.\<close>

lemma last_tick_winner:
  assumes inv: "sm_inv sm" and live: "live sm n ctx" "timer_armed ctx" "\<not> tick_sent ctx + 1 < session_ticks sm"
    and ps: "participants ctx = [p1, p2]" "int32 (sp_user_id p1)" "int32 (sp_user_id p2)" "session_ticks sm = 5"
  shows "winner_of (Snapshot (simulation (ticked ctx))) \<in> {sp_user_id p1, sp_user_id p2}" "sp_user_id p1 \<noteq> sp_user_id p2"
proof -
  let ?c = "(ticked ctx)\<lparr>ended := True\<rparr>" and ?sm = "finished_manager n (ticked ctx) sm"
  have run: "RunTimer (\<lambda>u e p s. s) (\<lambda>r ps s. s) 0 0 n (sm, ()) = Inr (?sm, ())"
    using RunTimer_last [of sm n ctx p1 p2] live ps(1) by (simp add: live_def)
  have inv': "sm_inv ?sm"
    using session_step_inv [of "(sm, ())" "\<lambda>u e p s. s" "\<lambda>r ps s. s" "TimerOp n 0 0"] inv run by simp
  have c: "um_find (contexts ?sm) n = Some ?c" by (simp add: finished_manager_def)
  have "ctx_local (session_ticks ?sm) n ?c" by (rule sm_inv_ctx(1) [OF inv' c])
  then have ticks: "tick_sent ?c = 5" using ps(4) by (simp add: ctx_local_def finished_manager_def session_ticks_def)
  have parts: "participants ?c = [p1, p2]" using ps(1) by (simp add: ticked_def)
  from winner_is_best [OF inv' c parts ps(2,3)] ticks
  show "winner_of (Snapshot (simulation (ticked ctx))) \<in> {sp_user_id p1, sp_user_id p2}"
    by (auto simp: Let_def split: if_splits)
  have "ctx_local (session_ticks sm) n ctx" using live(1) inv sm_inv_ctx(1) by (auto simp: live_def)
  with ps(1) show "sp_user_id p1 \<noteq> sp_user_id p2" by (simp add: ctx_local_def)
qed

definition small_ids :: "Server \<Rightarrow> bool" where
  "small_ids sv \<longleftrightarrow> next_user_id (auth_service sv) \<le> 2 ^ 31"

lemma registered_int32:
  assumes "server_inv sv" "identities sv \<subseteq> accounts (auth_service sv)" "small_ids sv"
    and "um_find (contexts (session_manager sv)) n = Some ctx" "p \<in> set (participants ctx)"
  shows "player_ident p \<in> accounts (auth_service sv) \<and> int32 (sp_user_id p)"
proof -
  have "player_ident p \<in> session_idents (session_manager sv)" using assms(4,5) by (auto simp: session_idents_def)
  then have "player_ident p \<in> accounts (auth_service sv)" using assms(2) by (auto simp: identities_def)
  then show ?thesis
    using accounts_range [of "auth_service sv" "sp_user_id p" "sp_username p"] assms(1,3)
    by (simp add: player_ident_def server_inv_def small_ids_def int32_def)
qed

lemma finished_idents:
  "um_find (contexts sm) n = Some ctx \<Longrightarrow> session_idents (finished_manager n (ticked ctx) sm) \<subseteq> session_idents sm"
  by (auto simp: session_idents_def finished_manager_def ticked_def split: if_splits)

lemma TickTimer_attributed:
  assumes inv: "server_inv sv" and k: "session_ticks (session_manager sv) = 5"
    and known: "identities sv \<subseteq> accounts (auth_service sv)" "small_ids sv"
    and run: "TickTimer dump now ended_at n sv = Inr sv'"
  shows "attributed sv sv'"
proof -
  have sinv: "sm_inv (session_manager sv)" using inv by (simp add: server_inv_def game_good_def game_of_def)
  obtain g where g: "RunTimer (backend_send dump) backend_finalize now ended_at n (session_manager sv, backend sv) = Inr g"
    "sv' = with_game g sv"
    using run by (auto simp: TickTimer_def game_of_def split: sum.splits)
  have rated: "rating_idents (ratings_of sv) \<subseteq> identities sv" and played: "session_idents (session_manager sv) \<subseteq> identities sv"
    by (auto simp: identities_def)
  from sinv show ?thesis
  proof (cases rule: RunTimer_cases [where send = "backend_send dump" and finalize = backend_finalize
        and now = now and ended_at = ended_at and n = n and s = "backend sv"])
    case idle
    with g(1) have "g = (session_manager sv, backend sv)" by simp
    then have "sv' = sv" using g(2) by (simp add: with_game_def)
    then show ?thesis by simp
  next
    case (running ctx)
    have "um_find (contexts (session_manager sv)) n = Some ctx" using running(1) by (simp add: live_def)
    then have "session_idents (put_ctx n (ScheduleTick (ticked ctx)) (session_manager sv)) \<subseteq> session_idents (session_manager sv)"
      by (rule put_ctx_idents) (simp add: ScheduleTick_def ticked_def)
    then show ?thesis
      unfolding g(2) using g(1) running(4) rated played same_users_broadcast by (intro attributed_game) auto
  next
    case (last ctx p1 p2)
    have ctx: "um_find (contexts (session_manager sv)) n = Some ctx" using last(1) by (simp add: live_def)
    have ps: "player_ident p1 \<in> identities sv" "player_ident p2 \<in> identities sv"
      using ctx last(4) played by (force simp: session_idents_def)+
    have small: "int32 (sp_user_id p1)" "int32 (sp_user_id p2)"
      using registered_int32 [OF inv known ctx] last(4) by simp_all
    let ?r = "result_record ended_at (ticked ctx) p1 p2" and ?svc = "result_service (backend sv)"
    have "rating_idents (rating_service (snd (FinalizeResult ?r [p1, p2] ?svc))) \<subseteq>
        player_ident ` set [p1, p2] \<union> rating_idents (rating_service ?svc)"
      using last_tick_winner [OF sinv last(1-3,4) small k]
      by (intro FinalizeResult_idents) (auto simp: result_record_def Let_def)
    then have "rating_idents (rating_service (result_service (snd g))) \<subseteq> identities sv"
      using g(1) last(5) ps rated by (auto simp: backend_finalize_def)
    moreover have "same_users (net_of sv) (network (snd g))"
      using g(1) last(5) by (auto intro: same_users_trans [OF same_users_broadcast same_users_broadcast])
    moreover have "session_idents (fst g) \<subseteq> identities sv"
      using g(1) last(5) finished_idents [OF ctx] played by auto
    ultimately show ?thesis unfolding g(2) by (intro attributed_game) auto
  qed
qed

lemma fold_create_idents:
  "session_idents (fst (fold game_create pss g)) \<subseteq> player_ident ` (\<Union> (set ` set pss)) \<union> session_idents (fst g) \<and>
     snd (fold game_create pss g) = snd g"
proof (induction pss arbitrary: g)
  case (Cons ps pss)
  have "session_idents (fst (game_create ps g)) \<subseteq> player_ident ` set ps \<union> session_idents (fst g)"
    by (simp add: game_create_def CreateSession_idents)
  moreover have "snd (game_create ps g) = snd g" by (simp add: game_create_def)
  ultimately show ?case using Cons.IH [of "game_create ps g"] by (auto simp: image_Un)
qed simp

lemma pairs_idents: "player_ident ` (\<Union> (set ` set (pairs es))) \<subseteq> (\<lambda>ne. user_ident (qe_user (snd ne))) ` set es"
  by (induction es rule: pairs.induct) (auto simp: participant_of_def player_ident_def user_ident_def)

lemma QueueTimer_attributed:
  assumes inv: "server_inv sv"
  shows "attributed sv (QueueTimer dump failed now sv)"
proof (cases failed)
  case True
  then have "identities (QueueTimer dump failed now sv) = identities sv"
    "auth_service (QueueTimer dump failed now sv) = auth_service sv"
    by (simp_all add: QueueTimer_def OnTick_def with_game_def game_of_def identities_def queue_idents_def)
  then show ?thesis by (simp add: attributed_def)
next
  case False
  let ?t = "OnTick game_create (game_send_error dump) False now (match_queue sv) (game_of sv)"
  let ?w = "filter (\<lambda>ne. \<not> expired now (snd ne)) (queue (match_queue sv))"
  let ?g = "fold (timeout_error (game_send_error dump)) (filter (\<lambda>ne. expired now (snd ne)) (queue (match_queue sv))) (game_of sv)"
  have "mq_inv (match_queue sv)" using inv by (simp add: server_inv_def)
  note t = OnTick_spec(2,3) [OF this, of game_create "game_send_error dump" now "game_of sv"]
  have queued: "queue_idents (match_queue sv) \<subseteq> identities sv" by (auto simp: identities_def)
  have "session_idents (fst (snd ?t)) \<subseteq> (\<lambda>ne. user_ident (qe_user (snd ne))) ` set ?w \<union> session_idents (session_manager sv)"
    using fold_create_idents [of "pairs ?w" ?g] pairs_idents [of ?w] unfolding t(2) by (auto simp: game_of_def)
  then have "session_idents (fst (snd ?t)) \<subseteq> identities sv"
    by (auto simp: identities_def queue_idents_def)
  moreover have made: "snd (snd ?t) = snd ?g" unfolding t(2) using fold_create_idents [of "pairs ?w" ?g] by simp
  have "same_users (network (snd g)) (network (snd (timeout_error (game_send_error dump) e g)))" for e g
    by (simp add: game_send_error_def same_users_sends)
  from same_users_fold [of "timeout_error (game_send_error dump)" "game_of sv", OF this]
  have "same_users (network (snd (game_of sv))) (network (snd ?g))" .
  then have "same_users (net_of sv) (network (snd (snd ?t)))" unfolding made by (simp add: game_of_def)
  moreover have "result_service (snd ?g) = result_service (backend sv)"
  proof -
    have "result_service (snd (fold (timeout_error (game_send_error dump)) es g)) = result_service (snd g)" for es g
      by (induction es arbitrary: g) (simp_all add: game_send_error_def)
    then show ?thesis by (simp add: game_of_def)
  qed
  then have "rating_idents (rating_service (result_service (snd (snd ?t)))) \<subseteq> identities sv"
    unfolding made by (auto simp: identities_def)
  ultimately have "attributed sv (with_game (snd ?t) sv)" by (intro attributed_game) auto
  moreover have "attributed (with_game (snd ?t) sv) ((with_game (snd ?t) sv)\<lparr>match_queue := fst ?t\<rparr>)"
    using unpaired_set [of ?w] by (intro attributed_queue) (auto simp: queue_idents_def t(1) with_game_def)
  ultimately have "attributed sv ((with_game (snd ?t) sv)\<lparr>match_queue := fst ?t\<rparr>)" by (rule attributed_trans)
  with False show ?thesis by (simp add: QueueTimer_def split_beta)
qed

section \<open>Reachable servers\<close>

lemma TickTimer_auth: "TickTimer dump now ended_at n sv = Inr sv' \<Longrightarrow> auth_service sv' = auth_service sv"
  by (auto simp: TickTimer_def with_game_def split: sum.splits)

lemma server_step_attributed:
  "server_step pf sv sv' \<Longrightarrow> server_inv sv \<Longrightarrow> session_ticks (session_manager sv) = 5 \<Longrightarrow>
     (small_ids sv \<Longrightarrow> identities sv \<subseteq> accounts (auth_service sv)) \<Longrightarrow> small_ids sv' \<Longrightarrow> attributed sv sv'"
proof (induction rule: server_step.induct)
  case (http rd rnd ok req sv res sv')
  then show ?case by (auto intro: OnHttpRead_attributed simp: server_inv_def)
next
  case (message r sv ws failed data rnd now1 now2)
  then show ?case by (auto intro: OnRead_attributed simp: server_inv_iff)
next
  case (input_task r sv ws n input seq)
  then show ?case by (auto intro: InputTask_attributed simp: server_inv_iff)
next
  case (written r sv ws failed)
  then show ?case by (auto simp: WriteCompleted_def intro: attributed_put)
next
  case (destroyed r sv ws)
  have "connection_idents (DestroySession r (net_of sv)) \<subseteq> identities sv \<union> accounts (auth_service sv)"
    using DestroySession_idents [of r "net_of sv"] by (auto simp: identities_def)
  then show ?case by (simp add: SessionDestroyed_def attributed_network)
next
  case (started sv now n)
  show ?case by (rule StrandStart_attributed)
next
  case (ticked now ended_at n sv sv')
  then have "small_ids sv" using TickTimer_auth [OF ticked.hyps] by (simp add: small_ids_def)
  with ticked show ?case using TickTimer_attributed by blast
next
  case (queue_timer sv failed now)
  then show ?case by (auto intro: QueueTimer_attributed)
qed

lemma reachable_identities:
  "reachable pf cfg sv \<Longrightarrow> small_ids sv \<Longrightarrow> identities sv \<subseteq> accounts (auth_service sv)"
proof (induction rule: reachable.induct)
  case start
  show ?case
    by (simp add: identities_def idents_defs make_ServerApp_def make_MatchQueueService_def make_SessionManager_def
        make_ResultService_def make_RatingService_def make_ReconnectService_def find_resume_def SetObservability_def
        make_Network_def)
next
  case (step sv sv')
  have att: "attributed sv sv'"
    using server_step_attributed [OF step.hyps(2) reachable_inv reachable_session_ticks step.IH step.prems] step.hyps(1) by blast
  then have small: "small_ids sv" using step.prems by (simp add: attributed_def small_ids_def)
  show ?case by (rule attributed_keeps [OF att step.IH [OF small]])
qed

section \<open>Properties\<close>

text \<open>C3: Whoever the server deals with has an account. As long as the user numbers fit in an \<open>int\<close>, in every
  reachable server each login token, queue entry, participant of a running or ended session, WebSocket
  connection, resume token and rating entry, copied as they are from one component to the next, names the id and
  the name of one and the same registered user; no two of them give one id two names.\<close>

theorem everyone_registered:
  assumes "reachable pf cfg sv" "next_user_id (auth_service sv) \<le> 2 ^ 31"
  shows "login_idents (auth_service sv) \<union> queue_idents (match_queue sv) \<union> session_idents (session_manager sv) \<union>
      connection_idents (net_of sv) \<union> rating_idents (ratings_of sv) \<union> resume_idents (reconnect_service sv)
    \<subseteq> accounts (auth_service sv) \<and> single_valued (accounts (auth_service sv))"
proof -
  have "auth_inv (auth_service sv)" using reachable_inv [OF assms(1)] by (simp add: server_inv_def)
  then have "login_idents (auth_service sv) \<subseteq> accounts (auth_service sv)" "single_valued (accounts (auth_service sv))"
    using accounts_unique by (auto simp: login_accounts single_valued_def)
  moreover have "identities sv \<subseteq> accounts (auth_service sv)"
    using reachable_identities [OF assms(1)] assms(2) by (simp add: small_ids_def)
  ultimately show ?thesis by (simp add: identities_def)
qed

theorem everyone_registered_witness:
  "\<exists>sv. reachable play_platform sample_config sv \<and> {(1, ''ann''), (2, ''bob'')} \<subseteq> accounts (auth_service sv)"
proof -
  obtain sv where sv: "reachable play_platform sample_config sv" "next_user_id (auth_service sv) = 3"
    "queue (match_queue sv) = [(0, play_entry 1 ''ann''), (1, play_entry 2 ''bob'')]"
    using sample_two_waiting by blast
  have "queue_idents (match_queue sv) = {(1, ''ann''), (2, ''bob'')}"
    by (simp add: queue_idents_def sv(3) play_entry_def user_ident_def)
  then show ?thesis using everyone_registered [OF sv(1)] sv(1,2) by auto
qed

text \<open>C4: Every stored result tells the truth about a match. As long as the user numbers fit in an \<open>int\<close>, a
  result that a reachable server has stored is that of an ended session with two different registered players,
  in the order in which they were paired; it has five ticks, and its winner, which the code reads back from the
  JSON snapshot as 32-bit numbers, is the player with the better position at the end, the one with
  the smaller id at a draw.\<close>

theorem stored_result_is_true:
  assumes "reachable pf cfg sv" "next_user_id (auth_service sv) \<le> 2 ^ 31"
    and "FindResult sid (repository (result_service (backend sv))) = Some r"
  shows "\<exists>n ctx p1 p2. sid = session_name n \<and> um_find (contexts (session_manager sv)) n = Some ctx \<and> ended ctx \<and>
    participants ctx = [p1, p2] \<and> {player_ident p1, player_ident p2} \<subseteq> accounts (auth_service sv) \<and>
    sp_user_id p1 \<noteq> sp_user_id p2 \<and>
    mr_user1_id r = sp_user_id p1 \<and> mr_user2_id r = sp_user_id p2 \<and> mr_tick_count r = 5 \<and>
    mr_winner_user_id r =
      (let pos = (\<lambda>p. position (player_of (players (simulation ctx)) (sp_user_id p)))
       in if pos p1 > pos p2 \<or> (pos p1 = pos p2 \<and> sp_user_id p1 < sp_user_id p2)
          then sp_user_id p1 else sp_user_id p2)"
proof -
  have inv: "server_inv sv" using assms(1) by (rule reachable_inv)
  have sm: "sm_inv (session_manager sv)" "results_match (backend_found (backend sv)) (session_manager sv)"
    using inv by (simp_all add: server_inv_def game_good_def game_of_def)
  have r: "backend_found (backend sv) sid = Some r" using assms(3) by (simp add: backend_found_def)
  then obtain n where n: "sid = session_name n" using sm(2) unfolding results_match_def by blast
  obtain ctx where ctx: "um_find (contexts (session_manager sv)) n = Some ctx" "ended ctx"
    using sm(2) r n unfolding results_match_def by (metis option.distinct(1) option.exhaust)
  obtain t p1 p2 where p: "participants ctx = [p1, p2]" "r = result_record t ctx p1 p2"
    using sm(2) r n ctx unfolding results_match_def by (metis option.inject)
  have local: "ctx_local 5 n ctx" using sm_inv_ctx(1) [OF sm(1) ctx(1)] reachable_session_ticks [OF assms(1)] by simp
  then have ticks: "tick_sent ctx = 5" "current_tick (simulation ctx) = 5" "sp_user_id p1 \<noteq> sp_user_id p2"
    using ctx(2) p(1) by (simp_all add: ctx_local_def)
  have known: "player_ident q \<in> accounts (auth_service sv) \<and> int32 (sp_user_id q)" if "q \<in> {p1, p2}" for q
    using registered_int32 [OF inv reachable_identities [OF assms(1)] _ ctx(1), of q] assms(2) p(1) that
    by (auto simp: small_ids_def)
  have "winner_of (Snapshot (simulation ctx)) =
      (let pos = (\<lambda>p. position (player_of (players (simulation ctx)) (sp_user_id p)))
       in if pos p1 > pos p2 \<or> (pos p1 = pos p2 \<and> sp_user_id p1 < sp_user_id p2) then sp_user_id p1 else sp_user_id p2)"
    using known ticks(1) by (intro winner_is_best [OF sm(1) ctx(1) p(1)]) simp_all
  moreover have "get_int (json_at (Snapshot (simulation ctx)) ''tick'') = 5"
    using ticks(2) by (simp add: Snapshot_def to_int32_id)
  ultimately have "mr_user1_id r = sp_user_id p1" "mr_user2_id r = sp_user_id p2" "mr_tick_count r = 5"
    "mr_winner_user_id r =
      (let pos = (\<lambda>p. position (player_of (players (simulation ctx)) (sp_user_id p)))
       in if pos p1 > pos p2 \<or> (pos p1 = pos p2 \<and> sp_user_id p1 < sp_user_id p2) then sp_user_id p1 else sp_user_id p2)"
    by (simp_all add: p(2) result_record_def Let_def)
  with n ctx p(1) known ticks(3) show ?thesis by (intro exI conjI) auto
qed

theorem stored_result_is_true_witness:
  "\<exists>sv r. reachable play_platform sample_config sv \<and>
     FindResult (session_name 1) (repository (result_service (backend sv))) = Some r \<and>
     mr_tick_count r = 5 \<and> mr_winner_user_id r \<in> {mr_user1_id r, mr_user2_id r}"
proof -
  obtain sv r where sv: "reachable play_platform sample_config sv" "next_user_id (auth_service sv) = 3"
    "FindResult (session_name 1) (repository (result_service (backend sv))) = Some r"
    by (rule sample_match_stored)
  then show ?thesis using stored_result_is_true [OF sv(1) _ sv(3)] by (force simp: Let_def)
qed

end
