(* ===== verification/HttpConnection.thy ===== *)
theory HttpConnection
  imports ServerSteps
begin

text \<open>
  One \<open>HttpSession\<close> as a connection: \<open>Run\<close>, \<open>DoRead\<close>, the completion of the read and the completion of
  the response of \<open>http_session.cpp\<close>. The stream is the list of the calls made on it; a pending read and
  a pending write are flags that their completions consume. What a request does to the server is
  \<open>OnHttpRead\<close>.
\<close>

datatype http_call =
    ExpiresAfter int
  | AsyncReadRequest
  | AsyncWriteResponse HttpResponse
  | ShutdownSend
  | ShutdownBoth
  | MoveToWebSocket

text \<open>What \<open>async_read\<close> completes with.\<close>

datatype read_result = EndOfStream | ReadFailed | GotRequest HttpRequest

record HttpConnection =
  http_calls :: "http_call list"
  reading :: bool
  response :: "HttpResponse option"

text \<open>\<open>make_shared<HttpSession>(...)\<close>; the services it is given are those of the server.\<close>

definition make_HttpSession :: HttpConnection where
  "make_HttpSession = \<lparr>http_calls = [], reading = False, response = None\<rparr>"

definition DoReadRequest :: "HttpConnection \<Rightarrow> HttpConnection" where
  "DoReadRequest c = c\<lparr>http_calls := http_calls c @ [ExpiresAfter 30, AsyncReadRequest], reading := True\<rparr>"

definition RunHttp :: "HttpConnection \<Rightarrow> HttpConnection" where
  "RunHttp c = DoReadRequest c"

text \<open>The end of \<open>SendResponse\<close>, and the completion of its write.\<close>

definition WriteResponse :: "HttpResponse \<Rightarrow> HttpConnection \<Rightarrow> HttpConnection" where
  "WriteResponse res c = c\<lparr>http_calls := http_calls c @ [AsyncWriteResponse res], response := Some res\<rparr>"

definition ResponseWritten :: "bool \<Rightarrow> HttpConnection \<Rightarrow> HttpConnection" where
  "ResponseWritten failed c =
     (let c0 = c\<lparr>response := None\<rparr>
      in if failed then c0 else c0\<lparr>http_calls := http_calls c0 @ [ShutdownSend]\<rparr>)"

text \<open>The stream moves into the WebSocket; when \<open>accept\<close> throws, the emptied stream is shut down.\<close>

definition UpgradeStream :: "bool \<Rightarrow> HttpConnection \<Rightarrow> HttpConnection" where
  "UpgradeStream accept_ok c =
     c\<lparr>http_calls := http_calls c @ (if accept_ok then [MoveToWebSocket] else [MoveToWebSocket, ShutdownBoth])\<rparr>"

text \<open>The handler of the read on the connection and the server. When an exception leaves it, the connection
  is released with the handler.\<close>

definition ReadCompleted ::
  "Platform \<Rightarrow> Readings \<Rightarrow> byte list \<Rightarrow> bool \<Rightarrow> read_result \<Rightarrow> HttpConnection \<times> Server
     \<Rightarrow> exn + HttpConnection \<times> Server" where
  "ReadCompleted pf rd rnd accept_ok result w =
     (let c = (fst w)\<lparr>reading := False\<rparr>; sv = snd w
      in case result of
           EndOfStream \<Rightarrow> Inr (c\<lparr>http_calls := http_calls c @ [ShutdownSend]\<rparr>, sv)
         | ReadFailed \<Rightarrow> Inr (c, sv)
         | GotRequest req \<Rightarrow>
             (case OnHttpRead pf rd rnd accept_ok req sv of
                Inl e \<Rightarrow> Inl e
              | Inr (Some res, sv') \<Rightarrow> Inr (WriteResponse res c, sv')
              | Inr (None, sv') \<Rightarrow> Inr (UpgradeStream accept_ok c, sv')))"

section \<open>Runs of one connection\<close>

datatype connection_op =
    ReadDone Readings "byte list" bool read_result
  | WriteDoneOp bool
  | ServerDoes "Server \<Rightarrow> Server"

text \<open>A completion handler runs only when its operation is pending. \<open>ServerDoes f\<close> is anything the rest of
  the server does in between.\<close>

fun connection_step :: "Platform \<Rightarrow> connection_op \<Rightarrow> HttpConnection \<times> Server \<Rightarrow> HttpConnection \<times> Server" where
  "connection_step pf (ReadDone rd rnd ok result) w =
     (if reading (fst w)
      then (case ReadCompleted pf rd rnd ok result w of
              Inl e \<Rightarrow> ((fst w)\<lparr>reading := False\<rparr>, snd w) | Inr w' \<Rightarrow> w')
      else w)"
| "connection_step pf (WriteDoneOp failed) w =
     (if response (fst w) \<noteq> None then (ResponseWritten failed (fst w), snd w) else w)"
| "connection_step pf (ServerDoes f) w = (fst w, f (snd w))"

text \<open>The calls with which a connection uses up its request.\<close>

fun answering :: "http_call \<Rightarrow> bool" where
  "answering (AsyncWriteResponse res) = True"
| "answering MoveToWebSocket = True"
| "answering _ = False"

text \<open>While the first read is pending nothing was answered; afterwards nothing is read any more, and at most
  one answer was given.\<close>

definition connection_inv :: "HttpConnection \<Rightarrow> bool" where
  "connection_inv c \<longleftrightarrow>
     (reading c \<longrightarrow> filter answering (http_calls c) = [] \<and> response c = None) \<and>
     length (filter answering (http_calls c)) \<le> 1 \<and>
     filter (\<lambda>call. call = AsyncReadRequest) (http_calls c) = [AsyncReadRequest] \<and>
     (\<forall>res. response c = Some res \<longrightarrow> last (http_calls c) = AsyncWriteResponse res)"

lemma connection_inv_run: "connection_inv (RunHttp make_HttpSession)"
  by (simp add: connection_inv_def RunHttp_def DoReadRequest_def make_HttpSession_def)

lemma connection_step_inv: "connection_inv (fst w) \<Longrightarrow> connection_inv (fst (connection_step pf op w))"
  by (cases op)
    (auto simp: connection_inv_def ReadCompleted_def WriteResponse_def UpgradeStream_def ResponseWritten_def Let_def
      split: read_result.split sum.split option.split prod.split)

interpretation connection_machine: machine "connection_step pf" "\<lambda>w. connection_inv (fst w)" for pf
  by unfold_locales (rule connection_step_inv)

section \<open>Properties\<close>

text \<open>C29: A connection serves one request: however its reads and writes complete and whatever the server does
  in between, it reads once, gives at most one answer (a response, or its stream to a WebSocket) and none
  before the read, and it never reads and writes at a time.\<close>

theorem one_request_per_connection:
  "let c = fst (fold (connection_step pf) ops (RunHttp make_HttpSession, sv))
   in length (filter answering (http_calls c)) \<le> (if reading c then 0 else 1) \<and>
      filter (\<lambda>call. call = AsyncReadRequest) (http_calls c) = [AsyncReadRequest] \<and>
      \<not> (reading c \<and> response c \<noteq> None)"
  using connection_machine.run_keeps [of "(RunHttp make_HttpSession, sv)" pf ops] connection_inv_run
  by (auto simp: connection_inv_def Let_def)

end
