(* ===== verification/QueueSpec.thy ===== *)
theory QueueSpec
  imports Matchmaking
begin

text \<open>
  What \<open>MatchQueueService\<close> promises, without its index, its list nodes and its timer flags: a list of
  waiting users with the times at which they give up. \<open>MatchQueueService\<close> refines this list, in every
  run of joins, cancels and ticks, whatever the sessions do in between.
\<close>

section \<open>The specification\<close>

type_synonym waiting = "(AuthUser \<times> time_ns) list"

definition waiting_ids :: "waiting \<Rightarrow> int list" where
  "waiting_ids w = map (\<lambda>(user, t). au_user_id user) w"

definition spec_join ::
  "int \<Rightarrow> (int \<Rightarrow> bool) \<Rightarrow> time_ns \<Rightarrow> AuthUser \<Rightarrow> int \<Rightarrow> waiting \<Rightarrow> api_error option \<times> waiting" where
  "spec_join usual busy now user timeout w =
     (if au_user_id user \<in> set (waiting_ids w) \<or> busy (au_user_id user)
      then (Some (''queue_duplicate'', msg_queue_duplicate), w)
      else (None, w @ [(user, add_seconds now (if timeout \<le> 0 then usual else timeout))]))"

definition spec_cancel :: "int \<Rightarrow> waiting \<Rightarrow> api_error option \<times> waiting" where
  "spec_cancel u w =
     (if u \<in> set (waiting_ids w) then (None, filter (\<lambda>(user, t). au_user_id user \<noteq> u) w)
      else (Some (''queue_not_found'', msg_queue_not_found), w))"

fun spec_pair :: "(SessionParticipant list \<Rightarrow> 's \<Rightarrow> 's) \<Rightarrow> waiting \<Rightarrow> 's \<Rightarrow> waiting \<times> 's" where
  "spec_pair create ((a, t) # (b, t') # w) s =
     spec_pair create w
       (create [\<lparr>sp_user_id = au_user_id a, sp_username = au_username a\<rparr>,
                \<lparr>sp_user_id = au_user_id b, sp_username = au_username b\<rparr>] s)"
| "spec_pair create w s = (w, s)"

definition spec_tick ::
  "(SessionParticipant list \<Rightarrow> 's \<Rightarrow> 's) \<Rightarrow> (int \<Rightarrow> string \<Rightarrow> string \<Rightarrow> 's \<Rightarrow> 's) \<Rightarrow> time_ns \<Rightarrow> waiting \<Rightarrow> 's
     \<Rightarrow> waiting \<times> 's" where
  "spec_tick create send_error now w s =
     spec_pair create (filter (\<lambda>(user, t). now < t) w)
       (fold (\<lambda>(user, t). send_error (au_user_id user) ''queue_timeout'' msg_queue_timeout)
         (filter (\<lambda>(user, t). t \<le> now) w) s)"

section \<open>Runs\<close>

text \<open>\<open>Elsewhere f\<close> is anything the sessions and connections do between two calls on the queue.\<close>

datatype 's waiting_op =
    JoinQueue time_ns AuthUser int
  | CancelQueue int
  | TickQueue bool time_ns
  | Elsewhere "'s \<Rightarrow> 's"

fun waiting_step ::
  "('s \<Rightarrow> int \<Rightarrow> bool) \<Rightarrow> (SessionParticipant list \<Rightarrow> 's \<Rightarrow> 's) \<Rightarrow> (int \<Rightarrow> string \<Rightarrow> string \<Rightarrow> 's \<Rightarrow> 's)
     \<Rightarrow> 's waiting_op \<Rightarrow> MatchQueueService \<times> 's \<Rightarrow> api_error option \<times> MatchQueueService \<times> 's" where
  "waiting_step in_session create send_error (JoinQueue now user timeout) (q, s) =
     (let (e, q') = Join (in_session s) now user timeout q in (e, q', s))"
| "waiting_step in_session create send_error (CancelQueue u) (q, s) = (let (e, q') = Cancel u q in (e, q', s))"
| "waiting_step in_session create send_error (TickQueue failed now) (q, s) =
     (None, OnTick create send_error failed now q s)"
| "waiting_step in_session create send_error (Elsewhere f) (q, s) = (None, q, f s)"

fun spec_step ::
  "int \<Rightarrow> ('s \<Rightarrow> int \<Rightarrow> bool) \<Rightarrow> (SessionParticipant list \<Rightarrow> 's \<Rightarrow> 's) \<Rightarrow> (int \<Rightarrow> string \<Rightarrow> string \<Rightarrow> 's \<Rightarrow> 's)
     \<Rightarrow> 's waiting_op \<Rightarrow> waiting \<times> 's \<Rightarrow> api_error option \<times> waiting \<times> 's" where
  "spec_step usual in_session create send_error (JoinQueue now user timeout) (w, s) =
     (let (e, w') = spec_join usual (in_session s) now user timeout w in (e, w', s))"
| "spec_step usual in_session create send_error (CancelQueue u) (w, s) = (let (e, w') = spec_cancel u w in (e, w', s))"
| "spec_step usual in_session create send_error (TickQueue failed now) (w, s) =
     (None, if failed then (w, s) else spec_tick create send_error now w s)"
| "spec_step usual in_session create send_error (Elsewhere f) (w, s) = (None, w, f s)"

section \<open>The refinement\<close>

definition entry_waiting :: "nat \<times> QueueEntry \<Rightarrow> AuthUser \<times> time_ns" where
  "entry_waiting ne = (qe_user (snd ne), expires_at (snd ne))"

definition waiting_of :: "MatchQueueService \<Rightarrow> waiting" where
  "waiting_of q = map entry_waiting (queue q)"

lemma waiting_ids_of: "waiting_ids (waiting_of q) = queue_users q"
  by (simp add: waiting_ids_def waiting_of_def queue_users_def entry_waiting_def split_beta)

lemma spec_pair_entries:
  "spec_pair create (map entry_waiting es) s = (map entry_waiting (unpaired es), fold create (pairs es) s)"
  by (induction es arbitrary: s rule: pairs.induct) (simp_all add: entry_waiting_def participant_of_def)

lemma spec_errors_entries:
  "fold (\<lambda>(user, t). send_error (au_user_id user) ''queue_timeout'' msg_queue_timeout) (map entry_waiting es) s =
     fold (timeout_error send_error) es s"
  by (induction es arbitrary: s) (simp_all add: entry_waiting_def)

lemma Join_refines:
  assumes "mq_inv q"
  shows "spec_join (default_timeout q) busy now user timeout (waiting_of q) =
    (fst (Join busy now user timeout q), waiting_of (snd (Join busy now user timeout q)))"
proof -
  have "au_user_id user \<in> set (waiting_ids (waiting_of q)) \<longleftrightarrow> um_find (user_index q) (au_user_id user) \<noteq> None"
    using mq_inv_index [OF assms, of "au_user_id user"] by (simp add: waiting_ids_of)
  moreover have "fst (Join busy now user timeout q) = None \<Longrightarrow> waiting_of (snd (Join busy now user timeout q)) =
      waiting_of q @ [(user, add_seconds now (if timeout \<le> 0 then default_timeout q else timeout))]"
    by (simp add: Join_queue waiting_of_def entry_waiting_def)
  ultimately show ?thesis
    unfolding spec_join_def using Join_result [of busy now user timeout q] by (metis fst_conv snd_conv)
qed

lemma Cancel_refines:
  assumes inv: "mq_inv q"
  shows "spec_cancel u (waiting_of q) = (fst (Cancel u q), waiting_of (snd (Cancel u q)))"
proof (cases "um_find (user_index q) u")
  case None
  with mq_inv_index [OF inv, of u] show ?thesis by (simp add: spec_cancel_def waiting_ids_of Cancel_def)
next
  case (Some n)
  then obtain e where e: "(n, e) \<in> set (queue q)" "entry_user e = u" using inv by (auto simp: mq_inv_def)
  have "u \<in> set (waiting_ids (waiting_of q))"
    using mq_inv_index [OF inv, of u] Some by (simp add: waiting_ids_of)
  moreover have "erase_node n (queue q) = filter (\<lambda>ne. entry_user (snd ne) \<noteq> u) (queue q)"
    unfolding erase_node_def using queue_user_node [OF inv e(1)] e(2) by (intro filter_cong refl) auto
  ultimately show ?thesis
    using Some by (simp add: spec_cancel_def Cancel_def waiting_of_def filter_map comp_def entry_waiting_def split_beta)
qed

lemma OnTick_refines:
  assumes "mq_inv q"
  shows "spec_tick create send_error now (waiting_of q) s =
    (waiting_of (fst (OnTick create send_error False now q s)), snd (OnTick create send_error False now q s))"
proof -
  have "filter (\<lambda>(user, t). now < t) (waiting_of q) = map entry_waiting (filter (\<lambda>ne. \<not> expired now (snd ne)) (queue q))"
    "filter (\<lambda>(user, t). t \<le> now) (waiting_of q) = map entry_waiting (filter (\<lambda>ne. expired now (snd ne)) (queue q))"
    by (simp_all add: waiting_of_def filter_map comp_def entry_waiting_def not_less [symmetric])
  then show ?thesis
    using OnTick_spec(2,3) [OF assms, where create = create and send_error = send_error and now = now and s = s]
    by (simp add: spec_tick_def spec_errors_entries spec_pair_entries) (simp add: waiting_of_def)
qed

text \<open>The default timeout never changes.\<close>

lemma PairIfPossible_timeout: "default_timeout (fst (PairIfPossible create q s)) = default_timeout q"
proof (induction create q s rule: PairIfPossible.induct)
  case (1 create q s)
  then show ?case by (subst PairIfPossible.simps) (auto split: list.split prod.split)
qed

lemma queue_ops_timeout:
  "default_timeout (snd (Join busy now user timeout q)) = default_timeout q"
  "default_timeout (snd (Cancel u q)) = default_timeout q"
  "mq_inv q \<Longrightarrow> default_timeout (fst (OnTick create send_error failed now q s)) = default_timeout q"
proof -
  show "default_timeout (snd (Join busy now user timeout q)) = default_timeout q" by (simp add: Join_def Let_def)
  show "default_timeout (snd (Cancel u q)) = default_timeout q" by (simp add: Cancel_def split: option.split)
  assume "mq_inv q"
  then have "mq_inv (q\<lparr>timer_waiting := False\<rparr>)" by (simp add: mq_inv_def queue_users_def)
  from timeouts_from_spec [OF this, of "[]" "queue q" send_error now s]
  have "default_timeout (fst (HandleTimeouts send_error now (q\<lparr>timer_waiting := False\<rparr>) s)) = default_timeout q"
    by (simp add: HandleTimeouts_def split_beta Let_def)
  then show "default_timeout (fst (OnTick create send_error failed now q s)) = default_timeout q"
    by (simp add: OnTick_def split_beta Let_def PairIfPossible_timeout)
qed

definition mq_good :: "int \<Rightarrow> MatchQueueService \<times> 's \<Rightarrow> bool" where
  "mq_good d qs \<longleftrightarrow> mq_inv (fst qs) \<and> default_timeout (fst qs) = d"

interpretation waiting_list: refines "waiting_step in_session create send_error"
  "spec_step d in_session create send_error" "\<lambda>(q, s). (waiting_of q, s)" "mq_good d"
  for in_session create send_error d
proof
  fix c and qs :: "MatchQueueService \<times> 'a"
  assume good: "mq_good d qs"
  obtain q s where qs: "qs = (q, s)" by (cases qs)
  have inv: "mq_inv q" "default_timeout q = d" using good by (simp_all add: mq_good_def qs)
  show "spec_step d in_session create send_error c (case qs of (q, s) \<Rightarrow> (waiting_of q, s)) =
      (fst (waiting_step in_session create send_error c qs),
       case snd (waiting_step in_session create send_error c qs) of (q, s) \<Rightarrow> (waiting_of q, s))"
    using Join_refines [OF inv(1)] Cancel_refines [OF inv(1)] OnTick_refines [OF inv(1)] inv(2)
    by (cases c) (auto simp: qs split_beta OnTick_def waiting_of_def)
  show "mq_good d (snd (waiting_step in_session create send_error c qs))"
    using inv by (cases c) (simp_all add: qs split_beta mq_good_def queue_ops_timeout Join_inv Cancel_inv OnTick_inv)
qed

section \<open>Properties\<close>

text \<open>C9: The match queue refines a list of waiting users. In every run of joins, cancels and timer ticks, with
  anything happening to the sessions in between, it gives the answers, starts the sessions and sends the errors
  that the list gives, starts and sends, and it holds the users of the list in order with their deadlines.\<close>

theorem queue_refines_waiting_list:
  "run_answers (spec_step (to_int64 (int seconds)) in_session create send_error) ops ([], s) =
     (let (answers, q, s') = run_answers (waiting_step in_session create send_error) ops
        (make_MatchQueueService (to_int64 (int seconds)), s)
      in (answers, map (\<lambda>(n, e). (qe_user e, expires_at e)) (queue q), s'))"
proof -
  let ?q = "make_MatchQueueService (to_int64 (int seconds))"
  have "mq_good (to_int64 (int seconds)) (?q, s)" using mq_inv_init [of "to_int64 (int seconds)"] by (simp add: mq_good_def) (simp add: make_MatchQueueService_def)
  from waiting_list.run_refines [OF this, of in_session create send_error ops] show ?thesis
    by (simp add: split_beta Let_def waiting_of_def entry_waiting_def make_MatchQueueService_def)
qed

end
