(* ===== verification/SessionSpec.thy ===== *)
theory SessionSpec
  imports SessionOutcome
begin

text \<open>
  What \<open>SessionManager\<close> promises, without its maps by user and by name, its contexts with their flags, and the
  tasks on their strands: numbered matches, each announced, playing or over. \<open>SessionManager\<close> refines them in every
  run: it gives the same answers, sends the same events in the same order and reports the same results.
\<close>

section \<open>The specification\<close>

datatype phase = Announced | Playing | Over

record match =
  m_players :: "SessionParticipant list"
  m_sim :: Simulation
  m_phase :: phase

text \<open>The number of the next match, and the matches so far.\<close>

type_synonym book = "nat \<times> (nat \<Rightarrow> match option)"

definition new_match :: "SessionParticipant list \<Rightarrow> match" where
  "new_match ps = \<lparr>m_players = ps, m_sim = fold (\<lambda>p. AddPlayer (sp_user_id p)) ps make_Simulation, m_phase = Announced\<rparr>"

definition plays_in :: "int \<Rightarrow> match option \<Rightarrow> bool" where
  "plays_in u mo = (case mo of None \<Rightarrow> False | Some m \<Rightarrow> m_phase m \<noteq> Over \<and> u \<in> set (user_ids (m_players m)))"

definition match_of_user :: "int \<Rightarrow> book \<Rightarrow> nat option" where
  "match_of_user u b = find (\<lambda>n. plays_in u (snd b n)) [0..<fst b]"

definition open_matches :: "book \<Rightarrow> nat" where
  "open_matches b = length (filter (\<lambda>n. case snd b n of None \<Rightarrow> False | Some m \<Rightarrow> m_phase m \<noteq> Over) [0..<fst b])"

text \<open>The events of a match carry what the code prints of a session: its name, its players, its simulation.\<close>

definition shown :: "nat \<Rightarrow> match \<Rightarrow> SessionContext" where
  "shown n m = \<lparr>ctx_id = session_name n, participants = m_players m, participant_map = [], simulation = m_sim m,
     tick_sent = 0, ended = False, start_pending = False, timer_armed = False\<rparr>"

definition tell_players :: "(int \<Rightarrow> string \<Rightarrow> json \<Rightarrow> 's \<Rightarrow> 's) \<Rightarrow> match \<Rightarrow> string \<Rightarrow> json \<Rightarrow> 's \<Rightarrow> 's" where
  "tell_players send m event payload s = fold (\<lambda>u. send u event payload) (user_ids (m_players m)) s"

definition judge :: "nat \<Rightarrow> match \<Rightarrow> SessionInput \<Rightarrow> book \<Rightarrow> api_error option \<times> book" where
  "judge n m input b =
     (map_option (\<lambda>r. (''input_invalid'', r)) (ValidateInput (command_of input) (m_sim m)),
      (fst b, (snd b)(n \<mapsto> m\<lparr>m_sim := snd (EnqueueInput (command_of input) (m_sim m))\<rparr>)))"

definition spec_timer ::
  "nat \<Rightarrow> (int \<Rightarrow> string \<Rightarrow> json \<Rightarrow> 's \<Rightarrow> 's) \<Rightarrow> (MatchResultRecord \<Rightarrow> SessionParticipant list \<Rightarrow> 's \<Rightarrow> 's)
     \<Rightarrow> time_ns \<Rightarrow> time_ns \<Rightarrow> nat \<Rightarrow> match \<Rightarrow> 's \<Rightarrow> match \<times> 's" where
  "spec_timer ticks send finalize now ended_at n m s =
     (let m1 = m\<lparr>m_sim := TickOnce (m_sim m)\<rparr>;
          s1 = tell_players send m1 ''session.state'' (state_payload now (shown n m1)) s
      in if current_tick (m_sim m1) < int ticks then (m1, s1)
         else (m1\<lparr>m_phase := Over\<rparr>,
           finalize (result_record ended_at (shown n m1) (m_players m ! 0) (m_players m ! 1)) (m_players m)
             (tell_players send m1 ''session.ended'' (ended_payload (shown n m1)) s1)))"

section \<open>Runs\<close>

datatype desk_op = Act session_op | AskUser int | AskCount

datatype desk_answer = Silent | Named string | Verdict "api_error option" | Crashed exn | Said bool | Counted nat

fun desk_step ::
  "(int \<Rightarrow> string \<Rightarrow> json \<Rightarrow> 's \<Rightarrow> 's) \<Rightarrow> (MatchResultRecord \<Rightarrow> SessionParticipant list \<Rightarrow> 's \<Rightarrow> 's)
     \<Rightarrow> desk_op \<Rightarrow> SessionManager \<times> 's \<Rightarrow> desk_answer \<times> SessionManager \<times> 's" where
  "desk_step send finalize (Act (CreateOp ps)) (sm, s) =
     (if can_create ps sm then (Named (fst (CreateSession ps sm)), snd (CreateSession ps sm), s) else (Silent, sm, s))"
| "desk_step send finalize (Act (StartOp n now)) (sm, s) = (Silent, RunStart send now n (sm, s))"
| "desk_step send finalize (Act (TimerOp n now ended_at)) (sm, s) =
     (case RunTimer send finalize now ended_at n (sm, s) of Inl e \<Rightarrow> (Crashed e, sm, s) | Inr w \<Rightarrow> (Silent, w))"
| "desk_step send finalize (Act (SubmitOp input)) (sm, s) =
     (let (e, sm') = SubmitInput input sm in (Verdict e, sm', s))"
| "desk_step send finalize (Act (TaskOp n input)) (sm, s) = (let (e, sm') = RunInput n input sm in (Verdict e, sm', s))"
| "desk_step send finalize (AskUser u) (sm, s) = (Said (IsUserInSession u sm), sm, s)"
| "desk_step send finalize AskCount (sm, s) = (Counted (ActiveSessionCount sm), sm, s)"

fun desk_spec ::
  "int \<Rightarrow> nat \<Rightarrow> (int \<Rightarrow> string \<Rightarrow> json \<Rightarrow> 's \<Rightarrow> 's) \<Rightarrow> (MatchResultRecord \<Rightarrow> SessionParticipant list \<Rightarrow> 's \<Rightarrow> 's)
     \<Rightarrow> desk_op \<Rightarrow> book \<times> 's \<Rightarrow> desk_answer \<times> book \<times> 's" where
  "desk_spec interval ticks send finalize (Act (CreateOp ps)) (b, s) =
     (if length ps = 2 \<and> distinct (user_ids ps) \<and> list_all (\<lambda>u. match_of_user u b = None) (user_ids ps)
      then (Named (session_name (fst b)), (fst b + 1, (snd b)(fst b \<mapsto> new_match ps)), s) else (Silent, b, s))"
| "desk_spec interval ticks send finalize (Act (StartOp n now)) (b, s) =
     (case snd b n of
        None \<Rightarrow> (Silent, b, s)
      | Some m \<Rightarrow>
          if m_phase m = Announced
          then (Silent, (fst b, (snd b)(n \<mapsto> m\<lparr>m_phase := Playing\<rparr>)),
            tell_players send m ''session.started'' (started_payload interval (shown n m))
              (tell_players send m ''session.created'' (created_payload now (shown n m)) s))
          else (Silent, b, s))"
| "desk_spec interval ticks send finalize (Act (TimerOp n now ended_at)) (b, s) =
     (case snd b n of
        None \<Rightarrow> (Silent, b, s)
      | Some m \<Rightarrow>
          if m_phase m = Playing
          then (let (m', s') = spec_timer ticks send finalize now ended_at n m s
                in (Silent, (fst b, (snd b)(n \<mapsto> m')), s'))
          else (Silent, b, s))"
| "desk_spec interval ticks send finalize (Act (SubmitOp input)) (b, s) =
     (case match_of_user (si_user_id input) b of
        None \<Rightarrow> (Verdict (Some (''session_not_found'', msg_session_not_found)), b, s)
      | Some n \<Rightarrow> (let (e, b') = judge n (the (snd b n)) input b in (Verdict e, b', s)))"
| "desk_spec interval ticks send finalize (Act (TaskOp n input)) (b, s) =
     (case snd b n of
        None \<Rightarrow> (Verdict (Some (''session_not_found'', msg_session_not_found)), b, s)
      | Some m \<Rightarrow>
          if m_phase m = Over then (Verdict (Some (''session_closed'', msg_session_closed)), b, s)
          else if si_user_id input \<notin> set (user_ids (m_players m))
          then (Verdict (Some (''not_participant'', msg_not_participant)), b, s)
          else (let (e, b') = judge n m input b in (Verdict e, b', s)))"
| "desk_spec interval ticks send finalize (AskUser u) (b, s) = (Said (match_of_user u b \<noteq> None), b, s)"
| "desk_spec interval ticks send finalize AskCount (b, s) = (Counted (open_matches b), b, s)"

section \<open>The abstraction\<close>

definition match_of :: "SessionContext \<Rightarrow> match" where
  "match_of ctx = \<lparr>m_players = participants ctx, m_sim = simulation ctx,
     m_phase = (if ended ctx then Over else if start_pending ctx then Announced else Playing)\<rparr>"

definition book_of :: "SessionManager \<Rightarrow> book" where
  "book_of sm = (next_session_id sm, \<lambda>n. map_option match_of (um_find (contexts sm) n))"

lemma match_of_fields [simp]:
  "m_players (match_of ctx) = participants ctx" "m_sim (match_of ctx) = simulation ctx"
  "m_phase (match_of ctx) = Over \<longleftrightarrow> ended ctx"
  "m_phase (match_of ctx) = Announced \<longleftrightarrow> \<not> ended ctx \<and> start_pending ctx"
  "m_phase (match_of ctx) = Playing \<longleftrightarrow> \<not> ended ctx \<and> \<not> start_pending ctx"
  by (simp_all add: match_of_def)

lemma book_of_parts [simp]: "fst (book_of sm) = next_session_id sm"
  "snd (book_of sm) n = map_option match_of (um_find (contexts sm) n)"
  by (simp_all add: book_of_def)

lemma book_of_put: "book_of (put_ctx n ctx sm) = (next_session_id sm, (snd (book_of sm))(n \<mapsto> match_of ctx))"
  by (simp add: book_of_def fun_eq_iff)

lemma plays_in_of: "plays_in u (map_option match_of (um_find (contexts sm) n)) \<longleftrightarrow>
    (\<exists>ctx. live sm n ctx \<and> u \<in> set (user_ids (participants ctx)))"
  by (auto simp: plays_in_def live_def split: option.split)

lemma match_of_user_live:
  assumes inv: "sm_inv sm" and live: "live sm n ctx" and u: "u \<in> set (user_ids (participants ctx))"
  shows "match_of_user u (book_of sm) = Some n"
proof -
  have "m = n" if "plays_in u (snd (book_of sm) m)" for m
  proof -
    have "\<exists>c. live sm m c \<and> u \<in> set (user_ids (participants c))" using that by (simp only: book_of_parts plays_in_of)
    then obtain c where "live sm m c" "u \<in> set (user_ids (participants c))" by (elim exE conjE)
    then have "um_find (user_to_session sm) u = Some (session_name m)" using live_session(1) [OF inv] by simp
    with live_session(1) [OF inv live u] show ?thesis by simp
  qed
  moreover have "plays_in u (snd (book_of sm) n)" using live u unfolding book_of_parts plays_in_of by blast
  ultimately have only: "plays_in u (snd (book_of sm) m) \<longleftrightarrow> m = n" for m by blast
  have "n < next_session_id sm" using live sm_inv_ctx(2) [OF inv] by (auto simp: live_def)
  then have "find (\<lambda>m. m = n) [0..<next_session_id sm] = Some n"
    unfolding find_Some_iff by (intro exI [of _ n]) simp
  then show ?thesis by (simp only: match_of_user_def only book_of_parts(1))
qed

lemma match_of_user_iff:
  assumes inv: "sm_inv sm"
  shows "match_of_user u (book_of sm) = None \<longleftrightarrow> \<not> IsUserInSession u sm"
proof
  assume "match_of_user u (book_of sm) = None"
  then show "\<not> IsUserInSession u sm"
    using match_of_user_live [OF inv] sm_inv_user [OF inv, of u] by (fastforce simp: IsUserInSession_def)
next
  assume out: "\<not> IsUserInSession u sm"
  have "\<not> plays_in u (snd (book_of sm) n)" for n
    using out live_session(1) [OF inv] plays_in_of [of u sm n] by (fastforce simp: IsUserInSession_def)
  then show "match_of_user u (book_of sm) = None" by (simp add: match_of_user_def find_None_iff)
qed

text \<open>The number of sessions is that of the contexts that have not ended.\<close>

lemma ActiveSessionCount_live:
  assumes inv: "sm_inv sm"
  shows "ActiveSessionCount sm = card {n. \<exists>ctx. live sm n ctx}"
proof -
  have "fst ` set (sessions sm) = session_name ` {n. \<exists>ctx. live sm n ctx}"
  proof -
    have "x \<in> fst ` set (sessions sm) \<longleftrightarrow> (\<exists>n. um_find (sessions sm) x = Some n)" for x
      using um_find_None_iff [of "sessions sm" x] by auto
    then have "x \<in> fst ` set (sessions sm) \<longleftrightarrow> (\<exists>n. x = session_name n \<and> (\<exists>ctx. live sm n ctx))" for x
      using sm_inv_find_session [OF inv] by simp
    then show ?thesis by (simp only: set_eq_iff) blast
  qed
  moreover have "um_size (sessions sm) = card (fst ` set (sessions sm))"
    using inv by (simp add: sm_inv_def um_size_card)
  moreover have "inj_on session_name X" for X by (simp add: inj_on_def)
  ultimately show ?thesis by (simp add: ActiveSessionCount_def card_image)
qed

lemma open_matches_of:
  assumes inv: "sm_inv sm"
  shows "open_matches (book_of sm) = ActiveSessionCount sm"
proof -
  let ?open = "\<lambda>n. case snd (book_of sm) n of None \<Rightarrow> False | Some m \<Rightarrow> m_phase m \<noteq> Over"
  have is_open: "?open n \<longleftrightarrow> (\<exists>ctx. live sm n ctx)" for n
    by (auto simp: live_def split: option.split)
  have "set (filter ?open [0..<next_session_id sm]) = {n. \<exists>ctx. live sm n ctx}"
    unfolding is_open using sm_inv_ctx(2) [OF inv] by (auto simp: live_def)
  moreover have "length (filter ?open [0..<next_session_id sm]) = card (set (filter ?open [0..<next_session_id sm]))"
    by (rule distinct_card [symmetric]) simp
  ultimately show ?thesis by (simp only: open_matches_def book_of_parts(1) ActiveSessionCount_live [OF inv])
qed

lemma tell_players_of: "tell_players send (match_of ctx) ev p s = BroadcastToParticipants send ctx ev p s"
  by (simp add: tell_players_def BroadcastToParticipants_def fold_map comp_def)

text \<open>What is shown of a match is what the code prints of the context.\<close>

lemma shown_payloads:
  assumes "ctx_id ctx = session_name n"
  shows "created_payload now (shown n (match_of ctx)) = created_payload now ctx"
    "started_payload interval (shown n (match_of ctx)) = started_payload interval ctx"
    "state_payload now (shown n (match_of ctx)) = state_payload now ctx"
    "ended_payload (shown n (match_of ctx)) = ended_payload ctx"
    "result_record t (shown n (match_of ctx)) p1 p2 = result_record t ctx p1 p2"
  using assms
  by (simp_all add: shown_def created_payload_def started_payload_def state_payload_def ended_payload_def result_record_def)

section \<open>The refinement\<close>

definition desk_good :: "int \<Rightarrow> nat \<Rightarrow> SessionManager \<times> 's \<Rightarrow> bool" where
  "desk_good interval ticks w \<longleftrightarrow> sm_inv (fst w) \<and> tick_interval_ms (fst w) = interval \<and> session_ticks (fst w) = ticks"

lemma Create_refines:
  assumes "sm_inv sm"
  shows "desk_spec i k send finalize (Act (CreateOp ps)) (book_of sm, s) =
    (let (a, sm', s') = desk_step send finalize (Act (CreateOp ps)) (sm, s) in (a, book_of sm', s'))"
proof -
  have "list_all (\<lambda>u. match_of_user u (book_of sm) = None) (user_ids ps) \<longleftrightarrow> (\<forall>u \<in> set (user_ids ps). \<not> IsUserInSession u sm)"
    by (simp add: list_all_iff match_of_user_iff [OF assms])
  then have can: "(length ps = 2 \<and> distinct (user_ids ps) \<and> list_all (\<lambda>u. match_of_user u (book_of sm) = None) (user_ids ps))
      \<longleftrightarrow> can_create ps sm"
    by (simp only: can_create_def)
  have "book_of (snd (CreateSession ps sm)) = (next_session_id sm + 1, (snd (book_of sm))(next_session_id sm \<mapsto> new_match ps))"
    by (simp add: book_of_def CreateSession_views fun_eq_iff match_of_def new_ctx_def new_match_def)
  moreover have "fst (CreateSession ps sm) = session_name (next_session_id sm)"
    by (simp add: CreateSession_def Let_def)
  ultimately show ?thesis by (simp only: desk_spec.simps desk_step.simps can book_of_parts) simp
qed

lemma Start_refines:
  assumes "sm_inv sm" "tick_interval_ms sm = i"
  shows "desk_spec i k send finalize (Act (StartOp n now)) (book_of sm, s) =
    (let (a, sm', s') = desk_step send finalize (Act (StartOp n now)) (sm, s) in (a, book_of sm', s'))"
proof (cases rule: RunStart_cases [of send now n sm s])
  case idle
  then show ?thesis by (simp split: option.split)
next
  case (start ctx)
  have local: "ctx_local (session_ticks sm) n ctx" using assms(1) start(1) by (rule sm_inv_ctx)
  then have running: "\<not> ended ctx" "ctx_id ctx = session_name n" using start(2) by (auto simp: ctx_local_def split: if_splits)
  then have started: "match_of (ctx\<lparr>start_pending := False, timer_armed := True\<rparr>) = (match_of ctx)\<lparr>m_phase := Playing\<rparr>"
    by (simp add: match_of_def)
  show ?thesis
    using start assms(2) running(1) shown_payloads [OF running(2)]
    by (simp add: tell_players_of book_of_put started del: match_of_fields(1,2))
qed

lemma judge_of:
  "um_find (contexts sm) n = Some ctx \<Longrightarrow> judge n (match_of ctx) input (book_of sm) =
     (map_option (\<lambda>r. (''input_invalid'', r)) (ValidateInput (command_of input) (simulation ctx)),
      book_of (put_ctx n (ctx\<lparr>simulation := snd (EnqueueInput (command_of input) (simulation ctx))\<rparr>) sm))"
  by (simp add: judge_def book_of_put match_of_def)

lemma Submit_refines:
  assumes inv: "sm_inv sm"
  shows "desk_spec i k send finalize (Act (SubmitOp input)) (book_of sm, s) =
    (let (a, sm', s') = desk_step send finalize (Act (SubmitOp input)) (sm, s) in (a, book_of sm', s'))"
  using inv
proof (cases rule: SubmitInput_cases [where input = input])
  case none
  then have "match_of_user (si_user_id input) (book_of sm) = None" by (simp add: match_of_user_iff [OF inv])
  with none show ?thesis by simp
next
  case (live n ctx)
  have "um_find (contexts sm) n = Some ctx" using live(1) by (simp add: live_def)
  with live(3) match_of_user_live [OF inv live(1,2)] show ?thesis by (simp add: judge_of)
qed

lemma Task_refines:
  assumes inv: "sm_inv sm"
  shows "desk_spec i k send finalize (Act (TaskOp n input)) (book_of sm, s) =
    (let (a, sm', s') = desk_step send finalize (Act (TaskOp n input)) (sm, s) in (a, book_of sm', s'))"
proof (cases "um_find (contexts sm) n")
  case None
  then show ?thesis by (simp add: RunInput_def)
next
  case (Some ctx)
  have part: "um_find (participant_map ctx) (si_user_id input) = None \<longleftrightarrow>
      si_user_id input \<notin> set (user_ids (participants ctx))"
    using sm_inv_ctx(1) [OF inv Some] unfolding ctx_local_def by blast
  consider "ended ctx" | "\<not> ended ctx" "si_user_id input \<notin> set (user_ids (participants ctx))"
    | "\<not> ended ctx" "si_user_id input \<in> set (user_ids (participants ctx))" by blast
  then show ?thesis
  proof cases
    case 1
    then show ?thesis by (simp add: Some RunInput_ended)
  next
    case 2
    then have "RunInput n input sm = (Some (''not_participant'', msg_not_participant), sm)"
      using Some part by (simp add: RunInput_def SubmitOnStrand_def put_ctx_same)
    with 2 Some show ?thesis by simp
  next
    case 3
    with Some RunInput_live [OF inv, of n ctx input] show ?thesis by (simp add: live_def judge_of)
  qed
qed

lemma Timer_refines:
  assumes inv: "sm_inv sm" and k: "session_ticks sm = k"
  shows "desk_spec i k send finalize (Act (TimerOp n now ended_at)) (book_of sm, s) =
    (let (a, sm', s') = desk_step send finalize (Act (TimerOp n now ended_at)) (sm, s) in (a, book_of sm', s'))"
  using inv
proof (cases rule: RunTimer_cases [where send = send and finalize = finalize and now = now and ended_at = ended_at
      and n = n and s = s])
  case idle
  have "\<not> (\<not> ended ctx \<and> \<not> start_pending ctx)" if "um_find (contexts sm) n = Some ctx" for ctx
    using idle(2) [OF that] sm_inv_ctx(1) [OF inv that] by (auto simp: ctx_local_def split: if_splits)
  with idle(1) show ?thesis by (auto split: option.split)
next
  case (running ctx)
  have ctx: "um_find (contexts sm) n = Some ctx" "\<not> ended ctx" using running(1) by (simp_all add: live_def)
  note local = sm_inv_ctx(1) [OF inv ctx(1)]
  have phase: "m_phase (match_of ctx) = Playing"
    using local ctx(2) running(2) by (simp add: ctx_local_def)
  have next_match: "match_of (ScheduleTick (ticked ctx)) = (match_of ctx)\<lparr>m_sim := TickOnce (simulation ctx)\<rparr>"
    "(match_of ctx)\<lparr>m_sim := TickOnce (simulation ctx)\<rparr> = match_of (ticked ctx)"
    by (simp_all add: match_of_def ticked_def ScheduleTick_def)
  have "ctx_id (ticked ctx) = session_name n" using local by (simp add: ctx_local_def ticked_def)
  note shown = shown_payloads [OF this]
  have "current_tick (TickOnce (simulation ctx)) < int k"
    using local running(3) k by (simp add: ctx_local_def)
  then have "spec_timer k send finalize now ended_at n (match_of ctx) s =
      (match_of (ScheduleTick (ticked ctx)),
       BroadcastToParticipants send (ticked ctx) ''session.state'' (state_payload now (ticked ctx)) s)"
    by (simp add: spec_timer_def next_match(1) Let_def) (simp add: next_match(2) tell_players_of shown)
  with running(4) ctx(1) phase show ?thesis by (simp add: book_of_put del: match_of_fields)
next
  case (last ctx p1 p2)
  have ctx: "um_find (contexts sm) n = Some ctx" "\<not> ended ctx" using last(1) by (simp_all add: live_def)
  note local = sm_inv_ctx(1) [OF inv ctx(1)]
  have phase: "m_phase (match_of ctx) = Playing"
    using local ctx(2) last(2) by (simp add: ctx_local_def)
  have over: "(match_of (ticked ctx))\<lparr>m_phase := Over\<rparr> = match_of ((ticked ctx)\<lparr>ended := True\<rparr>)"
    "(match_of ctx)\<lparr>m_sim := TickOnce (simulation ctx)\<rparr> = match_of (ticked ctx)"
    by (simp_all add: match_of_def ticked_def)
  have "ctx_id (ticked ctx) = session_name n" using local by (simp add: ctx_local_def ticked_def)
  note shown = shown_payloads [OF this]
  have "\<not> current_tick (TickOnce (simulation ctx)) < int k"
    using local last(3) k by (simp add: ctx_local_def)
  then have "spec_timer k send finalize now ended_at n (match_of ctx) s =
      (match_of ((ticked ctx)\<lparr>ended := True\<rparr>),
       finalize (result_record ended_at (ticked ctx) p1 p2) [p1, p2]
         (BroadcastToParticipants send (ticked ctx) ''session.ended'' (ended_payload (ticked ctx))
           (BroadcastToParticipants send (ticked ctx) ''session.state'' (state_payload now (ticked ctx)) s)))"
    using last(4) by (simp add: spec_timer_def Let_def) (simp add: over tell_players_of shown)
  moreover have "book_of (finished_manager n (ticked ctx) sm) =
      (next_session_id sm, (snd (book_of sm))(n \<mapsto> match_of ((ticked ctx)\<lparr>ended := True\<rparr>)))"
    by (simp add: book_of_def finished_manager_def fun_eq_iff)
  ultimately show ?thesis using last(5) ctx(1) phase by (simp del: match_of_fields)
qed

lemma desk_step_session: "snd (desk_step send finalize (Act op) w) = session_step send finalize op w"
  by (cases w; cases op) (simp_all add: split_beta Let_def split: sum.split)

lemma session_step_interval:
  assumes "sm_inv (fst w)"
  shows "tick_interval_ms (fst (session_step send finalize op w)) = tick_interval_ms (fst w)"
proof (cases op)
  case (TimerOp n now ended_at)
  obtain sm s where w: "w = (sm, s)" by (cases w)
  from assms w have "sm_inv sm" by simp
  then show ?thesis
    by (cases rule: RunTimer_cases [where send = send and finalize = finalize and now = now
          and ended_at = ended_at and n = n and s = s])
      (simp_all add: TimerOp w finished_manager_def)
next
  case (StartOp n now)
  obtain sm s where w: "w = (sm, s)" by (cases w)
  show ?thesis by (cases rule: RunStart_cases [of send now n sm s]) (simp_all add: StartOp w)
next
  case (SubmitOp input)
  from assms show ?thesis by (cases rule: SubmitInput_cases [where input = input]) (simp_all add: SubmitOp)
next
  case (TaskOp n input)
  from assms show ?thesis by (cases rule: RunInput_cases [where n = n and input = input]) (simp_all add: TaskOp)
qed (simp add: CreateSession_views)

interpretation match_book: refines "desk_step send finalize" "desk_spec interval ticks send finalize"
  "\<lambda>(sm, s). (book_of sm, s)" "desk_good interval ticks"
  for send finalize interval ticks
proof
  fix c and w :: "SessionManager \<times> 'a"
  assume good: "desk_good interval ticks w"
  obtain sm s where w: "w = (sm, s)" by (cases w)
  have inv: "sm_inv sm" "tick_interval_ms sm = interval" "session_ticks sm = ticks"
    using good by (simp_all add: desk_good_def w)
  have "desk_spec interval ticks send finalize c (book_of sm, s) =
      (let (a, sm', s') = desk_step send finalize c (sm, s) in (a, book_of sm', s'))"
  proof (cases c)
    case (Act op)
    show ?thesis
      unfolding Act
      by (cases op) (simp_all only: Create_refines [OF inv(1)] Start_refines [OF inv(1,2)] Timer_refines [OF inv(1,3)]
          Submit_refines [OF inv(1)] Task_refines [OF inv(1)])
  qed (simp_all add: match_of_user_iff [OF inv(1)] open_matches_of [OF inv(1)])
  then show "desk_spec interval ticks send finalize c (case w of (sm, s) \<Rightarrow> (book_of sm, s)) =
      (fst (desk_step send finalize c w), case snd (desk_step send finalize c w) of (sm, s) \<Rightarrow> (book_of sm, s))"
    by (simp add: w split_beta Let_def)
  show "desk_good interval ticks (snd (desk_step send finalize c w))"
  proof (cases c)
    case (Act op)
    then show ?thesis
      using good session_step_inv [of w send finalize op] session_ticks_step [of w send finalize op]
        session_step_interval [of w send finalize op]
      by (simp add: desk_step_session desk_good_def)
  qed (use good in \<open>simp_all add: w\<close>)
qed

section \<open>Properties\<close>

text \<open>C8: The session manager refines a book of numbered matches. In every run of creations, start tasks, timer
  expiries, submitted and overtaken inputs, and questions, whoever receives the events and the results, it gives
  the answers that the book gives, sends the events and reports the results that the book sends and reports, in
  this order, never ends in an exception, and holds the matches of the book with their players and simulations.\<close>

theorem sessions_refine_matches:
  "run_answers (desk_spec interval (max 1 k) send finalize) ops ((1, \<lambda>n. None), s) =
     (let (answers, sm, s') = run_answers (desk_step send finalize) ops (make_SessionManager interval k, s)
      in (answers, book_of sm, s'))"
proof -
  let ?sm = "make_SessionManager interval k"
  have "desk_good interval (max 1 k) (?sm, s)"
    using sm_inv_init by (simp add: desk_good_def session_ticks_def) (simp add: make_SessionManager_def)
  moreover have "book_of ?sm = (1, \<lambda>n. None)" by (simp add: book_of_def make_SessionManager_def)
  ultimately show ?thesis
    using match_book.run_refines [of interval "max 1 k" "(?sm, s)" send finalize ops] by (simp add: split_beta Let_def)
qed

end
