(* ===== verification/ThreadPool.thy ===== *)
theory ThreadPool
  imports SessionOutcome
begin

text \<open>
  \<open>SubmitInput\<close> of \<open>session_manager.cpp\<close> on the threads that \<open>RunWorkers\<close> of \<open>app.cpp\<close> starts. A task needs a
  thread; the tasks of a session's strand run one at a time; a task dispatched to a strand that is idle runs at
  once, one dispatched to a strand that is not idle is queued; and \<open>SubmitInput\<close>, which waits for the future of the
  task it dispatched, keeps its thread until a second thread has run this task. The lemmas say when the pool can
  hang: every thread waits for a task and no thread is left to run one.
\<close>

section \<open>The pool\<close>

text \<open>The sessions with whoever receives their events; the threads that are free; the sessions whose strand runs a
  start or a tick; the tasks queued on strands, each with a thread that waits for it.\<close>

record 's Pool =
  world :: "SessionManager \<times> 's"
  free_threads :: nat
  running :: "nat list"
  blocked :: "(nat \<times> SessionInput) list"

definition make_Pool :: "nat \<Rightarrow> SessionManager \<times> 's \<Rightarrow> 's Pool" where
  "make_Pool threads w = \<lparr>world = w, free_threads = threads, running = [], blocked = []\<rparr>"

definition strand_idle :: "nat \<Rightarrow> 's Pool \<Rightarrow> bool" where
  "strand_idle n p \<longleftrightarrow> n \<notin> set (running p) \<and> n \<notin> fst ` set (blocked p)"

type_synonym 's sender = "int \<Rightarrow> string \<Rightarrow> json \<Rightarrow> 's \<Rightarrow> 's"
type_synonym 's finalizer = "MatchResultRecord \<Rightarrow> SessionParticipant list \<Rightarrow> 's \<Rightarrow> 's"

text \<open>\<open>SubmitInput\<close> by a thread of the pool: the lookup, the dispatch, and the wait for the future.\<close>

definition SubmitInPool :: "SessionInput \<Rightarrow> 's Pool \<Rightarrow> 's Pool" where
  "SubmitInPool input p =
     (case SubmitLookup input (fst (world p)) of
        Inl e \<Rightarrow> p
      | Inr n \<Rightarrow>
          if strand_idle n p then p\<lparr>world := (snd (RunInput n input (fst (world p))), snd (world p))\<rparr>
          else p\<lparr>free_threads := free_threads p - 1, blocked := blocked p @ [(n, input)]\<rparr>)"

text \<open>The other tasks of a strand: \<open>StartSession\<close> and \<open>HandleTick\<close>.\<close>

fun strand_task :: "session_op \<Rightarrow> nat option" where
  "strand_task (StartOp n now) = Some n"
| "strand_task (TimerOp n now ended_at) = Some n"
| "strand_task op = None"

text \<open>The steps of the pool, with \<open>c\<close> open connections, each of which runs one handler at a time.\<close>

inductive pool_step :: "'s sender \<Rightarrow> 's finalizer \<Rightarrow> nat \<Rightarrow> 's Pool \<Rightarrow> 's Pool \<Rightarrow> bool" for send finalize c where
  submit: "0 < free_threads p \<Longrightarrow> length (blocked p) < c \<Longrightarrow> pool_step send finalize c p (SubmitInPool input p)"
| create: "0 < free_threads p \<Longrightarrow>
    pool_step send finalize c p (p\<lparr>world := session_step send finalize (CreateOp ps) (world p)\<rparr>)"
| begins: "0 < free_threads p \<Longrightarrow> strand_task op = Some n \<Longrightarrow> strand_idle n p \<Longrightarrow>
    pool_step send finalize c p (p\<lparr>world := session_step send finalize op (world p),
      free_threads := free_threads p - 1, running := n # running p\<rparr>)"
| ends: "n \<in> set (running p) \<Longrightarrow>
    pool_step send finalize c p (p\<lparr>free_threads := free_threads p + 1, running := remove1 n (running p)\<rparr>)"
| resumes: "0 < free_threads p \<Longrightarrow> blocked p = xs @ (n, input) # ys \<Longrightarrow> n \<notin> fst ` set xs \<Longrightarrow>
    n \<notin> set (running p) \<Longrightarrow>
    pool_step send finalize c p (p\<lparr>world := session_step send finalize (TaskOp n input) (world p),
      free_threads := free_threads p + 1, blocked := xs @ ys\<rparr>)"

inductive_cases pool_step_cases: "pool_step send finalize c p p'"

inductive pool_reach :: "'s sender \<Rightarrow> 's finalizer \<Rightarrow> nat \<Rightarrow> 's Pool \<Rightarrow> 's Pool \<Rightarrow> bool" for send finalize c p0 where
  here: "pool_reach send finalize c p0 p0"
| further: "pool_reach send finalize c p0 p \<Longrightarrow> pool_step send finalize c p p' \<Longrightarrow> pool_reach send finalize c p0 p'"

lemma pool_reach_trans:
  "pool_reach send finalize c q r \<Longrightarrow> pool_reach send finalize c p q \<Longrightarrow> pool_reach send finalize c p r"
  by (induction rule: pool_reach.induct) (auto intro: pool_reach.further)

text \<open>No thread is free and none will be: all of them wait.\<close>

definition hangs :: "'s Pool \<Rightarrow> bool" where
  "hangs p \<longleftrightarrow> free_threads p = 0 \<and> running p = []"

lemma hangs_no_step: "hangs p \<Longrightarrow> \<not> pool_step send finalize c p p'"
  by (auto simp: hangs_def elim: pool_step_cases)

lemma hangs_forever: "pool_reach send finalize c p p' \<Longrightarrow> hangs p \<Longrightarrow> p' = p"
  by (induction rule: pool_reach.induct) (auto dest: hangs_no_step)

section \<open>Threads\<close>

definition pool_inv :: "nat \<Rightarrow> nat \<Rightarrow> 's Pool \<Rightarrow> bool" where
  "pool_inv k c p \<longleftrightarrow> free_threads p + length (running p) + length (blocked p) = k \<and> length (blocked p) \<le> c \<and>
     (k \<le> 1 \<longrightarrow> blocked p = [])"

lemma pool_inv_init: "pool_inv k c (make_Pool k w)"
  by (simp add: pool_inv_def make_Pool_def)

lemma SubmitInPool_inv:
  assumes "pool_inv k c p" "0 < free_threads p" "length (blocked p) < c"
  shows "pool_inv k c (SubmitInPool input p)"
proof -
  have "k \<le> 1 \<Longrightarrow> length (running p) = 0" using assms by (cases "running p") (auto simp: pool_inv_def)
  then have "k \<le> 1 \<Longrightarrow> strand_idle n p" for n
    using assms(1) by (simp add: pool_inv_def strand_idle_def)
  with assms show ?thesis by (auto simp: SubmitInPool_def pool_inv_def split: sum.split)
qed

lemma pool_step_inv: "pool_step send finalize c p p' \<Longrightarrow> pool_inv k c p \<Longrightarrow> pool_inv k c p'"
proof (induction rule: pool_step.induct)
  case (submit p input)
  then show ?case by (intro SubmitInPool_inv)
next
  case (ends n p)
  then have "0 < length (running p)" by auto
  with ends show ?case by (auto simp: pool_inv_def length_remove1)
next
  case (resumes p xs n input ys)
  then show ?case by (auto simp: pool_inv_def)
qed (auto simp: pool_inv_def)

lemma pool_reach_inv: "pool_reach send finalize c p0 p \<Longrightarrow> pool_inv k c p0 \<Longrightarrow> pool_inv k c p"
  by (induction rule: pool_reach.induct) (auto intro: pool_step_inv)

text \<open>The sessions of a pool go through a run of session operations: what holds of those, holds here.\<close>

lemma SubmitInPool_world:
  "world (SubmitInPool input p) = world p \<or>
     (\<exists>n. world (SubmitInPool input p) = session_step send finalize (TaskOp n input) (world p))"
  by (auto simp: SubmitInPool_def split: sum.split)

lemma pool_step_world:
  "pool_step send finalize c p p' \<Longrightarrow> world p' = world p \<or> (\<exists>op. world p' = session_step send finalize op (world p))"
proof (induction rule: pool_step.induct)
  case (submit p input)
  then show ?case using SubmitInPool_world [of input p send finalize] by blast
next
  case (create p ps)
  have "world (p\<lparr>world := session_step send finalize (CreateOp ps) (world p)\<rparr>) = session_step send finalize (CreateOp ps) (world p)"
    by simp
  then show ?case by blast
next
  case (begins p op n)
  have "world (p\<lparr>world := session_step send finalize op (world p), free_threads := free_threads p - 1,
      running := n # running p\<rparr>) = session_step send finalize op (world p)" by simp
  then show ?case by blast
next
  case (resumes p xs n input ys)
  have "world (p\<lparr>world := session_step send finalize (TaskOp n input) (world p), free_threads := free_threads p + 1,
      blocked := xs @ ys\<rparr>) = session_step send finalize (TaskOp n input) (world p)" by simp
  then show ?case by blast
qed simp

lemma pool_reach_world:
  "pool_reach send finalize c p0 p \<Longrightarrow> \<exists>ops. world p = fold (session_step send finalize) ops (world p0)"
proof (induction rule: pool_reach.induct)
  case here
  have "world p0 = fold (session_step send finalize) [] (world p0)" by simp
  then show ?case ..
next
  case (further p p')
  then obtain ops where ops: "world p = fold (session_step send finalize) ops (world p0)" by blast
  from pool_step_world [OF further.hyps(2)] show ?case
  proof
    assume "world p' = world p"
    with ops show ?thesis by auto
  next
    assume "\<exists>op. world p' = session_step send finalize op (world p)"
    then obtain op where "world p' = fold (session_step send finalize) (ops @ [op]) (world p0)" using ops by auto
    then show ?thesis ..
  qed
qed

section \<open>The hang\<close>

text \<open>A player sends inputs over one connection after the other while the strand of his session is busy.\<close>

definition flooded :: "nat \<Rightarrow> nat \<Rightarrow> SessionInput \<Rightarrow> nat \<Rightarrow> 's Pool \<Rightarrow> bool" where
  "flooded n k input j p \<longleftrightarrow> SubmitLookup input (fst (world p)) = Inr n \<and> running p = [n] \<and>
     blocked p = replicate j (n, input) \<and> free_threads p + j + 1 = k"

lemma flood:
  "flooded n k input 0 p \<Longrightarrow> k \<le> c \<Longrightarrow> j < k \<Longrightarrow> \<exists>p'. pool_reach send finalize c p p' \<and> flooded n k input j p'"
proof (induction j)
  case 0
  then show ?case by (auto intro: pool_reach.here)
next
  case (Suc j)
  then obtain q where q: "pool_reach send finalize c p q" "flooded n k input j q" by auto
  let ?q = "SubmitInPool input q"
  have "pool_step send finalize c q ?q" using q(2) Suc.prems by (intro pool_step.submit) (auto simp: flooded_def)
  moreover have "\<not> strand_idle n q" using q(2) by (simp add: flooded_def strand_idle_def)
  then have "flooded n k input (Suc j) ?q"
    using q(2) Suc.prems by (simp add: flooded_def SubmitInPool_def replicate_append_same)
  ultimately show ?case using q(1) pool_reach.further by blast
qed

lemma start_floods:
  assumes inv: "sm_inv (fst w)" and ctx: "um_find (contexts (fst w)) n = Some ctx" "start_pending ctx"
    and u: "si_user_id input \<in> set (user_ids (participants ctx))" and k: "0 < k"
  shows "\<exists>p. pool_reach send finalize c (make_Pool k w) p \<and> flooded n k input 0 p"
proof -
  let ?fresh = "make_Pool k w" and ?op = "StartOp n 0"
  let ?begun = "?fresh\<lparr>world := session_step send finalize ?op (world ?fresh), free_threads := free_threads ?fresh - 1,
    running := n # running ?fresh\<rparr>"
  obtain sm s where w: "w = (sm, s)" by (cases w)
  have "pool_step send finalize c ?fresh ?begun"
    by (rule pool_step.begins [where p = ?fresh and op = ?op and n = n])
      (use k in \<open>simp_all add: make_Pool_def strand_idle_def\<close>)
  then have reach: "pool_reach send finalize c ?fresh ?begun" by (rule pool_reach.further [OF pool_reach.here])
  let ?ctx = "ctx\<lparr>start_pending := False, timer_armed := True\<rparr>"
  have "\<not> ended ctx" using started_local [OF sm_inv_ctx(1) [OF inv ctx(1)] ctx(2)] by simp
  then have "live (fst (session_step send finalize ?op w)) n ?ctx"
    using RunStart_pending [of sm n ctx send 0 s] ctx by (simp add: w live_def)
  moreover have "sm_inv (fst (session_step send finalize ?op w))" using inv by (rule session_step_inv)
  ultimately have "SubmitLookup input (fst (session_step send finalize ?op w)) = Inr n"
    using u by (intro SubmitLookup_live [where ctx = ?ctx]) simp_all
  with k have "flooded n k input 0 ?begun" by (simp add: flooded_def make_Pool_def)
  with reach show ?thesis by blast
qed

text \<open>The strand's task ends, and its thread takes another input before it comes back to the strand.\<close>

lemma flood_hangs:
  assumes "flooded n k input (k - 1) p" "2 \<le> k" "k \<le> c"
  shows "\<exists>p'. pool_reach send finalize c p p' \<and> hangs p'"
proof -
  let ?q = "p\<lparr>free_threads := free_threads p + 1, running := remove1 n (running p)\<rparr>"
  let ?r = "SubmitInPool input ?q"
  have "pool_step send finalize c p ?q" using assms(1) by (intro pool_step.ends) (simp add: flooded_def)
  moreover have "pool_step send finalize c ?q ?r"
    using assms by (intro pool_step.submit) (simp_all add: flooded_def)
  moreover have "\<not> strand_idle n ?q" using assms by (simp add: flooded_def strand_idle_def)
  then have "hangs ?r" using assms by (simp add: flooded_def SubmitInPool_def hangs_def)
  ultimately show ?thesis by (blast intro: pool_reach.intros)
qed

section \<open>Properties\<close>

text \<open>C19: When the server can hang. A pool of \<open>k\<close> threads, with \<open>c\<close> open connections and a session about to start,
  can reach a state in which every thread waits in \<open>SubmitInput\<close> for a task that no thread is left to run, and
  which no step leaves, exactly when it has two threads or more and not more threads than there are connections;
  one thread alone never hangs, since it finds every strand idle.\<close>

theorem pool_hangs_iff:
  assumes "sm_inv (fst w)" "um_find (contexts (fst w)) n = Some ctx" "start_pending ctx" "0 < k"
  shows "(\<exists>p. pool_reach send finalize c (make_Pool k w) p \<and> free_threads p = 0 \<and> length (blocked p) = k \<and>
      (\<forall>p'. \<not> pool_step send finalize c p p')) \<longleftrightarrow> 2 \<le> k \<and> k \<le> c"
proof
  assume "\<exists>p. pool_reach send finalize c (make_Pool k w) p \<and> free_threads p = 0 \<and> length (blocked p) = k \<and>
      (\<forall>p'. \<not> pool_step send finalize c p p')"
  then obtain p where p: "pool_reach send finalize c (make_Pool k w) p" "length (blocked p) = k" by blast
  have "pool_inv k c p" by (rule pool_reach_inv [OF p(1) pool_inv_init])
  with p(2) assms(4) show "2 \<le> k \<and> k \<le> c" by (cases "k \<le> 1") (auto simp: pool_inv_def)
next
  assume k: "2 \<le> k \<and> k \<le> c"
  obtain p1 p2 where "participants ctx = [p1, p2]"
    using ctx_local_parts(4) [OF sm_inv_ctx(1) [OF assms(1,2)]] by blast
  then have u: "si_user_id (sample_input\<lparr>si_user_id := sp_user_id p1\<rparr>) \<in> set (user_ids (participants ctx))" by simp
  define input where "input = sample_input\<lparr>si_user_id := sp_user_id p1\<rparr>"
  obtain p where p: "pool_reach send finalize c (make_Pool k w) p" "flooded n k input 0 p"
    using start_floods [OF assms(1-3) u assms(4)] unfolding input_def by blast
  obtain q where q: "pool_reach send finalize c p q" "flooded n k input (k - 1) q"
    using flood [OF p(2), of c "k - 1"] k by auto
  obtain r where r: "pool_reach send finalize c q r" "hangs r"
    using flood_hangs [OF q(2)] k by blast
  have reach: "pool_reach send finalize c (make_Pool k w) r"
    using r(1) q(1) p(1) by (blast intro: pool_reach_trans)
  have "pool_inv k c r" by (rule pool_reach_inv [OF reach pool_inv_init])
  with r(2) have "free_threads r = 0" "length (blocked r) = k" by (auto simp: pool_inv_def hangs_def)
  with reach r(2) hangs_no_step show "\<exists>p. pool_reach send finalize c (make_Pool k w) p \<and> free_threads p = 0 \<and>
      length (blocked p) = k \<and> (\<forall>p'. \<not> pool_step send finalize c p p')" by blast
qed

theorem pool_hangs_iff_witness:
  "\<exists>p. pool_reach (\<lambda>u e p s. s) (\<lambda>r ps s. s) 4 (make_Pool 4 (sample_manager, ())) p \<and> free_threads p = 0 \<and>
     length (blocked p) = 4 \<and> (\<forall>p'. \<not> pool_step (\<lambda>u e p s. s) (\<lambda>r ps s. s) 4 p p')"
  using pool_hangs_iff [of "(sample_manager, ())" 1 "new_ctx 1 sample_players" 4] sample_manager_inv sample_manager_ctx
  by (simp add: new_ctx_def)

end
