(* ===== verification/Metrics.thy ===== *)
theory Metrics
  imports ServerRuns SessionSpec
begin

text \<open>
  What \<open>GET /metrics\<close> reports, against the run of the server that led to it: the counters of \<open>Observability\<close> are
  the numbers of the requests that the run answered, and the three gauges are read off the sessions, the queue and
  the connections.
\<close>

section \<open>The answers of a run\<close>

text \<open>Each answered request with the kind of the request (an upgrade or not) and the status of the answer.\<close>

fun answer_to :: "Platform \<Rightarrow> server_event \<Rightarrow> Server \<Rightarrow> (bool \<times> nat) list" where
  "answer_to pf (HttpEvent rd rnd ok req) sv =
     (case OnHttpRead pf rd rnd ok req sv of
        Inr (Some res, sv') \<Rightarrow> [(hr_upgrade req, rp_status res)]
      | _ \<Rightarrow> [])"
| "answer_to pf ev sv = []"

fun answers_of :: "Platform \<Rightarrow> server_event list \<Rightarrow> Server \<Rightarrow> (bool \<times> nat) list" where
  "answers_of pf [] sv = []"
| "answers_of pf (ev # evs) sv =
     (case server_do pf ev sv of Inl e \<Rightarrow> [] | Inr sv' \<Rightarrow> answer_to pf ev sv @ answers_of pf evs sv')"

definition plain_answers :: "(bool \<times> nat) list \<Rightarrow> nat" where
  "plain_answers as = length (filter (\<lambda>(upgrade, status). \<not> upgrade) as)"

definition error_answers :: "(bool \<times> nat) list \<Rightarrow> nat" where
  "error_answers as = length (filter (\<lambda>(upgrade, status). 400 \<le> status) as)"

section \<open>The counters\<close>

definition tallies :: "Network \<Rightarrow> 64 word \<times> 64 word \<times> bool" where
  "tallies net =
     (request_total (observability net), request_errors (observability net), observed (coordinator net))"

definition count_answers :: "(bool \<times> nat) list \<Rightarrow> 64 word \<times> 64 word \<times> bool \<Rightarrow> 64 word \<times> 64 word \<times> bool" where
  "count_answers as = (\<lambda>(total, errors, seen).
     (total + word_of_nat (plain_answers as), errors + word_of_nat (error_answers as), seen))"

lemma count_answers_simps [simp]:
  "count_answers [] t = t"
  "count_answers (as @ bs) t = count_answers bs (count_answers as t)"
  by (cases t; simp add: count_answers_def plain_answers_def error_answers_def)+

text \<open>Whatever is not an HTTP request leaves the counters alone.\<close>

lemma tallies_network [simp]:
  "tallies (put_ws r ws net) = tallies net"
  "tallies (Register u r net) = tallies net"
  "tallies (Unregister u r net) = tallies net"
  "tallies (DestroySession r net) = tallies net"
  "tallies (SendEventToUser dump u ev p net) = tallies net"
  "tallies (SendErrorToUser dump u c m net) = tallies net"
  by (simp_all add: tallies_def put_ws_def Register_def Unregister_def DestroySession_def with_connections_def
      SetWebsocketActive_def SendEventToUser_def SendErrorToUser_def Let_def split: option.split prod.split)

lemma tallies_backend [simp]:
  "tallies (network (backend_send dump u ev p b)) = tallies (network b)"
  "tallies (network (backend_finalize rec ps b)) = tallies (network b)"
  by (simp_all add: backend_send_def backend_finalize_def)

lemma tallies_broadcast [simp]:
  "tallies (network (BroadcastToParticipants (backend_send dump) ctx ev p b)) = tallies (network b)"
proof -
  have "tallies (network (fold (\<lambda>q. backend_send dump (sp_user_id q) ev p) qs b)) = tallies (network b)" for qs
    by (induction qs arbitrary: b) simp_all
  then show ?thesis by (simp add: BroadcastToParticipants_def)
qed

lemma tallies_put [simp]: "tallies (net_of (put_ws_at r ws sv)) = tallies (net_of sv)"
  by (simp add: put_ws_at_def with_network_def)

lemma tallies_message: "tallies (net_of (OnRead parse dump failed data rnd t1 t2 r sv)) = tallies (net_of sv)"
  by (simp add: OnRead_def Let_def split_beta split: option.split)

lemma tallies_input: "tallies (net_of (InputTask dump r n input seq sv)) = tallies (net_of sv)"
  by (simp add: InputTask_def Let_def split_beta split: option.split)

lemma tallies_written: "tallies (net_of (WriteCompleted failed r sv)) = tallies (net_of sv)"
  by (simp add: WriteCompleted_def split: option.split)

lemma tallies_destroyed: "tallies (net_of (SessionDestroyed r sv)) = tallies (net_of sv)"
  by (simp add: SessionDestroyed_def with_network_def)

lemma tallies_started: "tallies (net_of (StrandStart dump t n sv)) = tallies (net_of sv)"
  by (cases rule: RunStart_cases [of "backend_send dump" t n "session_manager sv" "backend sv"])
    (simp_all add: StrandStart_def with_game_def game_of_def)

lemma tallies_ticked:
  assumes "server_inv sv" "TickTimer dump t ended_at n sv = Inr sv'"
  shows "tallies (net_of sv') = tallies (net_of sv)"
proof -
  have "sm_inv (session_manager sv)" using assms(1) by (simp add: server_inv_def game_good_def game_of_def)
  then show ?thesis
    using assms(2)
    by (cases rule: RunTimer_cases [where send = "backend_send dump" and finalize = backend_finalize
          and now = t and ended_at = ended_at and n = n and s = "backend sv"])
      (auto simp: TickTimer_def with_game_def game_of_def)
qed

lemma tallies_queue:
  assumes "server_inv sv"
  shows "tallies (net_of (QueueTimer dump failed t sv)) = tallies (net_of sv)"
proof (cases failed)
  case True
  then show ?thesis by (simp add: QueueTimer_def OnTick_def with_game_def game_of_def)
next
  case False
  have "tallies (network (snd (fold game_create pss g))) = tallies (network (snd g))" for pss g
    by (induction pss arbitrary: g) (simp_all add: game_create_def)
  moreover have "tallies (network (snd (fold (timeout_error (game_send_error dump)) es g))) = tallies (network (snd g))"
    for es g
    by (induction es arbitrary: g) (simp_all add: game_send_error_def)
  moreover have "mq_inv (match_queue sv)" using assms by (simp add: server_inv_def)
  ultimately show ?thesis
    using False OnTick_spec(3) [of "match_queue sv" game_create "game_send_error dump" t "game_of sv"]
    by (simp add: QueueTimer_def with_game_def game_of_def split_beta)
qed

lemma tallies_accept: "tallies (net_of (AcceptWebSocket pf rd rnd session sv)) = tallies (net_of sv)"
  by (simp add: AcceptWebSocket_def RunSession_def with_network_def Let_def split_beta split: option.split)

text \<open>An HTTP request adds its answer.\<close>

lemma SendResponse_tallies:
  assumes "SendResponse pf rd t start req res sv = Inr (res', sv')"
  shows "res' = res" "tallies (net_of sv') = count_answers [(True, rp_status res)] (tallies (net_of sv))"
  using assms
  by (auto simp: SendResponse_def Log_def Let_def tallies_def count_answers_def plain_answers_def error_answers_def
      IncrementError_def with_observability_def with_network_def split: option.splits if_splits)

lemma HandleRequest_tallies:
  assumes "HandleRequest pf rd rnd req sv = Inr (res, sv')"
  shows "tallies (net_of sv') = count_answers [(False, rp_status res)] (tallies (net_of sv))"
proof -
  let ?ob = "IncrementRequest (snd (NextTraceId (rd_trace rd) (observability (net_of sv))))"
  obtain t res0 sv0 where d: "Dispatch pf rd rnd req (with_observability ?ob sv) = Inr (res0, sv0)"
    and send: "SendResponse pf rd t (rd_start rd) req res0 sv0 = Inr (res, sv')"
    using assms by (auto simp: HandleRequest_def split_beta Let_def split: sum.splits)
  have "net_of sv0 = (net_of sv)\<lparr>observability := ?ob\<rparr>"
    using Dispatch_network [OF d] by (simp add: with_observability_def with_network_def)
  then show ?thesis
    using SendResponse_tallies [OF send]
    by (simp add: tallies_def count_answers_def plain_answers_def error_answers_def IncrementRequest_def NextTraceId_def)
qed

lemma http_tallies:
  assumes "OnHttpRead pf rd rnd ok req sv = Inr (res, sv')"
  shows "tallies (net_of sv') = count_answers (answer_to pf (HttpEvent rd rnd ok req) sv) (tallies (net_of sv))"
proof (cases "hr_upgrade req")
  case False
  with assms obtain r where "HandleRequest pf rd rnd req sv = Inr (r, sv')" "res = Some r"
    by (auto simp: OnHttpRead_def split: sum.splits)
  then show ?thesis using False assms HandleRequest_tallies by simp
next
  case True
  obtain auth sv1 where x: "ExtractAuthSession req (rd_validate rd) sv = (auth, sv1)" by fastforce
  then have same: "net_of sv1 = net_of sv" using ExtractAuthSession_frame(3) [of req "rd_validate rd" sv] by simp
  have run: "HandleWebSocket pf rd rnd ok req sv = Inr (res, sv')" using True assms by (simp add: OnHttpRead_def)
  show ?thesis
  proof (cases auth)
    case None
    with run x obtain r where
      "SendResponse pf rd [] 0 req (failure pf rd 401 ''unauthorized'' msg_ws_auth_required) sv1 = Inr (r, sv')"
      "res = Some r"
      by (auto simp: HandleWebSocket_def split: sum.splits)
    then show ?thesis using True assms SendResponse_tallies same by (auto dest: SendResponse_tallies)
  next
    case (Some session)
    with run x have "res = None" "sv' = (if ok then AcceptWebSocket pf rd rnd session sv1 else sv1)"
      by (simp_all add: HandleWebSocket_def)
    then show ?thesis using assms same by (simp add: tallies_accept)
  qed
qed

lemma server_do_tallies:
  assumes "server_inv sv" "server_do pf ev sv = Inr sv'"
  shows "tallies (net_of sv') = count_answers (answer_to pf ev sv) (tallies (net_of sv))"
proof (cases ev)
  case (HttpEvent rd rnd ok req)
  with assms(2) obtain res where "OnHttpRead pf rd rnd ok req sv = Inr (res, sv')"
    by (cases "OnHttpRead pf rd rnd ok req sv") (auto simp del: answer_to.simps)
  then show ?thesis unfolding HttpEvent by (rule http_tallies)
next
  case (TickEvent n t ended_at)
  with assms tallies_ticked show ?thesis by simp
next
  case (QueueEvent failed t)
  with assms tallies_queue [OF assms(1)] show ?thesis by (auto split: if_splits)
next
  case (MessageEvent r failed data rnd t1 t2)
  with assms(2) tallies_message show ?thesis by (auto split: if_splits)
next
  case (InputTaskEvent r n input seq)
  with assms(2) tallies_input show ?thesis by (auto split: if_splits)
next
  case (WrittenEvent r failed)
  with assms(2) tallies_written show ?thesis by (auto split: if_splits)
next
  case (DestroyedEvent r)
  with assms(2) tallies_destroyed show ?thesis by (auto split: if_splits)
next
  case (StartEvent n t)
  with assms(2) tallies_started show ?thesis by auto
qed

lemma run_tallies:
  "server_inv sv \<Longrightarrow> run_server pf evs sv = Inr sv' \<Longrightarrow>
     tallies (net_of sv') = count_answers (answers_of pf evs sv) (tallies (net_of sv))"
proof (induction evs arbitrary: sv)
  case (Cons ev evs)
  then obtain sv1 where sv1: "server_do pf ev sv = Inr sv1" "run_server pf evs sv1 = Inr sv'" by (auto split: sum.splits)
  then show ?case
    using Cons.IH [OF server_do_inv [OF sv1(1) Cons.prems(1)]] server_do_tallies [OF Cons.prems(1) sv1(1)] by simp
qed simp

section \<open>The gauges\<close>

lemma ActiveConnections_reached:
  assumes "net_inv net"
  shows "ActiveConnections net = card {u. lock_session u net \<noteq> None}"
proof -
  have "{u. lock_session u net \<noteq> None} = fst ` set (connections (coordinator net))"
    using lock_session_connected [OF assms] by (auto simp: um_find_None_iff simp del: not_None_eq)
  moreover have "um_wf (connections (coordinator net))" using assms by (simp add: net_inv_def)
  ultimately show ?thesis by (simp add: ActiveConnections_def um_size_card)
qed

definition metrics_data :: "nat \<Rightarrow> nat \<Rightarrow> nat \<Rightarrow> nat \<Rightarrow> nat \<Rightarrow> json" where
  "metrics_data requests errors sockets active waiting =
     json_obj [(''requests'', json_obj [(''total'', JUnsigned (requests mod 2 ^ 64)),
         (''errors'', JUnsigned (errors mod 2 ^ 64))]),
       (''connections'', json_obj [(''websocket'', JUnsigned (sockets mod 2 ^ 64))]),
       (''sessions'', json_obj [(''active'', JUnsigned (active mod 2 ^ 64))]),
       (''queue'', json_obj [(''length'', JUnsigned (waiting mod 2 ^ 64))])]"

lemma metrics_answer:
  assumes "OnHttpRead pf rd rnd ok req sv = Inr (res, sv')" "hr_method req = GetMethod"
    and "target_path (hr_target req) = ''/metrics''" "\<not> hr_upgrade req"
  shows "\<exists>ob. res = Some (HandleMetrics pf rd (with_observability (IncrementRequest ob) sv)) \<and>
     tallies ((net_of sv)\<lparr>observability := ob\<rparr>) = tallies (net_of sv) \<and>
     websocket_active ob = websocket_active (observability (net_of sv))"
proof -
  let ?ob = "snd (NextTraceId (rd_trace rd) (observability (net_of sv)))"
  let ?sv = "with_observability (IncrementRequest ?ob) sv"
  have "Dispatch pf rd rnd req ?sv = Inr (HandleMetrics pf rd ?sv, ?sv)"
    using assms(2,3) by (simp add: Dispatch_def Let_def)
  with assms(1,4) obtain t r where "SendResponse pf rd t (rd_start rd) req (HandleMetrics pf rd ?sv) ?sv = Inr (r, sv')"
    "res = Some r"
    by (auto simp: OnHttpRead_def HandleRequest_def split_beta Let_def split: sum.splits)
  then have "res = Some (HandleMetrics pf rd ?sv)" using SendResponse_tallies(1) by blast
  then show ?thesis by (intro exI [of _ ?ob]) (simp add: tallies_def NextTraceId_def)
qed

text \<open>A WebSocket upgrade without a login token.\<close>

definition play_refused :: HttpRequest where
  "play_refused = (sample_request GetMethod ''/ws'')\<lparr>hr_upgrade := True\<rparr>"

section \<open>Properties\<close>

text \<open>C18: The metrics are true. After any run of the server, \<open>GET /metrics\<close> reports as the total the number of
  requests that were answered, itself included, and as errors the number of answers with a status of 400 or more
  (both modulo \<open>2^64\<close>); as connections the number of users that the server can reach, as active sessions
  those that have not ended, as the queue length the users who wait. The answers to refused WebSocket upgrades are
  among the errors but not in the total, so the errors can outnumber the requests.\<close>

theorem metrics_are_true:
  assumes "run_server pf evs (make_ServerApp cfg) = Inr sv" "OnHttpRead pf rd rnd ok req sv = Inr (res, sv')"
    and "hr_method req = GetMethod" "target_path (hr_target req) = ''/metrics''" "\<not> hr_upgrade req"
  shows "res = Some (success pf rd 200 (metrics_data
    (plain_answers (answers_of pf evs (make_ServerApp cfg)) + 1) (error_answers (answers_of pf evs (make_ServerApp cfg)))
    (card {u. lock_session u (net_of sv) \<noteq> None}) (card {n. \<exists>ctx. live (session_manager sv) n ctx})
    (length (queue (match_queue sv)))))"
proof -
  let ?as = "answers_of pf evs (make_ServerApp cfg)"
  have inv: "server_inv sv" using assms(1) run_server_reachable reachable.start reachable_inv by blast
  then have parts: "net_inv (net_of sv)" "sm_inv (session_manager sv)" by (simp_all add: server_inv_iff)
  have "tallies (net_of (make_ServerApp cfg)) = (0, 0, True)"
    by (simp add: tallies_def make_ServerApp_def SetObservability_def make_Network_def make_Observability_def)
  then have t: "tallies (net_of sv) = (word_of_nat (plain_answers ?as), word_of_nat (error_answers ?as), True)"
    using run_tallies [OF server_inv_init assms(1)] by (simp add: count_answers_def)
  then have gauge: "websocket_active (observability (net_of sv)) = word_of_nat (card {u. lock_session u (net_of sv) \<noteq> None})"
    using parts(1) ActiveConnections_reached [OF parts(1)] by (simp add: tallies_def net_inv_def)
  obtain ob where ob: "res = Some (HandleMetrics pf rd (with_observability (IncrementRequest ob) sv))"
    "tallies ((net_of sv)\<lparr>observability := ob\<rparr>) = tallies (net_of sv)"
    "websocket_active ob = websocket_active (observability (net_of sv))"
    using metrics_answer [OF assms(2-5)] by blast
  let ?sockets = "card {u. lock_session u (net_of sv) \<noteq> None}" and ?active = "card {n. \<exists>ctx. live (session_manager sv) n ctx}"
  have m: "current_metrics (with_observability (IncrementRequest ob) sv) = \<lparr>ms_request_total = word_of_nat (plain_answers ?as + 1),
      ms_request_errors = word_of_nat (error_answers ?as), ms_websocket_active = word_of_nat ?sockets,
      ms_active_sessions = word_of_nat ?active, ms_queue_length = word_of_nat (length (queue (match_queue sv)))\<rparr>"
    using ob(2,3) t gauge ActiveSessionCount_live [OF parts(2)]
    by (simp add: current_metrics_def MetricsSnapshotOf_def QueueLength_def with_observability_def with_network_def
        IncrementRequest_def tallies_def)
  have "unat (word_of_nat n :: 64 word) = n mod 2 ^ 64" for n by (simp add: unat_of_nat)
  then show ?thesis
    unfolding ob(1) HandleMetrics_def m metrics_data_def Let_def by (simp only: MetricsSnapshot.simps)
qed

text \<open>Two upgrades without a token are refused: one request, the one for the metrics, and two errors.\<close>

theorem metrics_are_true_witness:
  "\<exists>sv sv'. run_server (sample_platform (\<lambda>j. Some []))
      [HttpEvent sample_readings [] True play_refused, HttpEvent sample_readings [] True play_refused]
      (make_ServerApp sample_config) = Inr sv \<and>
     OnHttpRead (sample_platform (\<lambda>j. Some [])) sample_readings [] True (sample_request GetMethod ''/metrics'') sv =
       Inr (Some (success (sample_platform (\<lambda>j. Some [])) sample_readings 200 (metrics_data 1 2
         (card {u. lock_session u (net_of sv) \<noteq> None}) (card {n. \<exists>ctx. live (session_manager sv) n ctx})
         (length (queue (match_queue sv))))), sv')"
proof -
  let ?pf = "sample_platform (\<lambda>j. Some [])" and ?ev = "HttpEvent sample_readings [] True play_refused"
  let ?start = "make_ServerApp sample_config"
  have up: "\<exists>res sv'. OnHttpRead ?pf sample_readings [] True play_refused sv = Inr (Some res, sv') \<and> rp_status res = 401" for sv
    by (simp add: OnHttpRead_def HandleWebSocket_def play_refused_def sample_request_def ExtractAuthSession_def
        SendResponse_def Log_def sample_platform_def failure_def Let_def)
  obtain r1 sv1 where one: "OnHttpRead ?pf sample_readings [] True play_refused ?start = Inr (Some r1, sv1)" "rp_status r1 = 401"
    using up by blast
  obtain r2 sv2 where two: "OnHttpRead ?pf sample_readings [] True play_refused sv1 = Inr (Some r2, sv2)" "rp_status r2 = 401"
    using up by blast
  have run: "run_server ?pf [?ev, ?ev] ?start = Inr sv2" using one two by simp
  have counts: "plain_answers (answers_of ?pf [?ev, ?ev] ?start) = 0" "error_answers (answers_of ?pf [?ev, ?ev] ?start) = 2"
    using one two by (simp_all add: plain_answers_def error_answers_def play_refused_def)
  let ?req = "sample_request GetMethod ''/metrics''"
  have req: "hr_method ?req = GetMethod" "target_path (hr_target ?req) = ''/metrics''" "\<not> hr_upgrade ?req"
    by (simp_all add: sample_request_def target_path_def)
  have "Dispatch ?pf sample_readings [] ?req sv = Inr (HandleMetrics ?pf sample_readings sv, sv)" for sv
    using req(1,2) by (simp add: Dispatch_def Let_def)
  then obtain res sv3 where ask: "OnHttpRead ?pf sample_readings [] True ?req sv2 = Inr (res, sv3)"
    using req(3) by (simp add: OnHttpRead_def HandleRequest_def SendResponse_def Log_def sample_platform_def Let_def split_beta)
  from metrics_are_true [OF run ask req] show ?thesis using run ask by (simp only: counts) auto
qed

end
