(* ===== verification/ResumeTokens.thy ===== *)
theory ResumeTokens
  imports Metrics
begin

text \<open>
  How long a resume token lasts: \<open>ReconnectService\<close> keeps the time at which it issued a token and never reads it.
  A token stays good through every run of the server, until its user presents it in a \<open>resync_request\<close>.
\<close>

section \<open>What can end a token\<close>

definition presented_token :: "json \<Rightarrow> string option" where
  "presented_token message =
     (case json_find message ''p'' of None \<Rightarrow> None | Some p \<Rightarrow> Some (get_string (json_at p ''resumeToken'')))"

text \<open>The event is a message of user \<open>u\<close> that presents the token \<open>t\<close>.\<close>

fun presents :: "Platform \<Rightarrow> string \<Rightarrow> int \<Rightarrow> server_event \<Rightarrow> Server \<Rightarrow> bool" where
  "presents pf t u (MessageEvent r failed data rnd t1 t2) sv \<longleftrightarrow>
     map_option (\<lambda>ws. au_user_id (as_user (ws_session ws))) (ws_at r sv) = Some u \<and>
     (case pf_parse pf data of None \<Rightarrow> False | Some message \<Rightarrow> presented_token message = Some t)"
| "presents pf t u ev sv \<longleftrightarrow> False"

fun spent :: "Platform \<Rightarrow> string \<Rightarrow> int \<Rightarrow> server_event list \<Rightarrow> Server \<Rightarrow> bool" where
  "spent pf t u [] sv \<longleftrightarrow> False"
| "spent pf t u (ev # evs) sv \<longleftrightarrow>
     presents pf t u ev sv \<or> (case server_do pf ev sv of Inl e \<Rightarrow> False | Inr sv' \<Rightarrow> spent pf t u evs sv')"

text \<open>The event draws the random bytes of the token \<open>t\<close> again.\<close>

fun redraws :: "string \<Rightarrow> server_event \<Rightarrow> bool" where
  "redraws t (HttpEvent rd rnd ok req) \<longleftrightarrow> GenerateResumeToken rnd = t"
| "redraws t (MessageEvent r failed data rnd t1 t2) \<longleftrightarrow> GenerateResumeToken rnd = t"
| "redraws t ev \<longleftrightarrow> False"

section \<open>Handlers that keep a token\<close>

lemma IssueToken_keeps:
  assumes "previous \<noteq> Some t" "GenerateResumeToken rnd \<noteq> t"
  shows "find_resume (snd (IssueToken rnd now user v snap previous rc)) t = find_resume rc t"
  using assms
  by (cases previous) (simp_all add: IssueToken_def Let_def resume_tokens.lookup_store resume_tokens.lookup_revoke)

lemma resync_keeps:
  assumes "find_resume rc t = Some r" "GenerateResumeToken rnd \<noteq> t"
    and "get_string (json_at p ''resumeToken'') = t \<Longrightarrow> au_user_id (as_user (ws_session ws)) \<noteq> au_user_id (rs_user r)"
  shows "find_resume (snd (HandleResyncRequest dump rnd t1 t2 p seq ws rc)) t = Some r"
proof (cases "ValidateResume (get_string (json_at p ''resumeToken'')) (as_user (ws_session ws)) rc")
  case None
  with assms(1) show ?thesis by (simp add: HandleResyncRequest_def Let_def)
next
  case (Some r')
  then have "get_string (json_at p ''resumeToken'') \<noteq> t"
    using assms(1,3) by (auto simp: ValidateResume_def split: if_splits)
  then show ?thesis
    using Some assms(1,2) IssueToken_keeps by (simp add: HandleResyncRequest_def Let_def split_beta)
qed

lemma message_keeps:
  assumes "find_resume rc t = Some r" "GenerateResumeToken rnd \<noteq> t"
    and "presented_token m = Some t \<Longrightarrow> au_user_id (as_user (ws_session ws)) \<noteq> au_user_id (rs_user r)"
  shows "find_resume (fst (snd (HandleMessage dump rnd t1 t2 m ws rc sm))) t = Some r"
proof -
  have "find_resume (snd (HandleResyncRequest dump rnd t1 t2 p seq ws rc)) t = Some r" if "json_find m ''p'' = Some p" for p seq
    using that by (intro resync_keeps [OF assms(1,2)] assms(3)) (simp add: presented_token_def)
  with assms(1) show ?thesis by (simp add: HandleMessage_def Let_def split_beta split: option.split)
qed

lemma accept_keeps:
  assumes "find_resume (reconnect_service sv) t = Some r" "GenerateResumeToken rnd \<noteq> t"
  shows "find_resume (reconnect_service (AcceptWebSocket pf rd rnd session sv)) t = Some r"
  using assms IssueToken_keeps [of None t rnd]
  by (simp add: AcceptWebSocket_def RunSession_def put_ws_at_def with_network_def Let_def split_beta split: option.split)

lemma Dispatch_resume:
  assumes "Dispatch pf rd rnd req sv = Inr (res, sv')"
  shows "reconnect_service sv' = reconnect_service sv"
proof -
  have x: "reconnect_service (snd (ExtractAuthSession req now sv)) = reconnect_service sv" for now
    by (simp add: ExtractAuthSession_def Let_def split_beta split: option.split)
  have gate: "reconnect_service (snd (with_session pf rd req h sv)) = reconnect_service sv"
    if "\<And>s sv. reconnect_service (snd (h s sv)) = reconnect_service sv" for h
    using that x [of "rd_validate rd"]
    by (cases "ExtractAuthSession req (rd_validate rd) sv") (simp add: with_session_def split: option.split)
  have handlers: "reconnect_service (snd (HandleRegister pf rd rnd req sv)) = reconnect_service sv"
    "reconnect_service (snd (HandleLogin pf rd rnd req sv)) = reconnect_service sv"
    "reconnect_service (snd (with_session pf rd req (HandleLogout pf rd) sv)) = reconnect_service sv"
    "reconnect_service (snd (with_session pf rd req (HandleJoin pf rd req) sv)) = reconnect_service sv"
    "reconnect_service (snd (with_session pf rd req (HandleCancel pf rd) sv)) = reconnect_service sv"
    "reconnect_service (snd (with_session pf rd req (HandleProfile pf rd) sv)) = reconnect_service sv"
    by (simp_all add: gate HandleRegister_def HandleLogin_def HandleLogout_def HandleJoin_def HandleCancel_def
        HandleProfile_def with_ratings_def Let_def split: option.split prod.split sum.split)
  from assms handlers show ?thesis unfolding Dispatch_def Let_def by (auto split: if_splits sum.splits)
qed

lemma SendResponse_resume:
  "SendResponse pf rd trace started req res sv = Inr (res', sv') \<Longrightarrow> reconnect_service sv' = reconnect_service sv"
  by (auto simp: SendResponse_def Log_def Let_def with_observability_def with_network_def split: option.splits if_splits)

lemma http_keeps:
  assumes "find_resume (reconnect_service sv) t = Some r" "GenerateResumeToken rnd \<noteq> t"
    and "OnHttpRead pf rd rnd ok req sv = Inr (res, sv')"
  shows "find_resume (reconnect_service sv') t = Some r"
proof (cases "hr_upgrade req")
  case False
  let ?ob = "IncrementRequest (snd (NextTraceId (rd_trace rd) (observability (net_of sv))))"
  obtain trace res0 sv0 res1 where "Dispatch pf rd rnd req (with_observability ?ob sv) = Inr (res0, sv0)"
    "SendResponse pf rd trace (rd_start rd) req res0 sv0 = Inr (res1, sv')"
    using assms(3) False by (auto simp: OnHttpRead_def HandleRequest_def split_beta Let_def split: sum.splits)
  then have "reconnect_service sv' = reconnect_service sv"
    using Dispatch_resume SendResponse_resume by (fastforce simp: with_observability_def with_network_def)
  with assms(1) show ?thesis by simp
next
  case True
  obtain auth sv1 where x: "ExtractAuthSession req (rd_validate rd) sv = (auth, sv1)" by fastforce
  then have same: "reconnect_service sv1 = reconnect_service sv"
    by (auto simp: ExtractAuthSession_def Let_def split_beta split: option.splits if_splits)
  have run: "HandleWebSocket pf rd rnd ok req sv = Inr (res, sv')" using True assms(3) by (simp add: OnHttpRead_def)
  show ?thesis
  proof (cases auth)
    case None
    with run x have "reconnect_service sv' = reconnect_service sv1"
      by (auto simp: HandleWebSocket_def dest: SendResponse_resume split: sum.splits)
    with assms(1) same show ?thesis by simp
  next
    case (Some session)
    with run x have "sv' = (if ok then AcceptWebSocket pf rd rnd session sv1 else sv1)" by (simp add: HandleWebSocket_def)
    then show ?thesis using assms(1,2) same accept_keeps by simp
  qed
qed

lemma OnRead_keeps:
  assumes "find_resume (reconnect_service sv) t = Some r" "GenerateResumeToken rnd \<noteq> t"
    and "\<not> presents pf t (au_user_id (rs_user r)) (MessageEvent a failed data rnd t1 t2) sv"
  shows "find_resume (reconnect_service (OnRead (pf_parse pf) dump failed data rnd t1 t2 a sv)) t = Some r"
proof (cases "ws_at a sv")
  case None
  with assms(1) show ?thesis by (simp add: OnRead_def)
next
  case (Some ws)
  show ?thesis
  proof (cases "pf_parse pf data")
    case None
    with Some assms(1) show ?thesis by (simp add: OnRead_def put_ws_at_def with_network_def Let_def)
  next
    case parsed: (Some m)
    have "find_resume (fst (snd (HandleMessage dump rnd t1 t2 m (ws\<lparr>pending_read := False\<rparr>) (reconnect_service sv)
        (session_manager sv)))) t = Some r"
      by (rule message_keeps [OF assms(1,2)]) (use assms(3) Some parsed in simp)
    with Some parsed assms(1) show ?thesis by (simp add: OnRead_def put_ws_at_def with_network_def Let_def split_beta)
  qed
qed

lemma server_do_keeps:
  assumes "find_resume (reconnect_service sv) t = Some r" "\<not> redraws t ev" "\<not> presents pf t (au_user_id (rs_user r)) ev sv"
    and "server_do pf ev sv = Inr sv'"
  shows "find_resume (reconnect_service sv') t = Some r"
proof (cases ev)
  case (HttpEvent rd rnd ok req)
  with assms(4) obtain res where "OnHttpRead pf rd rnd ok req sv = Inr (res, sv')"
    by (cases "OnHttpRead pf rd rnd ok req sv") auto
  moreover have "GenerateResumeToken rnd \<noteq> t" using assms(2) HttpEvent by simp
  ultimately show ?thesis using http_keeps [OF assms(1)] by blast
next
  case (MessageEvent a failed data rnd t1 t2)
  have "find_resume (reconnect_service (OnRead (pf_parse pf) (pf_dump pf) failed data rnd t1 t2 a sv)) t = Some r"
    by (rule OnRead_keeps [OF assms(1)]) (use assms(2,3) MessageEvent in simp_all)
  with assms(1,4) MessageEvent show ?thesis by (auto split: if_splits)
next
  case (InputTaskEvent a n input seq)
  with assms(1,4) show ?thesis
    by (auto simp: InputTask_def put_ws_at_def with_network_def Let_def split_beta split: if_splits option.splits)
next
  case (WrittenEvent a failed)
  with assms(1,4) show ?thesis
    by (auto simp: WriteCompleted_def put_ws_at_def with_network_def split: if_splits option.splits)
next
  case (DestroyedEvent a)
  with assms(1,4) show ?thesis by (auto simp: SessionDestroyed_def with_network_def split: if_splits)
next
  case (StartEvent n now)
  with assms(1,4) show ?thesis by (auto simp: StrandStart_def with_game_def)
next
  case (TickEvent n now ended_at)
  with assms(1,4) show ?thesis by (auto simp: TickTimer_def with_game_def split: sum.splits)
next
  case (QueueEvent failed now)
  with assms(1,4) show ?thesis by (auto simp: QueueTimer_def with_game_def split_beta split: if_splits)
qed

lemma run_keeps_token:
  "find_resume (reconnect_service sv) t = Some r \<Longrightarrow> run_server pf evs sv = Inr sv' \<Longrightarrow>
     \<not> list_ex (redraws t) evs \<Longrightarrow> \<not> spent pf t (au_user_id (rs_user r)) evs sv \<Longrightarrow>
     find_resume (reconnect_service sv') t = Some r"
proof (induction evs arbitrary: sv)
  case (Cons ev evs)
  then obtain sv1 where sv1: "server_do pf ev sv = Inr sv1" "run_server pf evs sv1 = Inr sv'" by (auto split: sum.splits)
  have "find_resume (reconnect_service sv1) t = Some r"
    by (rule server_do_keeps [OF Cons.prems(1) _ _ sv1(1)]) (use Cons.prems in simp_all)
  then show ?case using Cons.IH [OF _ sv1(2)] Cons.prems(3,4) sv1(1) by simp
qed simp

section \<open>Properties\<close>

text \<open>C24: Resume tokens do not expire. A resume token that is good for a user stays good for that user through every
  run of the server, whatever its clocks read, and although the user logs out, his login expires or his connections
  end; only he can spend it, by presenting it himself, unless the generator draws the very same token again.\<close>

theorem resume_token_never_expires:
  assumes "ValidateResume t user (reconnect_service sv) = Some snapshot" "run_server pf evs sv = Inr sv'"
    and "\<not> spent pf t (au_user_id user) evs sv" "\<not> list_ex (redraws t) evs"
  shows "ValidateResume t user (reconnect_service sv') = Some snapshot"
proof -
  have r: "find_resume (reconnect_service sv) t = Some snapshot" "au_user_id (rs_user snapshot) = au_user_id user"
    using assms(1) by (auto simp: ValidateResume_def split: option.splits if_splits)
  then have "find_resume (reconnect_service sv') t = Some snapshot"
    using run_keeps_token [OF r(1) assms(2,4)] assms(3) by simp
  with r(2) show ?thesis by (simp add: ValidateResume_def)
qed

text \<open>Some thirty years pass, a request is answered, and the user's session ends.\<close>

theorem resume_token_never_expires_witness:
  "let user = as_user sample_session; (t, rc) = IssueToken [1] 0 user 1 JNull None make_ReconnectService;
       late = sample_readings\<lparr>rd_validate := 10 ^ 18, rd_end := 10 ^ 18\<rparr>
   in \<exists>sv'. run_server (sample_platform (\<lambda>j. Some [])) [HttpEvent late [] True play_refused, TickEvent 1 (10 ^ 18) (10 ^ 18),
        DestroyedEvent 0] ((make_ServerApp sample_config)\<lparr>reconnect_service := rc\<rparr>) = Inr sv' \<and>
      ValidateResume t user (reconnect_service sv') \<noteq> None"
proof -
  let ?user = "as_user sample_session" and ?i = "IssueToken [1] 0 (as_user sample_session) 1 JNull None make_ReconnectService"
  let ?late = "sample_readings\<lparr>rd_validate := 10 ^ 18, rd_end := 10 ^ 18\<rparr>" and ?pf = "sample_platform (\<lambda>j. Some [])"
  let ?evs = "[HttpEvent ?late [] True play_refused, TickEvent 1 (10 ^ 18) (10 ^ 18), DestroyedEvent 0]"
  let ?sv = "(make_ServerApp sample_config)\<lparr>reconnect_service := snd ?i\<rparr>"
  have "GenerateResumeToken [1] \<noteq> GenerateResumeToken []" unfolding GenerateResumeToken_def BytesToHex_inject by simp
  then have draws: "\<not> list_ex (redraws (fst ?i)) ?evs" by (simp add: IssueToken_def Let_def)
  have run: "\<exists>sv'. run_server ?pf ?evs ?sv = Inr sv'"
    by (simp add: OnHttpRead_def HandleWebSocket_def play_refused_def sample_request_def ExtractAuthSession_def
        SendResponse_def Log_def sample_platform_def failure_def TickTimer_def RunTimer_def make_ServerApp_def
        make_SessionManager_def game_of_def with_observability_def with_network_def Let_def)
  have "\<not> spent ?pf (fst ?i) (au_user_id ?user) ?evs ?sv" by (simp split: sum.split)
  moreover have "ValidateResume (fst ?i) ?user (reconnect_service ?sv) \<noteq> None"
    by (simp add: ValidateResume_def IssueToken_def Let_def resume_tokens.lookup_store)
  ultimately show ?thesis
    using run draws resume_token_never_expires [of "fst ?i" ?user ?sv _ ?pf ?evs] by (force simp: Let_def split_beta)
qed

end
