(* ===== verification/Answers.thy ===== *)
theory Answers
  imports HttpSession
begin

text \<open>
  How \<open>WebSocketSession\<close> answers a message: the table of \<open>design/protocol/contract.md\<close>, and the proof that \<open>OnRead\<close>,
  with its nested checks and early returns, follows it for every text that a client can send but one kind (and
  numbers that are negative or not integers): a \<open>session.input\<close> with missing or malformed fields, where the contract has \<open>input_invalid\<close> and the code \<open>bad_request\<close>.
\<close>

section \<open>The table\<close>

definition client_event :: "json \<Rightarrow> string option" where
  "client_event m =
     (if json_find m ''t'' = Some (JString ''event'') \<and> is_string (json_at m ''event'')
      then Some (get_string (json_at m ''event'')) else None)"

text \<open>The payload of a message, if it is an object whose member \<open>key\<close> is a string.\<close>

definition payload_with :: "string \<Rightarrow> json \<Rightarrow> json option" where
  "payload_with key m =
     (case json_find m ''p'' of None \<Rightarrow> None
      | Some p \<Rightarrow> if is_string (json_at p key) then Some p else None)"

definition input_payload :: "json \<Rightarrow> json option" where
  "input_payload m =
     (case payload_with ''sessionId'' m of None \<Rightarrow> None
      | Some p \<Rightarrow> if is_number_unsigned (json_at p ''sequence'') \<and> is_number_integer (json_at p ''targetTick'')
            \<and> is_number_integer (json_at p ''delta'') then Some p else None)"

datatype answer = Silence | Event string json | Error string

text \<open>\<open>good\<close>: the resume tokens that are valid for the user \<open>u\<close>; \<open>state\<close>: what a resync gives him; \<open>judge\<close>: the error
  code with which the session manager rejects an input. \<open>None\<close> is a text that is not JSON.\<close>

definition contract_answer ::
  "int \<Rightarrow> (string \<Rightarrow> bool) \<Rightarrow> json \<Rightarrow> (json \<Rightarrow> string option) \<Rightarrow> json option \<Rightarrow> answer" where
  "contract_answer u good state judge received =
     (case received of None \<Rightarrow> Error ''bad_request''
      | Some m \<Rightarrow>
          if client_event m = Some ''echo'' then
            (case payload_with ''message'' m of
               Some p \<Rightarrow> Event ''echo'' (json_set ''userId'' (JInteger u) p)
             | None \<Rightarrow> Error ''bad_request'')
          else if client_event m = Some ''resync_request'' then
            (case payload_with ''resumeToken'' m of
               Some p \<Rightarrow> if good (get_string (json_at p ''resumeToken'')) then Event ''resync_state'' state
                         else Error ''invalid_resume_token''
             | None \<Rightarrow> Error ''invalid_resume_token'')
          else if client_event m = Some ''session.input'' then
            (case input_payload m of
               Some p \<Rightarrow> (case judge p of None \<Rightarrow> Silence | Some code \<Rightarrow> Error code)
             | None \<Rightarrow> Error ''input_invalid'')
          else Error ''bad_request'')"

text \<open>Where the code departs from it.\<close>

definition malformed_input :: "json option \<Rightarrow> bool" where
  "malformed_input received \<longleftrightarrow>
     (case received of None \<Rightarrow> False | Some m \<Rightarrow> client_event m = Some ''session.input'' \<and> input_payload m = None)"

definition sent_answer ::
  "int \<Rightarrow> (string \<Rightarrow> bool) \<Rightarrow> json \<Rightarrow> (json \<Rightarrow> string option) \<Rightarrow> json option \<Rightarrow> answer" where
  "sent_answer u good state judge received =
     (if malformed_input received then Error ''bad_request'' else contract_answer u good state judge received)"

lemmas answer_defs = sent_answer_def malformed_input_def contract_answer_def

section \<open>An answer in the send queue\<close>

fun says :: "answer \<Rightarrow> nat \<Rightarrow> json option \<Rightarrow> bool" where
  "says Silence seq j \<longleftrightarrow> j = None"
| "says (Event e p) seq j \<longleftrightarrow>
     j = Some (ToWsJson \<lparr>env_type = ''event'', env_event = e, env_seq = seq, env_payload = p\<rparr>)"
| "says (Error code) seq j \<longleftrightarrow>
     (\<exists>text. j = Some (ToWsJson \<lparr>env_type = ''error'', env_event = [], env_seq = seq,
        env_payload = json_obj [(''code'', JString code), (''message'', JString text)]\<rparr>))"

definition has_room :: "string \<Rightarrow> WebSocketSession \<Rightarrow> bool" where
  "has_room s ws \<longleftrightarrow>
     length (send_queue ws) < max_queue_messages ws \<and> queued_bytes ws + length s \<le> max_queue_bytes ws"

definition queued_next :: "string option \<Rightarrow> WebSocketSession \<Rightarrow> WebSocketSession \<Rightarrow> bool" where
  "queued_next answer ws ws' \<longleftrightarrow>
     (case answer of
        None \<Rightarrow> send_queue ws' = send_queue ws \<and> \<not> closing ws'
      | Some s \<Rightarrow>
          if has_room s ws then send_queue ws' = send_queue ws @ [s] \<and> \<not> closing ws'
          else send_queue ws' = [] \<and> closing ws')"

text \<open>The handlers change the queue only through \<open>EnqueueMessage\<close>.\<close>

definition same_queue :: "WebSocketSession \<Rightarrow> WebSocketSession \<Rightarrow> bool" where
  "same_queue ws ws0 \<longleftrightarrow> send_queue ws0 = send_queue ws \<and> queued_bytes ws0 = queued_bytes ws \<and>
     max_queue_messages ws0 = max_queue_messages ws \<and> max_queue_bytes ws0 = max_queue_bytes ws \<and>
     closing ws0 = closing ws"

lemma same_queue_intros [intro]:
  "same_queue ws ws" "same_queue ws (ws\<lparr>ws_snapshot := j, resume_token := t\<rparr>)" "same_queue ws (ws\<lparr>pending_read := b\<rparr>)"
  by (simp_all add: same_queue_def)

definition answers_with :: "(json \<Rightarrow> string) \<Rightarrow> answer \<Rightarrow> nat \<Rightarrow> WebSocketSession \<Rightarrow> WebSocketSession \<Rightarrow> bool" where
  "answers_with dump a seq ws ws1 \<longleftrightarrow>
     (\<exists>j. says a seq j \<and>
        (case j of None \<Rightarrow> ws1 = ws | Some env \<Rightarrow> \<exists>ws0. same_queue ws ws0 \<and> ws1 = EnqueueMessage (dump env) ws0))"

lemma enqueue_answers:
  "says a seq (Some env) \<Longrightarrow> same_queue ws ws0 \<Longrightarrow> answers_with dump a seq ws (EnqueueMessage (dump env) ws0)"
  unfolding answers_with_def by (rule exI [of _ "Some env"]) auto

lemma Send_answers:
  "answers_with dump (Error code) seq ws (SendError dump code text seq ws)"
  "answers_with dump (Event ''echo'' (json_set ''userId'' (JInteger (au_user_id (as_user (ws_session ws)))) p)) seq ws
     (SendEcho dump p seq ws)"
  "same_queue ws ws0 \<Longrightarrow> answers_with dump (Event ''resync_state''
     (json_obj [(''resumeToken'', JString (resume_token ws0)), (''snapshot'', ws_snapshot ws0)])) seq ws
     (SendResyncState dump seq ws0)"
  unfolding SendError_def SendEcho_def SendResyncState_def
  by (rule enqueue_answers; auto)+

lemma silence_answers: "answers_with dump Silence seq ws ws"
  by (simp add: answers_with_def)

lemma EnqueueMessage_queued:
  assumes "\<not> closing ws" "same_queue ws ws0"
  shows "queued_next (Some s) ws (DoRead (EnqueueMessage s ws0))"
    "pending_read (DoRead (EnqueueMessage s ws0)) \<or> closing (DoRead (EnqueueMessage s ws0))"
  using assms
  by (auto simp: queued_next_def has_room_def same_queue_def EnqueueMessage_def TriggerBackpressureClose_def WriteNext_def
      DoRead_def Let_def split: list.split)

lemma answers_queued:
  assumes "answers_with dump a seq ws ws1" "\<not> closing ws"
  shows "\<exists>j. says a seq j \<and> queued_next (map_option dump j) ws (DoRead ws1) \<and>
    (pending_read (DoRead ws1) \<or> closing (DoRead ws1))"
proof -
  obtain j where j: "says a seq j"
    "case j of None \<Rightarrow> ws1 = ws | Some env \<Rightarrow> \<exists>ws0. same_queue ws ws0 \<and> ws1 = EnqueueMessage (dump env) ws0"
    using assms(1) by (auto simp: answers_with_def)
  show ?thesis
  proof (cases j)
    case None
    with j assms(2) show ?thesis by (intro exI [of _ j]) (simp add: queued_next_def DoRead_def)
  next
    case (Some env)
    with j EnqueueMessage_queued [OF assms(2)] show ?thesis by (intro exI [of _ j]) auto
  qed
qed

section \<open>The handlers\<close>

text \<open>A member that is not there does not have the kind that is asked for.\<close>

lemma no_member: "\<not> is_object p \<or> \<not> json_contains p k \<Longrightarrow> json_at p k = JNull"
  by (cases p) (auto simp: json_contains_def json_at_def)

lemma string_member: "is_string (json_at p k) \<Longrightarrow> is_object p \<and> json_contains p k"
  by (cases "is_object p \<and> json_contains p k") (auto simp: no_member)

text \<open>What a resync gives the user: a new token, and the snapshot of this moment.\<close>

definition resync_state :: "byte list \<Rightarrow> time_ns \<Rightarrow> WebSocketSession \<Rightarrow> json" where
  "resync_state rnd now ws =
     json_obj [(''resumeToken'', JString (GenerateResumeToken rnd)), (''snapshot'', BuildSnapshot now ws)]"

lemma resync_answers:
  "answers_with dump
     (if ValidateResume (get_string (json_at p ''resumeToken'')) (as_user (ws_session ws)) rc \<noteq> None
      then Event ''resync_state'' (resync_state rnd t1 ws) else Error ''invalid_resume_token'')
     seq ws (fst (HandleResyncRequest dump rnd t1 t2 p seq ws rc))"
proof (cases "ValidateResume (get_string (json_at p ''resumeToken'')) (as_user (ws_session ws)) rc")
  case None
  then show ?thesis by (simp add: HandleResyncRequest_def Let_def Send_answers(1))
next
  case (Some r)
  let ?ws0 = "ws\<lparr>ws_snapshot := BuildSnapshot t1 ws, resume_token := GenerateResumeToken rnd\<rparr>"
  have "fst (HandleResyncRequest dump rnd t1 t2 p seq ws rc) = SendResyncState dump seq ?ws0"
    using Some by (simp add: HandleResyncRequest_def IssueToken_def Let_def split_beta)
  then show ?thesis using Some Send_answers(3) [of ws ?ws0 dump seq] by (auto simp: resync_state_def)
qed

lemma input_answers:
  "answers_with dump
     (case input_payload (json_obj [(''p'', p)]) of
        None \<Rightarrow> Error ''bad_request''
      | Some p \<Rightarrow> (case map_option fst (fst (SubmitInput (input_of_message p ws) sm)) of
            None \<Rightarrow> Silence | Some code \<Rightarrow> Error code))
     seq ws (fst (HandleSessionInput dump p seq ws sm))"
proof -
  show ?thesis
    by (auto simp: no_member HandleSessionInput_def input_payload_def payload_with_def Send_answers(1) silence_answers Let_def split_beta
        split: option.split)
qed

lemma echo_answers:
  "answers_with dump
     (case payload_with ''message'' m of
        Some p \<Rightarrow> Event ''echo'' (json_set ''userId'' (JInteger (au_user_id (as_user (ws_session ws)))) p)
      | None \<Rightarrow> Error ''bad_request'')
     seq ws (HandleEcho dump (json_find m ''p'') seq ws)"
proof -
  show ?thesis
    by (auto simp: no_member HandleEcho_def payload_with_def Send_answers split: option.split)
qed

lemma HandleMessage_answers:
  "answers_with dump
     (sent_answer (au_user_id (as_user (ws_session ws))) (\<lambda>t. ValidateResume t (as_user (ws_session ws)) rc \<noteq> None)
        (resync_state rnd t1 ws) (\<lambda>p. map_option fst (fst (SubmitInput (input_of_message p ws) sm))) (Some m))
     (message_seq m) ws (fst (HandleMessage dump rnd t1 t2 m ws rc sm))"
proof (cases "client_event m")
  case None
  then have "\<exists>text. fst (HandleMessage dump rnd t1 t2 m ws rc sm) = SendError dump ''bad_request'' text (message_seq m) ws"
    by (cases "json_find m ''t''"; cases "json_find m ''event''")
      (auto simp: HandleMessage_def client_event_def json_at_def Let_def elim: is_string.elims split: if_splits)
  with None show ?thesis by (auto simp: answer_defs Send_answers(1))
next
  case (Some e)
  then obtain ev where ev: "json_find m ''t'' = Some (JString ''event'')" "json_find m ''event'' = Some ev" "is_string ev"
    "get_string ev = e"
    by (auto simp: client_event_def json_at_def split: if_splits option.splits)
  consider "e = ''echo''" | "e = ''resync_request''" | "e = ''session.input''"
    | "e \<noteq> ''echo''" "e \<noteq> ''resync_request''" "e \<noteq> ''session.input''" by blast
  then show ?thesis
  proof cases
    case 1
    with ev Some echo_answers show ?thesis by (simp add: HandleMessage_def answer_defs Let_def)
  next
    case 2
    show ?thesis
    proof (cases "payload_with ''resumeToken'' m")
      case None
      with 2 ev Some no_member show ?thesis
        by (auto simp: HandleMessage_def answer_defs payload_with_def Send_answers(1) Let_def
            split: option.splits if_splits)
    next
      case payload: (Some p)
      then have "json_find m ''p'' = Some p" "is_string (json_at p ''resumeToken'')"
        by (auto simp: payload_with_def split: option.splits if_splits)
      moreover from this(2) have "is_object p" "json_contains p ''resumeToken''" using string_member by blast+
      ultimately show ?thesis
        using 2 ev Some payload resync_answers [of dump p ws rc rnd t1 "message_seq m" t2]
        by (simp add: HandleMessage_def answer_defs Let_def split_beta)
    qed
  next
    case 3
    show ?thesis
    proof (cases "json_find m ''p''")
      case None
      with 3 ev Some show ?thesis
        by (simp add: HandleMessage_def answer_defs input_payload_def payload_with_def Send_answers(1) Let_def)
    next
      case payload: (Some p)
      have same: "input_payload m = input_payload (json_obj [(''p'', p)])"
        using payload by (simp add: input_payload_def payload_with_def)
      show ?thesis
      proof (cases "is_object p")
        case True
        with 3 ev Some payload same input_answers [where p = p and ws = ws and sm = sm and seq = "message_seq m" and dump = dump] show ?thesis
          by (cases "input_payload (json_obj [(''p'', p)])") (simp_all add: HandleMessage_def answer_defs Let_def split_beta)
      next
        case False
        with 3 ev Some payload no_member show ?thesis
          by (simp add: HandleMessage_def answer_defs input_payload_def payload_with_def Send_answers(1) Let_def)
      qed
    qed
  next
    case 4
    with ev Some show ?thesis by (simp add: HandleMessage_def answer_defs Send_answers(1) Let_def)
  qed
qed

section \<open>Properties\<close>

text \<open>C12: Every text that arrives on an open connection is answered as the contract says, with two exceptions, in its
  own connection and with its own number: an \<open>echo\<close> with the payload it came with, a valid \<open>resync_request\<close> with a new
  token and a snapshot, a well-formed \<open>session.input\<close> with silence if \<open>SubmitInput\<close> accepts it (which does not look at
  the session it names) and with its error code if not, anything else with the error code for what is wrong. The
  exceptions: a \<open>session.input\<close> with missing or malformed fields gets \<open>bad_request\<close> and not the \<open>input_invalid\<close> of the
  contract, and a number that is negative or not an integer comes back as 0, as if there were none. The answer is
  the next in the send queue, or, if it has no room there, the connection closes; and as long as it is open it
  reads on.\<close>

theorem messages_answered_by_contract:
  assumes "ws_at r sv = Some ws" "\<not> closing ws"
  shows "\<exists>ws' j. ws_at r (OnRead parse dump False data rnd t1 t2 r sv) = Some ws' \<and>
    says (if malformed_input (parse data) then Error ''bad_request''
        else contract_answer (au_user_id (as_user (ws_session ws)))
          (\<lambda>t. ValidateResume t (as_user (ws_session ws)) (reconnect_service sv) \<noteq> None) (resync_state rnd t1 ws)
          (\<lambda>p. map_option fst (fst (SubmitInput (input_of_message p ws) (session_manager sv)))) (parse data))
      (case parse data of None \<Rightarrow> 0 | Some m \<Rightarrow> message_seq m) j \<and>
    queued_next (map_option dump j) ws ws' \<and> (pending_read ws' \<or> closing ws')"
proof -
  let ?ws0 = "ws\<lparr>pending_read := False\<rparr>"
  let ?a = "sent_answer (au_user_id (as_user (ws_session ws)))
      (\<lambda>t. ValidateResume t (as_user (ws_session ws)) (reconnect_service sv) \<noteq> None) (resync_state rnd t1 ws)
      (\<lambda>p. map_option fst (fst (SubmitInput (input_of_message p ws) (session_manager sv)))) (parse data)"
  let ?seq = "case parse data of None \<Rightarrow> 0 | Some m \<Rightarrow> message_seq m"
  have same: "resync_state rnd t1 ?ws0 = resync_state rnd t1 ws" "input_of_message p ?ws0 = input_of_message p ws" for p
    by (simp_all add: resync_state_def BuildSnapshot_def input_of_message_def)
  obtain ws1 where ws1: "ws_at r (OnRead parse dump False data rnd t1 t2 r sv) = Some (DoRead ws1)"
    "answers_with dump ?a ?seq ?ws0 ws1"
  proof (cases "parse data")
    case None
    with assms that [of "SendError dump ''bad_request'' msg_json_parse 0 ?ws0"] show thesis
      by (simp add: OnRead_def answer_defs Send_answers(1) ws_at_def put_ws_at_def with_network_def put_ws_def Let_def)
  next
    case (Some m)
    let ?h = "HandleMessage dump rnd t1 t2 m ?ws0 (reconnect_service sv) (session_manager sv)"
    have "answers_with dump ?a ?seq ?ws0 (fst ?h)"
      using HandleMessage_answers [of dump ?ws0 "reconnect_service sv" rnd t1 "session_manager sv" m t2] Some
      by (simp add: same)
    with Some assms that [of "fst ?h"] show thesis
      by (simp add: OnRead_def ws_at_def put_ws_at_def with_network_def put_ws_def Let_def split_beta)
  qed
  have "\<exists>j. says ?a ?seq j \<and> queued_next (map_option dump j) ?ws0 (DoRead ws1) \<and>
      (pending_read (DoRead ws1) \<or> closing (DoRead ws1))"
    by (rule answers_queued [OF ws1(2)]) (use assms in simp)
  moreover have "queued_next x ?ws0 ws' = queued_next x ws ws'" for x ws'
    by (simp add: queued_next_def has_room_def split: option.split)
  ultimately show ?thesis using ws1(1) by (auto simp: sent_answer_def)
qed

text \<open>An echo with number 7 over a new connection.\<close>

theorem messages_answered_by_contract_witness:
  "let ws = make_WebSocketSession sample_session 8 100; payload = json_obj [(''message'', JString ''hi'')];
       m = json_obj [(''t'', JString ''event''), (''event'', JString ''echo''), (''seq'', JUnsigned 7), (''p'', payload)];
       sv = put_ws_at 0 ws (make_ServerApp sample_config);
       dump = (\<lambda>j. case json_at j ''seq'' of JUnsigned n \<Rightarrow> show_nat n | j \<Rightarrow> [])
   in \<exists>ws'. ws_at 0 (OnRead (\<lambda>s. Some m) dump False ''x'' [1] 0 0 0 sv) = Some ws' \<and> send_queue ws' = [show_nat 7]"
proof -
  let ?ws = "make_WebSocketSession sample_session 8 100" and ?payload = "json_obj [(''message'', JString ''hi'')]"
  let ?m = "json_obj [(''t'', JString ''event''), (''event'', JString ''echo''), (''seq'', JUnsigned 7), (''p'', ?payload)]"
  let ?sv = "put_ws_at 0 ?ws (make_ServerApp sample_config)"
  let ?dump = "\<lambda>j. case json_at j ''seq'' of JUnsigned n \<Rightarrow> show_nat n | j \<Rightarrow> []"
  have ws: "ws_at 0 ?sv = Some ?ws" "\<not> closing ?ws"
    by (simp_all add: ws_at_def put_ws_at_def put_ws_def with_network_def make_WebSocketSession_def)
  have "client_event ?m = Some ''echo''" "payload_with ''message'' ?m = Some ?payload" "message_seq ?m = 7"
    by (simp_all add: client_event_def payload_with_def message_seq_def)
  then have answer: "contract_answer u good state judge (Some ?m) = Event ''echo'' (json_set ''userId'' (JInteger u) ?payload)"
    "message_seq ?m = 7" "\<not> malformed_input (Some ?m)" for u good state judge
    by (simp_all add: answer_defs)
  have "length (show_nat 7) \<le> 100" by (simp add: show_nat_def show_base.simps [of 10 7])
  then have room: "has_room (show_nat 7) ?ws" by (simp add: has_room_def make_WebSocketSession_def)
  have empty: "send_queue ?ws = []" by (simp add: make_WebSocketSession_def)
  show ?thesis
    using messages_answered_by_contract [OF ws, of "\<lambda>s. Some ?m" ?dump "''x''" "[1]" 0 0] room empty
    by (auto simp: answer queued_next_def ToWsJson_def Let_def)
qed

end
