(* ===== verification/Spec2Isabelle.thy ===== *)
theory Spec2Isabelle
  imports AppLifecycle ContractServer RestContract Identity HttpConnection QueueSpec SessionSpec Determinism
    ThreadPool ResumeTokens Answers
begin

text \<open>
  A verification library for the game server of this repository (\<open>src/server\<close>, C++ on Boost.Asio,
  Boost.Beast, nlohmann::json and OpenSSL). The server registers and logs in users over HTTP, pairs
  waiting users in a match queue, runs every match as a short tick-based session whose state it sends
  to the players over WebSockets, stores one result per session, and keeps Elo ratings and a
  leaderboard of them.

  \<^bold>\<open>Theories and what they model.\<close>
  \<^item> \<open>Prelude\<close>: hash maps as association lists, clock arithmetic and narrowing at 64 and 32 bits,
    exceptions, number printing; the interfaces \<open>machine\<close>, \<open>refines\<close> and \<open>token_table\<close>.
  \<^item> \<open>Hex\<close>, \<open>IsoTime\<close>, \<open>Json\<close>, \<open>Messages\<close>, \<open>Numbers\<close>, \<open>ApiResponse\<close>: the helpers of \<open>auth.cpp\<close> and
    \<open>http_session.cpp\<close> (hexadecimal, time stamps, \<open>stoul\<close>, query strings), JSON values, the Korean
    error messages as UTF-8 bytes, and the envelopes of \<open>api_response.cpp\<close>.
  \<^item> \<open>RateLimiter\<close>, \<open>Auth\<close>: \<open>RateLimiter\<close> and \<open>AuthService\<close> (\<open>auth.cpp\<close>).
  \<^item> \<open>Reconnect\<close>: \<open>ReconnectService\<close> (\<open>reconnect.cpp\<close>).
  \<^item> \<open>Observability\<close>: counters, trace ids and the log (\<open>observability.cpp\<close>).
  \<^item> \<open>Simulation\<close>, \<open>Determinism\<close>: \<open>Simulation\<close> (\<open>simulation.cpp\<close>).
  \<^item> \<open>Rating\<close>, \<open>Results\<close>: \<open>RatingService\<close> (\<open>rating.cpp\<close>), \<open>ResultRepository\<close> and \<open>ResultService\<close>
    (\<open>result_repository.cpp\<close>, \<open>result_service.cpp\<close>).
  \<^item> \<open>WsSend\<close>, \<open>WsSession\<close>: \<open>WebSocketSession\<close> (\<open>websocket_session.cpp\<close>), first its send queue, then
    its handlers on the state of the server.
  \<^item> \<open>Realtime\<close>: \<open>RealtimeCoordinator\<close> (\<open>realtime.cpp\<close>) over the heap of WebSocket sessions.
  \<^item> \<open>SessionManager\<close>, \<open>SessionLifecycle\<close>, \<open>SessionOutcome\<close>, \<open>SessionTrace\<close>: \<open>SessionManager\<close>
    (\<open>session_manager.cpp\<close>), its runs, its results, its events. \<open>ThreadPool\<close>: \<open>SubmitInput\<close> on the threads of
    \<open>RunWorkers\<close>, which it can leave waiting for each other.
  \<^item> \<open>Backend\<close>, \<open>MatchQueue\<close>, \<open>Matchmaking\<close>: coordinator and result service as the session manager
    calls them; \<open>MatchQueueService\<close> (\<open>match_queue.cpp\<close>); the queue on the real session manager.
  \<^item> \<open>ServerApp\<close>, \<open>HttpSession\<close>: configuration and construction (\<open>app.cpp\<close>, \<open>config.hpp\<close>), and every
    HTTP endpoint with its dispatch, response, counters and upgrade (\<open>http_session.cpp\<close>).
  \<^item> \<open>HttpConnection\<close>: one \<open>HttpSession\<close> as a connection: its read, its response, its end.
  \<^item> \<open>AppLifecycle\<close>: \<open>Listener\<close>, the thread pool, \<open>Run\<close> and \<open>Stop\<close> of \<open>ServerApp\<close> (\<open>app.cpp\<close>) and \<open>main.cpp\<close>.
  \<^item> \<open>ServerInvariant\<close>, \<open>ServerSteps\<close>: the invariant of the whole server under every handler, and the
    server as a step relation, one step for one handler that the executor runs. \<open>UserJourney\<close>: the way of a
    user through the handlers, from registration to a connection or to the queue. \<open>MatchJourney\<close>: the way of a
    pair of users from the queue to the stored result of their match. \<open>ServerRuns\<close>: runs of the server as lists of
    events, whose ends are the reachable servers, seen from the session manager as runs of session operations.
    \<open>Standings\<close>: the ratings as a replay of the stored results. \<open>Identity\<close>: whom each component names, against the
    accounts, and what a stored result says of its session.
  \<^item> \<open>QueueSpec\<close>, \<open>SessionSpec\<close>: the abstract list of waiting users that \<open>MatchQueueService\<close> refines, and the
    abstract book of numbered matches that \<open>SessionManager\<close> refines.
  \<^item> \<open>Contract\<close>, \<open>ContractServer\<close>, \<open>RestContract\<close>: the message contract (\<open>design/protocol/contract.md\<close>) as
    schemas: the events of a session, every WebSocket message of a reachable server, every HTTP answer.
  \<^item> \<open>Answers\<close>: the table by which the contract answers a WebSocket message, and \<open>OnRead\<close> against it. \<open>Metrics\<close>: what
    \<open>/metrics\<close> reports, against the run that led to it. \<open>ResumeTokens\<close>: what ends a resume token, and what does not.

  \<^bold>\<open>Interfaces.\<close> A component that calls another takes the calls as parameters, and a locale states what it
  relies on: \<open>event_sink\<close> (sessions to delivery and results, provided by \<open>Backend\<close>), \<open>typed_sink\<close> (a receiver
  that keeps to the contract what it is sent according to it, provided by the event log and by the backend),
  \<open>session_directory\<close> (queue to sessions, provided by \<open>Matchmaking\<close>), \<open>token_table\<close> (provided by login
  and by resume tokens), \<open>refines\<close> (an abstract machine that agrees with every answer, provided by \<open>QueueSpec\<close> and
  \<open>SessionSpec\<close>)
  and \<open>machine\<close> (operations that keep an invariant, provided by \<open>Auth\<close>, \<open>WsSend\<close>, \<open>SessionLifecycle\<close>,
  \<open>SessionTrace\<close>, \<open>AppLifecycle\<close> and \<open>HttpConnection\<close>).

  \<^bold>\<open>How the code is represented.\<close> A class is a record of its members and an operation a function from the
  old to the new state; several members of an environment are arguments: clock readings, the bytes
  that \<open>RAND_bytes\<close> writes, \<open>PKCS5_PBKDF2_HMAC\<close>, the JSON parser and printer, \<open>getenv\<close>. A mutex makes an
  operation atomic, so it is one function; a posted task (a strand's \<open>dispatch\<close>, a timer, a pending
  read or write) is a flag of the state that a later step consumes, so that every interleaving of
  tasks is a run; a \<open>dispatch\<close> that runs its task at once is the run whose next step is this task. \<open>SubmitInput\<close>
  waits for a task on the session's strand: \<open>OnRead\<close> runs both at once, and the step \<open>input_task\<close> is what is left of
  it when other tasks overtook the one on the strand; the thread that waits meanwhile is modelled in
  \<open>ThreadPool\<close>, whose runs are runs of the session manager. Shared objects (WebSocket sessions, session contexts, list nodes) live in maps by
  address. Exceptions are values of \<open>exn\<close>. Counters that wrap are 64-bit words; sizes and the session
  number are natural numbers, since no run reaches \<open>2^64\<close> of them; a player position is an integer
  whose bound is proved; user ids go on where the \<open>int\<close> of the code would overflow, and the theorems that rest
  on their fitting say so. Ratings are computed over the reals where the code uses \<open>double\<close>.

  \<^bold>\<open>What the lemmas show.\<close> Each component has its invariant and the proof that every operation keeps it;
  the effect of every operation on every branch; and its contract: bursts of login attempts are
  bounded, credentials and logouts are permanent, snapshots do not depend on the interleaving of the
  network, sessions take exactly their ticks, send their events in order and refine a book of matches, results are stored and
  rated once, queues are first come first served and refine a list, send queues are bounded and in order,
  whatever is sent keeps to the message contract, messages are answered by its table (but for
  malformed inputs and numbers), metrics count what was
  answered, resume tokens outlive everything but their use, accepting goes on until \<open>Stop\<close>, which is final, a
  connection answers one request, the thread pool can hang exactly if it has two threads or more and no more than
  connections, and every reachable server satisfies all invariants together, names
  registered users only, stores true results and rates by them.

  \<^bold>\<open>Bounds.\<close> There is no fuel. \<open>RunForDuration\<close> is the one loop that the clock ends: its delays are a
  list, \<open>None\<close> means the list was too short, and a theorem gives the length that is enough, whatever the delays. The
  other loops recurse on lists or have a termination proof.

  \<^bold>\<open>Not modelled.\<close> Below the calls that the code makes: sockets, HTTP and WebSocket parsing (Boost.Beast),
  the executor of Boost.Asio beyond running each pending task once, the timeouts of the stream; tests, tools
  and infrastructure. Handlers run atomically: data races between a session's strand and a WebSocket handler
  on another thread are outside the model. The step relation of the server has as many threads as it needs; the
  number of threads counts in \<open>ThreadPool\<close>, for the tasks of sessions alone.
  The printer \<open>dump\<close> throws on a string that is not UTF-8; outside the log it is a total function, since the
  strings of all other messages are constants, hexadecimal tokens, or come from JSON that the parser has
  already checked.
\<close>

text \<open>The facts that the properties of the whole server share.\<close>

lemmas server_parts = server_inv_def game_good_def game_of_def backend_inv_def ledger_inv_def

section \<open>Properties\<close>

text \<open>C1: Safety of the whole server: in every state that any interleaving of requests, WebSocket events
  and timers can reach, accounts and login tokens are consistent, nobody waits in the queue while in a
  session or waits twice, the index of the queue is exact, every connection leads to a live session of
  its user within its queue limits and the gauge counts them, session maps and contexts agree, the
  stored results are those of the ended sessions, and wins and losses each add up to their number.\<close>

theorem server_safe:
  assumes "reachable pf cfg sv"
  shows "auth_inv (auth_service sv) \<and> mq_inv (match_queue sv) \<and>
    apart game_in_session (match_queue sv) (game_of sv) \<and> net_inv (net_of sv) \<and> sm_inv (session_manager sv) \<and>
    results_match (backend_found (backend sv)) (session_manager sv) \<and>
    total_of re_wins (rating_entries (ratings_of sv)) = int (ResultCount (repository (result_service (backend sv)))) \<and>
    total_of re_losses (rating_entries (ratings_of sv)) = int (ResultCount (repository (result_service (backend sv))))"
  using reachable_inv [OF assms]
  by (simp add: server_parts)

theorem server_safe_witness:
  "\<exists>sv ws. reachable play_platform sample_config sv \<and> ws_at 0 sv = Some ws \<and> send_queue ws = [''body''] \<and>
     auth_inv (auth_service sv) \<and> net_inv (net_of sv) \<and> apart game_in_session (match_queue sv) (game_of sv) \<and>
     total_of re_wins (rating_entries (ratings_of sv)) = int (ResultCount (repository (result_service (backend sv))))"
  using sample_connected server_safe [of play_platform sample_config] by blast

text \<open>C17: No exception leaves a handler of a reachable server except the one of the log printer (as long
  as fewer than \<open>2^63\<close> players are rated).\<close>

theorem only_the_log_throws:
  assumes "reachable pf cfg sv" "um_size (rating_entries (ratings_of sv)) < 2 ^ 63" "server_crash pf sv e"
  shows "e = RuntimeError ''type_error.316''"
  using assms(3)
proof (cases rule: server_crash.cases)
  case (http rd rnd ok req)
  then show ?thesis by (rule OnHttpRead_throws [OF assms(2)])
next
  case (tick now ended_at n)
  then show ?thesis using TickTimer_result [OF reachable_inv [OF assms(1)], of "pf_dump pf" now ended_at n] by auto
qed

theorem only_the_log_throws_witness:
  "\<exists>e. server_crash (sample_platform (\<lambda>j. None)) (make_ServerApp sample_config) e \<and> e = RuntimeError ''type_error.316''"
proof -
  let ?pf = "sample_platform (\<lambda>j. None)" and ?sv = "make_ServerApp sample_config"
  have "\<exists>e. OnHttpRead ?pf sample_readings [] True (sample_request GetMethod [CHR 0xFF]) ?sv = Inl e"
    by (simp add: OnHttpRead_def HandleRequest_def SendResponse_def Log_def sample_platform_def sample_request_def
        split_beta Let_def split: sum.split)
  then obtain e where "server_crash ?pf ?sv e" by (blast intro: server_crash.http)
  moreover have "um_size (rating_entries (ratings_of ?sv)) < 2 ^ 63"
    by (simp add: make_ServerApp_def make_ResultService_def make_RatingService_def um_size_def)
  ultimately show ?thesis using only_the_log_throws [OF reachable.start] by blast
qed

text \<open>After an accepted upgrade the user is reached through the new WebSocket session, which belongs to
  the login it was opened with and holds a resume token that is valid for this user.\<close>

lemma upgraded_session_reachable:
  "let sv' = AcceptWebSocket pf rd rnd session sv; user = as_user session
   in \<exists>ws. lock_session (au_user_id user) (net_of sv') = Some (next_address sv, ws) \<and> ws_session ws = session \<and>
        map_option rs_user (ValidateResume (resume_token ws) user (reconnect_service sv')) = Some user"
  by (simp add: AcceptWebSocket_def RunSession_def Let_def split_beta ws_at_def put_ws_at_def with_network_def
      put_ws_def lock_session_def Register_def make_WebSocketSession_def IssueToken_def ValidateResume_def
      find_resume_def store_resume_def SendAuthState_def DoRead_def)

end
